(* ===== verification/Prelude.thy ===== *)
theory Prelude
  imports Main "HOL-Library.Word"
begin

text \<open>
  Shared vocabulary of the development: the machine integers of the crate, its error type and
  result type (\<^verbatim>\<open>ApfsError\<close>, \<^verbatim>\<open>Result\<close> of \<^verbatim>\<open>src/src/lib.rs\<close>) with an explicit panic outcome, the
  slice and integer operations of the Rust standard library the crate uses, the generic
  \<^verbatim>\<open>Read + Seek\<close> source, and the generic lemmas on lists, options and words the components share.
\<close>

unbundle bit_operations_syntax

section \<open>Machine integers and byte slices\<close>

type_synonym u8 = "8 word"
type_synonym u16 = "16 word"
type_synonym u32 = "32 word"
type_synonym u64 = "64 word"
type_synonym usize = nat
type_synonym bytes = "u8 list"

named_theorems slice_simps \<open>rewrite rules for sub-slices of byte lists\<close>
named_theorems res_simps \<open>rewrite rules for results\<close>
named_theorems no_panic \<open>operations that never panic\<close>

section \<open>Errors and results\<close>

text \<open>
  The I/O errors (\<^verbatim>\<open>std::io::Error\<close>) as far as the crate tells them apart: a \<^verbatim>\<open>read_exact\<close> that fails with
  \<^verbatim>\<open>ErrorKind::UnexpectedEof\<close>, or any other failure, that of a seek included whatever its kind; each with
  its own \<^verbatim>\<open>Display\<close> text, which need not be known.
\<close>

datatype io_error = is_UnexpectedEof: UnexpectedEof (io_text: string) | OtherIo (io_text: string)

datatype ApfsError =
    Io io_error
  | NoValidSuperblock usize u32 \<comment> \<open>checked, last magic\<close>
  | ChecksumMismatch u64 u64 u64 \<comment> \<open>block, stored, computed\<close>
  | OmapUnresolved u64 u64 \<comment> \<open>oid, xid\<close>
  | UnexpectedObjectType string u32 u32 \<comment> \<open>structure, expected, found\<close>
  | UnsupportedFusion
  | UnsupportedSpacemanCab u64
  | FieldOutOfRange string string u64 u64 \<comment> \<open>structure, field, value, cap\<close>
  | CycleGuard usize
  | CheckpointTreeUnsupported string
  | SnapshotNotFound u64
  | Decmpfs string

text \<open>
  The outcome of a Rust computation: a value, a named error, or a panic (an index out of range,
  an overflow of a checked arithmetic operation, a division by zero).
\<close>

datatype 'a res = Ok 'a | Err ApfsError | Panic

text \<open>The \<^verbatim>\<open>?\<close> operator: go on with the value, return the error, propagate the panic.\<close>

primrec and_then :: "'a res \<Rightarrow> ('a \<Rightarrow> 'b res) \<Rightarrow> 'b res" where
  "and_then (Ok x) f = f x"
| "and_then (Err e) f = Err e"
| "and_then Panic f = Panic"

lemma and_then_cong [fundef_cong]:
  "x = y \<Longrightarrow> (\<And>v. y = Ok v \<Longrightarrow> f v = g v) \<Longrightarrow> and_then x f = and_then y g"
  by (cases y) auto

lemma and_then_Ok_iff [res_simps]:
  "and_then x f = Ok y \<longleftrightarrow> (\<exists>v. x = Ok v \<and> f v = Ok y)"
  by (cases x) auto

lemma and_then_Err_iff [res_simps]:
  "and_then x f = Err e \<longleftrightarrow> x = Err e \<or> (\<exists>v. x = Ok v \<and> f v = Err e)"
  by (cases x) auto

lemma and_then_Panic_iff [res_simps]:
  "and_then x f = Panic \<longleftrightarrow> x = Panic \<or> (\<exists>v. x = Ok v \<and> f v = Panic)"
  by (cases x) auto

lemma and_then_assoc: "and_then (and_then x f) g = and_then x (\<lambda>v. and_then (f v) g)"
  by (cases x) auto

lemma and_then_Ok_right [simp]: "and_then x Ok = x"
  by (cases x) auto

text \<open>\<^verbatim>\<open>Option::ok_or\<close>.\<close>

definition ok_or :: "'a option \<Rightarrow> ApfsError \<Rightarrow> 'a res" where
  "ok_or x e = (case x of Some v \<Rightarrow> Ok v | None \<Rightarrow> Err e)"

lemma ok_or_simps [simp]: "ok_or (Some v) e = Ok v" "ok_or None e = Err e"
  by (simp_all add: ok_or_def)

lemma ok_or_no_panic [no_panic, simp]: "ok_or x e \<noteq> Panic"
  by (cases x) auto

lemma and_then_ok_or: "and_then (ok_or x e) (\<lambda>v. Ok (f v)) = ok_or (map_option f x) e"
  by (cases x) auto

lemma ok_or_Ok_iff [res_simps]: "ok_or x e = Ok v \<longleftrightarrow> x = Some v"
  by (cases x) auto

lemma ok_or_Err_iff [res_simps]: "ok_or x e = Err e' \<longleftrightarrow> x = None \<and> e' = e"
  by (cases x) auto

text \<open>A loop that pushes the results of a fallible call, returning the first error.\<close>

primrec traverse :: "('a \<Rightarrow> 'b res) \<Rightarrow> 'a list \<Rightarrow> 'b list res" where
  "traverse f [] = Ok []"
| "traverse f (x # xs) = and_then (f x) (\<lambda>y. and_then (traverse f xs) (\<lambda>ys. Ok (y # ys)))"

text \<open>The computation returns: a value, or an error of the given kinds; it does not panic.\<close>

definition fails_only :: "(ApfsError \<Rightarrow> bool) \<Rightarrow> 'a res \<Rightarrow> bool" where
  "fails_only P r = (case r of Ok v \<Rightarrow> True | Err e \<Rightarrow> P e | Panic \<Rightarrow> False)"

lemma fails_only_simps [simp]:
  "fails_only P (Ok v)" "fails_only P (Err e) = P e" "\<not> fails_only P Panic"
  by (simp_all add: fails_only_def)

lemma fails_only_and_then [intro]:
  "fails_only P x \<Longrightarrow> (\<And>v. x = Ok v \<Longrightarrow> fails_only P (f v)) \<Longrightarrow> fails_only P (and_then x f)"
  by (cases x) auto

lemma fails_only_mono: "fails_only P r \<Longrightarrow> (\<And>e. P e \<Longrightarrow> Q e) \<Longrightarrow> fails_only Q r"
  by (cases r) auto

lemma fails_only_iff: "fails_only P r \<longleftrightarrow> r \<noteq> Panic \<and> (\<forall>e. r = Err e \<longrightarrow> P e)"
  by (cases r) auto

lemma fails_only_ok_or [simp]: "fails_only P (ok_or x e) \<longleftrightarrow> x \<noteq> None \<or> P e"
  by (cases x) auto

text \<open>
  Two runs compared: the second outcome is the first one, or an error of the given kinds. With no
  such kind it is equality.
\<close>

definition same_unless :: "(ApfsError \<Rightarrow> bool) \<Rightarrow> 'a res \<Rightarrow> 'a res \<Rightarrow> bool" where
  "same_unless P r r' \<longleftrightarrow> r' = r \<or> (\<exists>e. r' = Err e \<and> P e)"

lemma same_unless_refl [simp]: "same_unless P r r"
  by (simp add: same_unless_def)

lemma same_unless_Err: "P e \<Longrightarrow> same_unless P r (Err e)"
  by (simp add: same_unless_def)

lemma same_unless_never: "same_unless (\<lambda>_. False) r r' \<longleftrightarrow> r' = r"
  by (simp add: same_unless_def)

lemma same_unless_and_then:
  "same_unless P x x' \<Longrightarrow> (\<And>v. x = Ok v \<Longrightarrow> same_unless P (f v) (f' v)) \<Longrightarrow>
     same_unless P (and_then x f) (and_then x' f')"
  by (cases x) (auto simp: same_unless_def)

section \<open>Slices\<close>

text \<open>\<^verbatim>\<open>slice.get(a..b)\<close>: \<open>None\<close> when the range is reversed or runs past the end.\<close>

definition get_range :: "'a list \<Rightarrow> usize \<Rightarrow> usize \<Rightarrow> 'a list option" where
  "get_range xs a b = (if a \<le> b \<and> b \<le> length xs then Some (take (b - a) (drop a xs)) else None)"

text \<open>\<^verbatim>\<open>slice[i]\<close>: panics out of range.\<close>

definition index :: "'a list \<Rightarrow> usize \<Rightarrow> 'a res" where
  "index xs i = (if i < length xs then Ok (xs ! i) else Panic)"

text \<open>\<^verbatim>\<open>&slice[a..]\<close>: panics when \<open>a\<close> is past the end.\<close>

definition index_from :: "'a list \<Rightarrow> usize \<Rightarrow> 'a list res" where
  "index_from xs a = (if a \<le> length xs then Ok (drop a xs) else Panic)"

lemma get_range_Some_iff:
  "get_range xs a b = Some ys \<longleftrightarrow> a \<le> b \<and> b \<le> length xs \<and> ys = take (b - a) (drop a xs)"
  by (auto simp: get_range_def)

lemma get_range_length: "get_range xs a b = Some ys \<Longrightarrow> length ys = b - a"
  by (auto simp: get_range_def split: if_splits)

lemma get_range_prefix [slice_simps]:
  "get_range (xs @ ys @ zs) (length xs) (length xs + length ys) = Some ys"
  by (simp add: get_range_def)

lemma get_range_append_right [slice_simps]:
  "length xs \<le> a \<Longrightarrow> a \<le> b \<Longrightarrow>
     get_range (xs @ ys) a b = get_range ys (a - length xs) (b - length xs)"
  by (auto simp: get_range_def)

lemma get_range_append_left [slice_simps]:
  "b \<le> length xs \<Longrightarrow> get_range (xs @ ys) a b = get_range xs a b"
  by (auto simp: get_range_def)

lemma get_range_drop_cong:
  "n \<le> a \<Longrightarrow> length xs = length ys \<Longrightarrow> drop n xs = drop n ys \<Longrightarrow> get_range xs a b = get_range ys a b"
  by (auto simp: get_range_def) (metis drop_drop le_add_diff_inverse2)

section \<open>Integer operations of the standard library\<close>

definition checked_add :: "u64 \<Rightarrow> u64 \<Rightarrow> u64 option" where
  "checked_add a b = (if unat a + unat b < 2 ^ 64 then Some (a + b) else None)"

definition checked_mul :: "u64 \<Rightarrow> u64 \<Rightarrow> u64 option" where
  "checked_mul a b = (if unat a * unat b < 2 ^ 64 then Some (a * b) else None)"

text \<open>\<^verbatim>\<open>usize::checked_add\<close> and \<^verbatim>\<open>usize::checked_mul\<close> on a 64-bit target.\<close>

definition checked_add_usize :: "usize \<Rightarrow> usize \<Rightarrow> usize option" where
  "checked_add_usize a b = (if a + b < 2 ^ 64 then Some (a + b) else None)"

definition checked_mul_usize :: "usize \<Rightarrow> usize \<Rightarrow> usize option" where
  "checked_mul_usize a b = (if a * b < 2 ^ 64 then Some (a * b) else None)"

definition saturating_mul :: "u64 \<Rightarrow> u64 \<Rightarrow> u64" where
  "saturating_mul a b = (if unat a * unat b < 2 ^ 64 then a * b else 0xffffffffffffffff)"

text \<open>\<^verbatim>\<open>a + b\<close> on \<^verbatim>\<open>u64\<close> with overflow checks: an overflow panics.\<close>

definition add_u64 :: "u64 \<Rightarrow> u64 \<Rightarrow> u64 res" where
  "add_u64 a b = (if unat a + unat b < 2 ^ 64 then Ok (a + b) else Panic)"

text \<open>\<^verbatim>\<open>a / b\<close> on \<^verbatim>\<open>u64\<close>: a zero divisor panics.\<close>

definition div_u64 :: "u64 \<Rightarrow> u64 \<Rightarrow> u64 res" where
  "div_u64 a b = (if b = 0 then Panic else Ok (a div b))"

lemma unat_bound: "unat (w :: 'a::len word) < 2 ^ LENGTH('a)"
  by (rule unsigned_less)

lemma unat_ucast_u32: "unat (ucast (w :: u32) :: u64) = unat w"
proof -
  have "unat w < 2 ^ 64" using unat_bound [of w] by simp
  then show ?thesis by (simp add: unsigned_ucast_eq take_bit_nat_eq_self)
qed

lemma ucast_u32_eq_0 [simp]: "(ucast (w :: u32) :: u64) = 0 \<longleftrightarrow> w = 0"
  using unat_ucast_u32 [of w] by (metis unsigned_eq_0_iff)

lemma unat_checked_mul: "checked_mul a b = Some c \<Longrightarrow> unat c = unat a * unat b"
  by (auto simp: checked_mul_def unat_word_ariths split: if_splits)

lemma saturating_mul_checked: "checked_mul a b = Some c \<Longrightarrow> saturating_mul a b = c"
  by (auto simp: checked_mul_def saturating_mul_def split: if_splits)

lemma mod_add_rcancel:
  fixes a b c m :: nat
  assumes "(a + c) mod m = (b + c) mod m"
  shows "a mod m = b mod m"
proof -
  have "(int a + int c) mod int m = (int b + int c) mod int m"
    using assms by (metis of_nat_add of_nat_mod)
  then have "(int a + int c - int c) mod int m = (int b + int c - int c) mod int m"
    by (metis mod_diff_left_eq)
  then show ?thesis by (simp flip: of_nat_mod)
qed

lemma minus_mod_inj:
  fixes a b m :: nat
  assumes "m - a mod m = m - b mod m" and "0 < m"
  shows "a mod m = b mod m"
  using assms mod_less_divisor [of m a] mod_less_divisor [of m b] by arith

lemma mod_eq_range:
  fixes x y m :: nat
  assumes "x mod m = y mod m" and "x \<le> m" and "y \<le> m" and "x \<noteq> y"
  shows "{x, y} = {0, m}"
  using assms by (cases "x = m"; cases "y = m") auto

lemma div_mod_inj:
  fixes a b c d n :: nat
  assumes "b + n * a = d + n * c" and "b < n" and "d < n"
  shows "a = c \<and> b = d"
proof -
  have "(b + n * a) div n = (d + n * c) div n" "(b + n * a) mod n = (d + n * c) mod n"
    using assms(1) by simp_all
  then show ?thesis using assms(2,3) by simp
qed

section \<open>The source: a \<^verbatim>\<open>Read + Seek\<close> parameter\<close>

text \<open>
  Every read of the crate is \<^verbatim>\<open>seek(SeekFrom::Start(off))\<close> directly followed by \<^verbatim>\<open>read_exact\<close> of
  a buffer of known length, so the source is the function from (offset, length) to the bytes read
  or the I/O error of either call: an argument of every definition that reads.
\<close>

type_synonym device = "u64 \<Rightarrow> usize \<Rightarrow> io_error + bytes"

definition read_at :: "device \<Rightarrow> u64 \<Rightarrow> usize \<Rightarrow> bytes res" where
  "read_at dev off n = (case dev off n of Inl k \<Rightarrow> Err (Io k) | Inr b \<Rightarrow> Ok b)"

lemma read_at_no_panic [no_panic, simp]: "read_at dev off n \<noteq> Panic"
  by (simp add: read_at_def split: sum.splits)

lemma read_at_Err: "read_at dev off n = Err e \<Longrightarrow> \<exists>k. e = Io k"
  by (auto simp: read_at_def split: sum.splits)

lemma read_at_fails [simp]: "(\<And>k. P (Io k)) \<Longrightarrow> fails_only P (read_at dev off n)"
  by (auto simp: read_at_def split: sum.splits)

text \<open>
  The contract of \<^verbatim>\<open>read_exact\<close>: on success the whole buffer is filled. It is all the proofs
  about arbitrary sources rely on.
\<close>

locale exact_source =
  fixes dev :: device
  assumes exact: "dev off n = Inr b \<Longrightarrow> length b = n"
begin

lemma length_read_at: "read_at dev off n = Ok b \<Longrightarrow> length b = n"
  by (auto simp: read_at_def split: sum.splits intro: exact)

end

text \<open>\<^verbatim>\<open>std::io::Cursor\<close> over an in-memory image.\<close>

definition cursor :: "bytes \<Rightarrow> device" where
  "cursor img off n =
     (if n \<le> length (drop (unat off) img) then Inr (take n (drop (unat off) img))
      else Inl (UnexpectedEof ''failed to fill whole buffer''))"

interpretation cur: exact_source "cursor img" for img
  by unfold_locales (auto simp: cursor_def split: if_splits)

text \<open>
  The function view is sound: the cursor itself keeps a position, but reads that each seek first
  return what the function says, in any order and whatever was read or failed before.
\<close>

record Cursor =
  cur_data :: bytes
  cur_pos :: u64

definition seek_start :: "Cursor \<Rightarrow> u64 \<Rightarrow> Cursor" where
  "seek_start c off = c\<lparr>cur_pos := off\<rparr>"

definition read_exact :: "Cursor \<Rightarrow> usize \<Rightarrow> (io_error + bytes) \<times> Cursor" where
  "read_exact c n =
     (let rest = drop (unat (cur_pos c)) (cur_data c) in
      if n \<le> length rest then (Inr (take n rest), c\<lparr>cur_pos := cur_pos c + word_of_nat n\<rparr>)
      else (Inl (UnexpectedEof ''failed to fill whole buffer''), c\<lparr>cur_pos := word_of_nat (length (cur_data c))\<rparr>))"

fun seek_reads :: "Cursor \<Rightarrow> (u64 \<times> usize) list \<Rightarrow> (io_error + bytes) list" where
  "seek_reads c [] = []"
| "seek_reads c ((off, n) # reqs) =
     (let (r, c') = read_exact (seek_start c off) n in r # seek_reads c' reqs)"

lemma seek_reads_stateless: "seek_reads c reqs = map (\<lambda>(off, n). cursor (cur_data c) off n) reqs"
  by (induction c reqs rule: seek_reads.induct)
    (auto simp: read_exact_def seek_start_def cursor_def Let_def)

text \<open>Reading a whole block of an image that is a list of equally long blocks.\<close>

lemma drop_concat_blocks:
  "\<forall>b \<in> set blks. length b = n \<Longrightarrow> i \<le> length blks \<Longrightarrow>
     drop (i * n) (concat blks) = concat (drop i blks)"
proof (induction blks arbitrary: i)
  case Nil
  then show ?case by simp
next
  case (Cons b blks)
  then show ?case by (cases i) auto
qed

lemma length_concat_blocks: "\<forall>b \<in> set blks. length b = n \<Longrightarrow> length (concat blks) = length blks * n"
  by (induction blks) auto

lemma nth_concat_blocks:
  "\<forall>b \<in> set blks. length b = n \<Longrightarrow> q < length blks \<Longrightarrow> r < n \<Longrightarrow> concat blks ! (q * n + r) = blks ! q ! r"
proof (induction blks arbitrary: q)
  case (Cons b blks)
  then show ?case by (cases q) (auto simp: nth_append)
qed simp

lemma cursor_block:
  assumes "\<forall>b \<in> set blks. length b = n" and "i < length blks" and "unat off = i * n"
  shows "cursor (concat blks) off n = Inr (blks ! i)"
proof -
  have "drop i blks = blks ! i # drop (Suc i) blks"
    using assms(2) by (rule Cons_nth_drop_Suc [symmetric])
  moreover have "length (blks ! i) = n" using assms(1,2) by simp
  ultimately show ?thesis
    using assms by (simp add: cursor_def drop_concat_blocks)
qed

end
