(* ===== verification/Bytes.thy ===== *)
theory Bytes
  imports Prelude
begin

text \<open>
  \<^verbatim>\<open>src/src/bytes.rs\<close>: bounds-checked little-endian reads over untrusted buffers. An out-of-range
  read yields zero. The lemmas give the round trip with the little-endian encoding, the zero
  default, and how a read sees the parts of a concatenation, which the parsers build on.
\<close>

section \<open>Little-endian values\<close>

primrec le_nat :: "bytes \<Rightarrow> nat" where
  "le_nat [] = 0"
| "le_nat (b # bs) = unat b + 256 * le_nat bs"

text \<open>\<^verbatim>\<open>uN::from_le_bytes\<close> and \<^verbatim>\<open>uN::to_le_bytes\<close> of the standard library.\<close>

definition from_le_bytes :: "bytes \<Rightarrow> 'a::len word" where
  "from_le_bytes bs = word_of_nat (le_nat bs)"

primrec le_digits :: "nat \<Rightarrow> nat \<Rightarrow> bytes" where
  "le_digits 0 n = []"
| "le_digits (Suc k) n = word_of_nat n # le_digits k (n div 256)"

definition to_le_bytes :: "'a::len word \<Rightarrow> bytes" where
  "to_le_bytes w = le_digits (LENGTH('a) div 8) (unat w)"

lemma length_le_digits [simp]: "length (le_digits k n) = k"
  by (induction k arbitrary: n) auto

lemma length_to_le_bytes [simp]: "length (to_le_bytes (w :: 'a::len word)) = LENGTH('a) div 8"
  by (simp add: to_le_bytes_def)

lemma le_nat_bound: "le_nat bs < 256 ^ length bs"
proof (induction bs)
  case Nil
  then show ?case by simp
next
  case (Cons b bs)
  have "unat b < 256" using unsigned_less [of b] by simp
  with Cons show ?case by simp
qed

lemma le_nat_digits: "le_nat (le_digits k n) = n mod 256 ^ k"
proof (induction k arbitrary: n)
  case 0
  then show ?case by simp
next
  case (Suc k)
  have "n mod 256 + 256 * (n div 256 mod 256 ^ k) = n mod (256 * 256 ^ k)"
    by (simp add: mod_mult2_eq)
  then show ?case by (simp add: Suc unat_of_nat)
qed

lemma le_nat_replicate_0 [simp]: "le_nat (replicate n 0) = 0"
  by (induction n) auto

lemma from_le_bytes_replicate_0 [simp]: "from_le_bytes (replicate n 0) = 0"
  by (simp add: from_le_bytes_def)

lemma unat_from_le_bytes:
  "8 * length bs \<le> LENGTH('a) \<Longrightarrow> unat (from_le_bytes bs :: 'a::len word) = le_nat bs"
proof -
  assume le: "8 * length bs \<le> LENGTH('a)"
  have "le_nat bs < 256 ^ length bs" by (rule le_nat_bound)
  also have "(256::nat) ^ length bs = 2 ^ (8 * length bs)" by (simp add: power_mult)
  also have "(2::nat) ^ (8 * length bs) \<le> 2 ^ LENGTH('a)" using le by simp
  finally show ?thesis by (simp add: from_le_bytes_def unat_of_nat)
qed

lemma power_numeral_even_256: "(2::nat) ^ 8 = 256"
  by simp

lemma from_to_le_bytes: "8 dvd LENGTH('a) \<Longrightarrow> from_le_bytes (to_le_bytes w) = (w :: 'a::len word)"
proof -
  assume "8 dvd LENGTH('a)"
  then have "LENGTH('a) = 8 * (LENGTH('a) div 8)" by simp
  then have "(2::nat) ^ LENGTH('a) = 256 ^ (LENGTH('a) div 8)"
    by (metis power_mult power_numeral_even_256)
  then have "unat w mod 256 ^ (LENGTH('a) div 8) = unat w"
    by (metis mod_less unsigned_less)
  then show ?thesis
    by (simp add: from_le_bytes_def to_le_bytes_def le_nat_digits)
qed


section \<open>The readers\<close>

definition le_u16 :: "bytes \<Rightarrow> usize \<Rightarrow> u16" where
  "le_u16 data offset =
     from_le_bytes (case get_range data offset (offset + 2) of Some s \<Rightarrow> s | None \<Rightarrow> replicate 2 0)"

definition le_u32 :: "bytes \<Rightarrow> usize \<Rightarrow> u32" where
  "le_u32 data offset =
     from_le_bytes (case get_range data offset (offset + 4) of Some s \<Rightarrow> s | None \<Rightarrow> replicate 4 0)"

definition le_u64 :: "bytes \<Rightarrow> usize \<Rightarrow> u64" where
  "le_u64 data offset =
     from_le_bytes (case get_range data offset (offset + 8) of Some s \<Rightarrow> s | None \<Rightarrow> replicate 8 0)"

definition arr :: "nat \<Rightarrow> bytes \<Rightarrow> usize \<Rightarrow> bytes" where
  "arr n data offset =
     (case get_range data offset (offset + n) of Some s \<Rightarrow> s | None \<Rightarrow> replicate n 0)"

lemma le_as_arr:
  "le_u16 d off = from_le_bytes (arr 2 d off)"
  "le_u32 d off = from_le_bytes (arr 4 d off)"
  "le_u64 d off = from_le_bytes (arr 8 d off)"
  by (simp_all add: le_u16_def le_u32_def le_u64_def arr_def)

lemma length_arr [simp]: "length (arr n d off) = n"
  by (auto simp: arr_def dest: get_range_length split: option.splits)

lemma arr_out_of_range: "length d < off + n \<Longrightarrow> arr n d off = replicate n 0"
  by (simp add: arr_def get_range_def)

lemma arr_append_right [slice_simps]:
  "length xs \<le> off \<Longrightarrow> arr n (xs @ ys) off = arr n ys (off - length xs)"
  by (simp add: arr_def get_range_append_right)

lemma arr_append_left [slice_simps]:
  "off + n \<le> length xs \<Longrightarrow> arr n (xs @ ys) off = arr n xs off"
  by (simp add: arr_def get_range_append_left)

lemma arr_here: "length xs = n \<Longrightarrow> arr n (xs @ ys) 0 = xs"
  by (simp add: arr_def get_range_def)

lemma arr_replicate_0 [slice_simps]: "arr n (replicate m 0) off = replicate n 0"
  by (auto simp: arr_def get_range_def min_def)

lemma arr_drop_cong:
  "n \<le> off \<Longrightarrow> length xs = length ys \<Longrightarrow> drop n xs = drop n ys \<Longrightarrow> arr k xs off = arr k ys off"
  by (simp only: arr_def get_range_drop_cong [of n off xs ys])

text \<open>The same facts, read as integers.\<close>

lemma le_append_right [slice_simps]:
  "length xs \<le> off \<Longrightarrow> le_u16 (xs @ ys) off = le_u16 ys (off - length xs)"
  "length xs \<le> off \<Longrightarrow> le_u32 (xs @ ys) off = le_u32 ys (off - length xs)"
  "length xs \<le> off \<Longrightarrow> le_u64 (xs @ ys) off = le_u64 ys (off - length xs)"
  by (simp_all add: le_as_arr arr_append_right)

lemma le_append_left [slice_simps]:
  "off + 2 \<le> length xs \<Longrightarrow> le_u16 (xs @ ys) off = le_u16 xs off"
  "off + 4 \<le> length xs \<Longrightarrow> le_u32 (xs @ ys) off = le_u32 xs off"
  "off + 8 \<le> length xs \<Longrightarrow> le_u64 (xs @ ys) off = le_u64 xs off"
  by (simp_all add: le_as_arr arr_append_left)

lemma le_out_of_range:
  "length d < off + 2 \<Longrightarrow> le_u16 d off = 0"
  "length d < off + 4 \<Longrightarrow> le_u32 d off = 0"
  "length d < off + 8 \<Longrightarrow> le_u64 d off = 0"
  by (simp_all add: le_as_arr arr_out_of_range)

lemma le_replicate_0 [slice_simps, simp]:
  "le_u16 (replicate m 0) off = 0"
  "le_u32 (replicate m 0) off = 0"
  "le_u64 (replicate m 0) off = 0"
  by (simp_all add: le_as_arr arr_replicate_0)

lemma le_drop_cong:
  "n \<le> off \<Longrightarrow> length xs = length ys \<Longrightarrow> drop n xs = drop n ys \<Longrightarrow> le_u16 xs off = le_u16 ys off"
  "n \<le> off \<Longrightarrow> length xs = length ys \<Longrightarrow> drop n xs = drop n ys \<Longrightarrow> le_u32 xs off = le_u32 ys off"
  "n \<le> off \<Longrightarrow> length xs = length ys \<Longrightarrow> drop n xs = drop n ys \<Longrightarrow> le_u64 xs off = le_u64 ys off"
  by (simp_all only: le_as_arr arr_drop_cong [of n off xs ys])

lemma le_to_le_bytes [slice_simps]:
  "le_u16 (to_le_bytes (w16 :: u16) @ ys) 0 = w16"
  "le_u32 (to_le_bytes (w32 :: u32) @ ys) 0 = w32"
  "le_u64 (to_le_bytes (w64 :: u64) @ ys) 0 = w64"
  by (simp_all add: le_as_arr arr_here from_to_le_bytes)

lemmas le_to_le_bytes_alone [slice_simps] = le_to_le_bytes [where ys = "[]", unfolded append_Nil2]

end
