(* ===== verification/Obj_Phys.thy ===== *)
theory Obj_Phys
  imports Bytes
begin

text \<open>
  \<^verbatim>\<open>src/src/object.rs\<close>: the object header \<^verbatim>\<open>obj_phys_t\<close> and the Fletcher-64 object checksum. The
  lemmas relate the 64-bit accumulator loop to two sums of natural numbers (so no step of it wraps),
  give the closed form, the defining identity of the two check words, and what the checksum detects.
\<close>

section \<open>Object header\<close>

definition OBJ_PHYS_LEN :: usize where "OBJ_PHYS_LEN = 32"

record ObjPhys =
  o_cksum :: u64
  o_oid :: u64
  o_xid :: u64
  obj_type_raw :: u32
  o_subtype :: u32

definition ObjPhys_parse :: "bytes \<Rightarrow> ObjPhys option" where
  "ObjPhys_parse block =
     (if length block < OBJ_PHYS_LEN then None
      else Some \<lparr>o_cksum = le_u64 block 0, o_oid = le_u64 block 8, o_xid = le_u64 block 16,
                 obj_type_raw = le_u32 block 24, o_subtype = le_u32 block 28\<rparr>)"

definition obj_type :: "ObjPhys \<Rightarrow> u16" where
  "obj_type h = ucast (obj_type_raw h AND 0x0000ffff)"

definition fletcher64_stored :: "bytes \<Rightarrow> u64" where
  "fletcher64_stored block = le_u64 block 0"

section \<open>Fletcher-64\<close>

definition MOD :: u64 where "MOD = 0xffffffff"

text \<open>\<^verbatim>\<open>block.chunks_exact(4)\<close>: whole words only, a trailing partial word is ignored.\<close>

fun chunks_exact4 :: "bytes \<Rightarrow> bytes list" where
  "chunks_exact4 (a # b # c # d # rest) = [a, b, c, d] # chunks_exact4 rest"
| "chunks_exact4 _ = []"

definition fletcher_word :: "nat \<Rightarrow> bytes \<Rightarrow> u64" where
  "fletcher_word i word = (if i < 2 then 0 else ucast (from_le_bytes word :: u32))"

fun fletcher_loop :: "nat \<Rightarrow> bytes list \<Rightarrow> u64 \<times> u64 \<Rightarrow> u64 \<times> u64" where
  "fletcher_loop i [] s = s"
| "fletcher_loop i (word # ws) (sum_lo, sum_hi) =
     (let sum_lo' = (sum_lo + fletcher_word i word) mod MOD;
          sum_hi' = (sum_hi + sum_lo') mod MOD
      in fletcher_loop (Suc i) ws (sum_lo', sum_hi'))"

definition fletcher64_checksum :: "bytes \<Rightarrow> u64" where
  "fletcher64_checksum block =
     (let (sum_lo, sum_hi) = fletcher_loop 0 (chunks_exact4 block) (0, 0);
          check_lo = MOD - (sum_lo + sum_hi) mod MOD;
          check_hi = MOD - (sum_lo + check_lo) mod MOD
      in push_bit 32 check_hi OR check_lo)"

text \<open>The checksum test the parsers run before they trust a block.\<close>

abbreviation cksum_ok :: "bytes \<Rightarrow> bool" where
  "cksum_ok block \<equiv> fletcher64_stored block = fletcher64_checksum block"

section \<open>The two sums\<close>

text \<open>Reference: the words as natural numbers, their sum, and the sum of their running sums.\<close>

definition fletcher_words :: "bytes \<Rightarrow> nat list" where
  "fletcher_words block =
     map (\<lambda>(i, w). unat (fletcher_word i w)) (enumerate 0 (chunks_exact4 block))"

fun running :: "nat list \<Rightarrow> nat \<times> nat \<Rightarrow> nat \<times> nat" where
  "running [] s = s"
| "running (v # vs) (l, h) = running vs (l + v, h + (l + v))"

abbreviation (input) FMOD :: nat where "FMOD \<equiv> 0xffffffff"

definition sum1 :: "nat list \<Rightarrow> nat" where "sum1 vs = fst (running vs (0, 0))"
definition sum2 :: "nat list \<Rightarrow> nat" where "sum2 vs = snd (running vs (0, 0))"

definition check_lo_ref :: "nat list \<Rightarrow> nat" where
  "check_lo_ref vs = FMOD - (sum1 vs + sum2 vs) mod FMOD"

definition check_hi_ref :: "nat list \<Rightarrow> nat" where
  "check_hi_ref vs = FMOD - (sum1 vs + check_lo_ref vs) mod FMOD"

lemma running_append: "running (us @ vs) s = running vs (running us s)"
  by (induction us s rule: running.induct) auto

lemma running_closed:
  "running vs (l, h) = (l + sum_list vs, h + length vs * l + snd (running vs (0, 0)))"
proof (induction vs arbitrary: l h)
  case Nil
  then show ?case by simp
next
  case (Cons v vs)
  show ?case using Cons [of "l + v" "h + (l + v)"] Cons [of v v] by (simp add: algebra_simps)
qed

lemma fst_running: "fst (running vs (l, h)) = l + sum_list vs"
  by (subst running_closed) simp

lemma sum1_sum_list: "sum1 vs = sum_list vs"
  by (simp add: sum1_def fst_running)

lemma running_weighted:
  "snd (running vs (0, 0)) = (\<Sum>i<length vs. (length vs - i) * vs ! i)"
proof (induction vs)
  case Nil
  then show ?case by simp
next
  case (Cons v vs)
  have "snd (running (v # vs) (0, 0)) = v + length vs * v + snd (running vs (0, 0))"
    using running_closed [of vs v v] by simp
  with Cons show ?case
    by (simp add: sum.lessThan_Suc_shift algebra_simps del: sum.lessThan_Suc running.simps)
qed

lemma running_mod_cong:
  assumes "l mod m = l' mod m" and "h mod m = h' mod m"
  shows "fst (running vs (l, h)) mod m = fst (running vs (l', h')) mod m
       \<and> snd (running vs (l, h)) mod m = snd (running vs (l', h')) mod m"
  using assms
proof (induction vs arbitrary: l h l' h')
  case Nil
  then show ?case by simp
next
  case (Cons v vs)
  then have l: "(l + v) mod m = (l' + v) mod m" by (metis mod_add_cong)
  with Cons.prems have "(h + (l + v)) mod m = (h' + (l' + v)) mod m" by (metis mod_add_cong)
  from Cons.IH [OF l this] show ?case by simp
qed

lemma unat_MOD: "unat MOD = FMOD"
  by (simp add: MOD_def)

lemma unat_fletcher_word: "unat (fletcher_word i w) \<le> FMOD"
proof -
  have "unat (ucast (from_le_bytes w :: u32) :: u64) = unat (from_le_bytes w :: u32)"
    by (simp add: unsigned_ucast_eq take_bit_nat_eq_self unsigned_less
        order.strict_trans2 [OF unsigned_less])
  moreover have "unat (from_le_bytes w :: u32) < 2 ^ 32"
    using unsigned_less [of "from_le_bytes w :: u32"] by simp
  ultimately show ?thesis by (simp add: fletcher_word_def)
qed

text \<open>One step of the loop does not wrap: the operands stay far below \<open>2 ^ 64\<close>.\<close>

lemma fletcher_step_exact:
  fixes lo v :: u64
  assumes "unat lo \<le> FMOD" and "unat v \<le> FMOD"
  shows "unat ((lo + v) mod MOD) = (unat lo + unat v) mod FMOD"
proof -
  have "unat (lo + v) = unat lo + unat v"
    using assms by (simp add: unat_word_ariths)
  then show ?thesis by (simp add: unat_mod_distrib unat_MOD)
qed

lemma fletcher_loop_running:
  assumes "unat lo \<le> FMOD" and "unat hi \<le> FMOD"
    and "fletcher_loop i ws (lo, hi) = (lo', hi')"
  shows "unat lo' mod FMOD = fst (running (map (\<lambda>(i, w). unat (fletcher_word i w)) (enumerate i ws))
           (unat lo, unat hi)) mod FMOD
       \<and> unat hi' mod FMOD = snd (running (map (\<lambda>(i, w). unat (fletcher_word i w)) (enumerate i ws))
           (unat lo, unat hi)) mod FMOD
       \<and> unat lo' \<le> FMOD \<and> unat hi' \<le> FMOD"
  using assms
proof (induction ws arbitrary: i lo hi)
  case Nil
  then show ?case by simp
next
  case (Cons w ws)
  define v where "v = unat (fletcher_word i w)"
  define lo1 where "lo1 = (lo + fletcher_word i w) mod MOD"
  define hi1 where "hi1 = (hi + lo1) mod MOD"
  have v: "v \<le> FMOD" unfolding v_def by (rule unat_fletcher_word)
  have lo1: "unat lo1 = (unat lo + v) mod FMOD"
    unfolding lo1_def v_def using Cons.prems(1) unat_fletcher_word by (rule fletcher_step_exact)
  then have lo1_le: "unat lo1 \<le> FMOD" by (simp add: order_less_imp_le)
  have hi1: "unat hi1 = (unat hi + unat lo1) mod FMOD"
    unfolding hi1_def using Cons.prems(2) lo1_le by (rule fletcher_step_exact)
  then have hi1_le: "unat hi1 \<le> FMOD" by (simp add: order_less_imp_le)
  have run: "fletcher_loop (Suc i) ws (lo1, hi1) = (lo', hi')"
    using Cons.prems(3) by (simp add: lo1_def hi1_def Let_def)
  let ?vs = "map (\<lambda>(i, w). unat (fletcher_word i w)) (enumerate (Suc i) ws)"
  have "fst (running ?vs (unat lo1, unat hi1)) mod FMOD =
      fst (running ?vs (unat lo + v, unat hi + (unat lo + v))) mod FMOD
    \<and> snd (running ?vs (unat lo1, unat hi1)) mod FMOD =
      snd (running ?vs (unat lo + v, unat hi + (unat lo + v))) mod FMOD"
    by (rule running_mod_cong) (simp_all add: hi1 lo1 mod_simps)
  with Cons.IH [OF lo1_le hi1_le run] show ?case by (simp add: v_def)
qed

lemma unat_combine:
  fixes a b :: u64
  assumes "unat a < 2 ^ 32" and "unat b < 2 ^ 32"
  shows "unat (push_bit 32 a OR b) = unat a * 2 ^ 32 + unat b"
proof -
  have b: "b = take_bit 32 b"
    using assms(2) by (metis take_bit_nat_eq_self unsigned_take_bit_eq word_unat_eq_iff)
  have disj: "push_bit 32 a AND b = 0"
    by (subst b, rule bit_eqI) (auto simp: bit_simps)
  have "unat (push_bit 32 a) = unat a * 2 ^ 32"
    using assms(1) by (simp add: push_bit_eq_mult unat_word_ariths)
  moreover have "unat (push_bit 32 a + b) = unat (push_bit 32 a) + unat b"
    using assms calculation by (simp add: unat_word_ariths)
  ultimately show ?thesis
    using disj by (simp add: disjunctive_add_eq_or)
qed

lemma check_ref_bounds:
  "1 \<le> check_lo_ref vs" "check_lo_ref vs \<le> FMOD" "1 \<le> check_hi_ref vs" "check_hi_ref vs \<le> FMOD"
  using mod_less_divisor [of FMOD "sum1 vs + sum2 vs"]
    mod_less_divisor [of FMOD "sum1 vs + check_lo_ref vs"]
  by (simp_all add: check_lo_ref_def check_hi_ref_def)

lemma unat_check:
  assumes "unat x mod FMOD = n mod FMOD" and "unat x < 2 ^ 63"
  shows "unat (MOD - x mod MOD) = FMOD - n mod FMOD"
proof -
  have x: "unat (x mod MOD) = n mod FMOD"
    using assms(1) by (simp add: unat_mod_distrib unat_MOD)
  then have "x mod MOD \<le> MOD"
    by (simp add: word_le_nat_alt unat_MOD order_less_imp_le)
  then have "unat (MOD - x mod MOD) = unat MOD - unat (x mod MOD)"
    by (rule unat_sub)
  then show ?thesis using x by (simp add: unat_MOD)
qed

lemma fletcher64_closed:
  "unat (fletcher64_checksum block) =
     check_hi_ref (fletcher_words block) * 2 ^ 32 + check_lo_ref (fletcher_words block)"
proof -
  let ?vs = "fletcher_words block"
  obtain lo hi where lh: "fletcher_loop 0 (chunks_exact4 block) (0, 0) = (lo, hi)"
    by fastforce
  have r: "unat lo mod FMOD = sum1 ?vs mod FMOD" "unat hi mod FMOD = sum2 ?vs mod FMOD"
    "unat lo \<le> FMOD" "unat hi \<le> FMOD"
    using fletcher_loop_running [OF _ _ lh]
    by (simp_all add: fletcher_words_def sum1_def sum2_def)
  define clo where "clo = MOD - (lo + hi) mod MOD"
  define chi where "chi = MOD - (lo + clo) mod MOD"
  have "unat (lo + hi) = unat lo + unat hi"
    using r(3,4) by (simp add: unat_word_ariths)
  then have clo: "unat clo = check_lo_ref ?vs"
    unfolding clo_def check_lo_ref_def using r by (intro unat_check) (auto intro: mod_add_cong)
  have clo_le: "unat clo \<le> FMOD" using check_ref_bounds(2) clo by simp
  have "unat (lo + clo) = unat lo + unat clo"
    using r(3) clo_le by (simp add: unat_word_ariths)
  then have chi: "unat chi = check_hi_ref ?vs"
    unfolding chi_def check_hi_ref_def using r clo clo_le
    by (intro unat_check) (auto intro: mod_add_cong)
  have "fletcher64_checksum block = push_bit 32 chi OR clo"
    by (simp add: fletcher64_checksum_def lh clo_def chi_def Let_def)
  then show ?thesis
    using unat_combine [of chi clo] check_ref_bounds(4) [of ?vs] clo_le chi clo by simp
qed

text \<open>So a block whose checksum field was never written (an all-zero block) is not valid.\<close>

lemma unstamped_invalid: "fletcher64_stored b = 0 \<Longrightarrow> \<not> cksum_ok b"
  using fletcher64_closed [of b] check_ref_bounds(1) [of "fletcher_words b"] by fastforce

section \<open>What the check words are\<close>

text \<open>
  The identity that defines a Fletcher checksum: over the data followed by the two check words,
  both running sums vanish.
\<close>

lemma check_words_cancel:
  "sum1 (vs @ [check_lo_ref vs, check_hi_ref vs]) mod FMOD = 0"
  "sum2 (vs @ [check_lo_ref vs, check_hi_ref vs]) mod FMOD = 0"
proof -
  let ?lo = "check_lo_ref vs" and ?hi = "check_hi_ref vs"
  have cancel: "(n + (FMOD - n mod FMOD)) mod FMOD = 0" for n :: nat
  proof -
    have "n mod FMOD \<le> FMOD" by (simp add: order_less_imp_le)
    then have "(n mod FMOD + (FMOD - n mod FMOD)) mod FMOD = 0" by simp
    then show ?thesis by (metis mod_add_left_eq)
  qed
  have s1: "sum1 (vs @ [?lo, ?hi]) = (sum1 vs + ?lo) + ?hi"
    by (simp add: sum1_sum_list)
  show one: "sum1 (vs @ [?lo, ?hi]) mod FMOD = 0"
    by (subst s1, subst check_hi_ref_def, rule cancel)
  have "sum2 (vs @ [?lo, ?hi]) = (sum1 vs + sum2 vs + ?lo) + sum1 (vs @ [?lo, ?hi])"
    by (cases "running vs (0, 0)")
      (simp add: sum2_def running_append sum1_def)
  moreover have "(sum1 vs + sum2 vs + ?lo) mod FMOD = 0"
    by (subst check_lo_ref_def, rule cancel)
  ultimately show "sum2 (vs @ [?lo, ?hi]) mod FMOD = 0"
    using one by (metis add.right_neutral mod_add_eq mod_0)
qed

section \<open>Dependence on the block\<close>

lemma chunks_short_elim: "Suc n = 4 * k \<Longrightarrow> n < 3 \<Longrightarrow> P"
  by presburger

lemma chunks_exact4_append:
  "length xs = 4 * k \<Longrightarrow> chunks_exact4 (xs @ ys) = chunks_exact4 xs @ chunks_exact4 ys"
proof (induction xs arbitrary: k rule: chunks_exact4.induct)
  case (1 a b c d rest)
  then have "length rest = 4 * (k - 1)" by simp
  with 1 show ?case by simp
qed (auto elim: chunks_short_elim)

lemma length_chunks_exact4: "length (chunks_exact4 xs) = length xs div 4"
  by (induction xs rule: chunks_exact4.induct) auto

lemma chunks_exact4_single: "length w = 4 \<Longrightarrow> chunks_exact4 w = [w]"
  by (auto simp: numeral_eq_Suc length_Suc_conv)

lemma fletcher_words_append:
  assumes "length xs = 4 * k"
  shows "fletcher_words (xs @ ys) = fletcher_words xs @
    map (\<lambda>(i, w). unat (fletcher_word i w)) (enumerate k (chunks_exact4 ys))"
  using assms
  by (simp add: fletcher_words_def chunks_exact4_append enumerate_append_eq length_chunks_exact4)

lemma fletcher_words_cksum: "length h = 8 \<Longrightarrow> fletcher_words h = [0, 0]"
  by (auto simp: numeral_eq_Suc length_Suc_conv fletcher_words_def fletcher_word_def)

text \<open>The stored checksum field is excluded from its own checksum.\<close>

lemma fletcher64_ignores_cksum:
  assumes "length h = 8" and "length h' = 8"
  shows "fletcher64_checksum (h @ t) = fletcher64_checksum (h' @ t)"
proof -
  have "fletcher_words (h @ t) = fletcher_words (h' @ t)"
    using assms by (simp add: fletcher_words_append [where k = 2] fletcher_words_cksum)
  then show ?thesis by (metis fletcher64_closed word_unat_eq_iff)
qed

section \<open>Detection\<close>

lemma le_nat_inj: "length a = length b \<Longrightarrow> le_nat a = le_nat b \<Longrightarrow> a = b"
proof (induction a b rule: list_induct2)
  case Nil
  then show ?case by simp
next
  case (Cons x xs y ys)
  have "unat x < 256" "unat y < 256" using unsigned_less [of x] unsigned_less [of y] by simp_all
  with Cons.prems have "unat x = unat y \<and> le_nat xs = le_nat ys"
    using div_mod_inj [of "unat x" 256 "le_nat xs" "unat y" "le_nat ys"] by simp
  with Cons.IH show ?case by (simp add: word_unat_eq_iff)
qed

text \<open>Equal checksums have equal first sums: the check words determine both sums modulo \<open>FMOD\<close>.\<close>

lemma fletcher64_eq_sum1:
  assumes "fletcher64_checksum b = fletcher64_checksum b'"
  shows "sum1 (fletcher_words b) mod FMOD = sum1 (fletcher_words b') mod FMOD"
proof -
  let ?v = "fletcher_words b" and ?v' = "fletcher_words b'"
  have eq: "check_hi_ref ?v * 2 ^ 32 + check_lo_ref ?v = check_hi_ref ?v' * 2 ^ 32 + check_lo_ref ?v'"
    using assms by (metis fletcher64_closed)
  have lo: "check_lo_ref ?v = check_lo_ref ?v'" and hi: "check_hi_ref ?v = check_hi_ref ?v'"
    using div_mod_inj [of "check_lo_ref ?v" "2 ^ 32" "check_hi_ref ?v" "check_lo_ref ?v'"
        "check_hi_ref ?v'"] eq check_ref_bounds [of ?v] check_ref_bounds [of ?v']
    by (simp_all add: mult.commute)
  have "(sum1 ?v + check_lo_ref ?v) mod FMOD = (sum1 ?v' + check_lo_ref ?v) mod FMOD"
    using hi unfolding check_hi_ref_def lo by (rule minus_mod_inj) simp
  then show ?thesis by (rule mod_add_rcancel)
qed

text \<open>
  A change of one aligned word after the checksum field always changes the checksum, but for the
  two encodings of zero modulo \<open>FMOD\<close> (all bits clear, all bits set).
\<close>

lemma fletcher64_detects:
  assumes "length pre = 4 * k" and "2 \<le> k" and "length w = 4" and "length w' = 4" and "w \<noteq> w'"
    and "{le_nat w, le_nat w'} \<noteq> {0, FMOD}"
  shows "fletcher64_checksum (pre @ w @ post) \<noteq> fletcher64_checksum (pre @ w' @ post)"
proof
  assume "fletcher64_checksum (pre @ w @ post) = fletcher64_checksum (pre @ w' @ post)"
  then have "sum1 (fletcher_words (pre @ w @ post)) mod FMOD = sum1 (fletcher_words (pre @ w' @ post)) mod FMOD"
    by (rule fletcher64_eq_sum1)
  moreover have val: "unat (fletcher_word k u) = le_nat u" if "length u = 4" for u
    using that assms(2) le_nat_bound [of u]
    by (simp add: fletcher_word_def unsigned_ucast_eq unat_from_le_bytes take_bit_nat_eq_self)
  define C where "C = sum_list (fletcher_words pre) + sum_list (map (\<lambda>(i, w). unat (fletcher_word i w))
      (enumerate (Suc k) (chunks_exact4 post)))"
  have "sum1 (fletcher_words (pre @ u @ post)) = le_nat u + C" if "length u = 4" for u
    using that assms(1) val [OF that]
    by (simp add: fletcher_words_append chunks_exact4_append [where k = 1] chunks_exact4_single
        sum1_sum_list C_def)
  ultimately have "(le_nat w + C) mod FMOD = (le_nat w' + C) mod FMOD"
    using assms(3,4) by simp
  then have "le_nat w mod FMOD = le_nat w' mod FMOD"
    by (rule mod_add_rcancel)
  moreover have "le_nat w \<le> FMOD" "le_nat w' \<le> FMOD"
    using le_nat_bound [of w] le_nat_bound [of w'] assms(3,4) by simp_all
  moreover have "le_nat w \<noteq> le_nat w'" using assms(3-5) le_nat_inj by metis
  ultimately have "{le_nat w, le_nat w'} = {0, FMOD}" by (rule mod_eq_range)
  with assms(6) show False ..
qed

lemma cksum_word_change:
  assumes "cksum_ok (pre @ w @ post)" and "length pre = 4 * k" and "2 \<le> k"
    and "length w = 4" and "length w' = 4" and "w \<noteq> w'" and "{le_nat w, le_nat w'} \<noteq> {0, FMOD}"
  shows "\<not> cksum_ok (pre @ w' @ post)"
proof -
  have "8 \<le> length pre" using assms(2,3) by simp
  then have "fletcher64_stored (pre @ w @ post) = fletcher64_stored (pre @ w' @ post)"
    by (simp add: fletcher64_stored_def slice_simps)
  then show ?thesis using assms(1) fletcher64_detects [OF assms(2-7), of post] by simp
qed

text \<open>Stamping a block with its checksum (\<^verbatim>\<open>seal\<close> of the crate's tests).\<close>

definition seal :: "bytes \<Rightarrow> bytes" where
  "seal block = to_le_bytes (fletcher64_checksum block) @ drop 8 block"

lemma length_seal [simp]: "8 \<le> length b \<Longrightarrow> length (seal b) = length b"
  by (simp add: seal_def)

lemma drop_seal: "8 \<le> n \<Longrightarrow> drop n (seal b) = drop n b"
  by (simp add: seal_def)

lemma seal_cksum_ok: "8 \<le> length b \<Longrightarrow> cksum_ok (seal b)"
proof -
  assume len: "8 \<le> length b"
  have "fletcher64_checksum (seal b) = fletcher64_checksum (take 8 b @ drop 8 b)"
    unfolding seal_def using len by (intro fletcher64_ignores_cksum) simp_all
  moreover have "fletcher64_stored (seal b) = fletcher64_checksum b"
    by (simp add: fletcher64_stored_def seal_def le_to_le_bytes)
  ultimately show ?thesis by simp
qed

text \<open>Every field after the checksum is untouched by sealing.\<close>

lemma le_seal:
  assumes "8 \<le> length b" and "8 \<le> off"
  shows "le_u16 (seal b) off = le_u16 b off" and "le_u32 (seal b) off = le_u32 b off"
    and "le_u64 (seal b) off = le_u64 b off" and "arr n (seal b) off = arr n b off"
proof -
  have "drop 8 (seal b) = drop 8 b" "length (seal b) = length b"
    using assms(1) by (simp_all add: drop_seal)
  then show "le_u16 (seal b) off = le_u16 b off" "le_u32 (seal b) off = le_u32 b off"
    "le_u64 (seal b) off = le_u64 b off" "arr n (seal b) off = arr n b off"
    using assms(2) le_drop_cong [of 8 off "seal b" b] arr_drop_cong [of 8 off "seal b" b n] by simp_all
qed

section \<open>Properties\<close>

text \<open>
  C21 (safety): a block whose stored checksum is right stops being valid when any single 32-bit word
  outside the checksum field is replaced by a different one, except for the swap of the two
  representations \<open>0\<close> and \<open>2^32 - 1\<close> of zero that the one's-complement sum cannot tell apart.
\<close>

theorem fletcher64_detects_word_change:
  assumes "cksum_ok (pre @ w @ post)" and "length pre = 4 * k" and "2 \<le> k"
    and "length w = 4" and "length w' = 4" and "w \<noteq> w'" and "{le_nat w, le_nat w'} \<noteq> {0, FMOD}"
  shows "\<not> cksum_ok (pre @ w' @ post)"
  using assms by (rule cksum_word_change)

theorem fletcher64_detects_word_change_witness:
  "\<not> cksum_ok (to_le_bytes (fletcher64_checksum (replicate 8 0 @ [1, 0, 0, 0])) @ [1, 0, 0, 128] @ [])"
proof (rule fletcher64_detects_word_change [where k = 2])
  show "cksum_ok (to_le_bytes (fletcher64_checksum (replicate 8 0 @ [1, 0, 0, 0])) @ [1, 0, 0, 0] @ [])"
    using seal_cksum_ok [of "replicate 8 0 @ [1, 0, 0, 0]"] by (simp add: seal_def)
qed (simp_all add: insert_commute doubleton_eq_iff)

text \<open>
  C32 (equivalence): the running, modulo-reduced loop of \<^verbatim>\<open>fletcher64_checksum\<close> computes the check
  words that the definition of the Fletcher checksum asks for: appending its two halves to the
  words of the block (the checksum field read as zero) makes both position-free and
  position-weighted sums vanish modulo \<open>2^32 - 1\<close>, and neither half is ever zero.
\<close>

theorem fletcher64_check_words:
  "let c = unat (fletcher64_checksum block); ws = fletcher_words block @ [c mod 2 ^ 32, c div 2 ^ 32] in
     sum_list ws mod FMOD = 0 \<and>
     (\<Sum>i<length ws. (length ws - i) * ws ! i) mod FMOD = 0 \<and>
     c mod 2 ^ 32 \<in> {1..FMOD} \<and> c div 2 ^ 32 \<in> {1..FMOD}"
proof -
  let ?vs = "fletcher_words block"
  have c: "unat (fletcher64_checksum block) = check_hi_ref ?vs * 2 ^ 32 + check_lo_ref ?vs"
    by (rule fletcher64_closed)
  have "check_lo_ref ?vs < 2 ^ 32" using check_ref_bounds(2) [of ?vs] by simp
  then have halves: "unat (fletcher64_checksum block) mod 2 ^ 32 = check_lo_ref ?vs"
    "unat (fletcher64_checksum block) div 2 ^ 32 = check_hi_ref ?vs"
    unfolding c by simp_all
  show ?thesis
    unfolding Let_def halves
    using check_words_cancel [of ?vs] check_ref_bounds [of ?vs]
    unfolding sum1_sum_list sum2_def running_weighted by simp
qed

end
