(* ===== verification/Container.thy ===== *)
theory Container
  imports Obj_Phys
begin

text \<open>
  \<^verbatim>\<open>src/src/container.rs\<close> and \<^verbatim>\<open>src/src/fusion.rs\<close>: the container superblock
  \<^verbatim>\<open>nx_superblock_t\<close>, its parser with the magic gate and the checksum gate, and the Fusion test.
  The lemmas give the outcome of the parser on every branch.
\<close>

definition NX_MAGIC :: u32 where "NX_MAGIC = 0x4253584E"
definition NX_INCOMPAT_FUSION :: u64 where "NX_INCOMPAT_FUSION = 0x100"
definition NX_MINIMUM_BLOCK_SIZE :: u32 where "NX_MINIMUM_BLOCK_SIZE = 4096"
definition NX_DEFAULT_BLOCK_SIZE :: u32 where "NX_DEFAULT_BLOCK_SIZE = 4096"
definition NX_MAXIMUM_BLOCK_SIZE :: u32 where "NX_MAXIMUM_BLOCK_SIZE = 65536"
definition NX_MAX_FILE_SYSTEMS :: u32 where "NX_MAX_FILE_SYSTEMS = 100"
definition XP_BLOCKS_TREE_FLAG :: u32 where "XP_BLOCKS_TREE_FLAG = 0x80000000"

record NxSuperblock =
  nx_xid :: u64
  nx_uuid :: bytes
  nx_block_size :: u32
  nx_block_count :: u64
  nx_incompatible_features :: u64
  xp_desc_base :: u64
  xp_desc_blocks :: u32
  xp_data_base :: u64
  xp_data_blocks :: u32
  nx_omap_oid :: u64
  spaceman_oid :: u64
  reaper_oid :: u64
  fs_oids :: "u64 list"
  desc_is_tree :: bool
  data_is_tree :: bool

text \<open>The loop that collects the non-zero \<^verbatim>\<open>nx_fs_oid\<close> entries.\<close>

text \<open>Field offsets.\<close>

definition OFF_NX_MAGIC :: usize where [simp]: "OFF_NX_MAGIC = 32"
definition OFF_BLOCK_SIZE :: usize where [simp]: "OFF_BLOCK_SIZE = 36"
definition OFF_BLOCK_COUNT :: usize where [simp]: "OFF_BLOCK_COUNT = 40"
definition OFF_NX_INCOMPAT_FEATURES :: usize where [simp]: "OFF_NX_INCOMPAT_FEATURES = 64"
definition OFF_NX_UUID :: usize where [simp]: "OFF_NX_UUID = 72"
definition OFF_SPACEMAN_OID :: usize where [simp]: "OFF_SPACEMAN_OID = 152"
definition OFF_REAPER_OID :: usize where [simp]: "OFF_REAPER_OID = 168"
definition OFF_XP_DESC_BLOCKS :: usize where [simp]: "OFF_XP_DESC_BLOCKS = 104"
definition OFF_XP_DATA_BLOCKS :: usize where [simp]: "OFF_XP_DATA_BLOCKS = 108"
definition OFF_XP_DESC_BASE :: usize where [simp]: "OFF_XP_DESC_BASE = 112"
definition OFF_XP_DATA_BASE :: usize where [simp]: "OFF_XP_DATA_BASE = 120"
definition OFF_NX_OMAP_OID :: usize where [simp]: "OFF_NX_OMAP_OID = 160"
definition OFF_MAX_FILE_SYSTEMS :: usize where [simp]: "OFF_MAX_FILE_SYSTEMS = 180"
definition OFF_FS_OID :: usize where [simp]: "OFF_FS_OID = 184"

definition nx_fs_oids :: "bytes \<Rightarrow> nat \<Rightarrow> u64 list" where
  "nx_fs_oids block max_fs =
     filter (\<lambda>oid. oid \<noteq> 0) (map (\<lambda>i. le_u64 block (OFF_FS_OID + i * 8)) [0..<max_fs])"

definition NxSuperblock_parse :: "bytes \<Rightarrow> NxSuperblock res" where
  "NxSuperblock_parse block =
     (if length block < OFF_NX_MAGIC + 4 then Err (NoValidSuperblock 1 0)
      else let magic = le_u32 block OFF_NX_MAGIC in
      if magic \<noteq> NX_MAGIC then Err (NoValidSuperblock 1 magic)
      else let stored = fletcher64_stored block; computed = fletcher64_checksum block in
      if stored \<noteq> computed then Err (ChecksumMismatch (le_u64 block 8) stored computed)
      else let desc_blocks_raw = le_u32 block OFF_XP_DESC_BLOCKS;
               data_blocks_raw = le_u32 block OFF_XP_DATA_BLOCKS;
               max_fs = min (le_u32 block OFF_MAX_FILE_SYSTEMS) NX_MAX_FILE_SYSTEMS
           in Ok \<lparr>nx_xid = le_u64 block 16, nx_uuid = arr 16 block OFF_NX_UUID,
                  nx_block_size = le_u32 block OFF_BLOCK_SIZE, nx_block_count = le_u64 block OFF_BLOCK_COUNT,
                  nx_incompatible_features = le_u64 block OFF_NX_INCOMPAT_FEATURES,
                  xp_desc_base = le_u64 block OFF_XP_DESC_BASE,
                  xp_desc_blocks = desc_blocks_raw AND NOT XP_BLOCKS_TREE_FLAG,
                  xp_data_base = le_u64 block OFF_XP_DATA_BASE,
                  xp_data_blocks = data_blocks_raw AND NOT XP_BLOCKS_TREE_FLAG,
                  nx_omap_oid = le_u64 block OFF_NX_OMAP_OID,
                  spaceman_oid = le_u64 block OFF_SPACEMAN_OID, reaper_oid = le_u64 block OFF_REAPER_OID,
                  fs_oids = nx_fs_oids block (unat max_fs),
                  desc_is_tree = (desc_blocks_raw AND XP_BLOCKS_TREE_FLAG \<noteq> 0),
                  data_is_tree = (data_blocks_raw AND XP_BLOCKS_TREE_FLAG \<noteq> 0)\<rparr>)"

definition xp_desc_is_tree :: "NxSuperblock \<Rightarrow> bool" where
  "xp_desc_is_tree sb = desc_is_tree sb"

definition xp_data_is_tree :: "NxSuperblock \<Rightarrow> bool" where
  "xp_data_is_tree sb = data_is_tree sb"

text \<open>\<^verbatim>\<open>src/src/fusion.rs\<close>\<close>

definition is_fusion :: "NxSuperblock \<Rightarrow> bool" where
  "is_fusion sb = (nx_incompatible_features sb AND NX_INCOMPAT_FUSION \<noteq> 0)"

definition translate_address :: "u64 \<Rightarrow> u64 res" where
  "translate_address paddr = Err UnsupportedFusion"

section \<open>Outcome of the parser\<close>

lemma NxSuperblock_parse_Ok_iff:
  "(\<exists>sb. NxSuperblock_parse block = Ok sb) \<longleftrightarrow>
     36 \<le> length block \<and> le_u32 block 32 = NX_MAGIC \<and> cksum_ok block"
  by (auto simp: NxSuperblock_parse_def Let_def)

lemma NxSuperblock_parse_no_panic [no_panic, simp]: "NxSuperblock_parse block \<noteq> Panic"
  by (simp add: NxSuperblock_parse_def Let_def)

lemma NxSuperblock_parse_xid: "NxSuperblock_parse block = Ok sb \<Longrightarrow> nx_xid sb = le_u64 block 16"
  by (auto simp: NxSuperblock_parse_def Let_def split: if_splits)

lemma NxSuperblock_parse_fields:
  assumes "NxSuperblock_parse block = Ok sb"
  shows "nx_block_size sb = le_u32 block 36" "nx_incompatible_features sb = le_u64 block 64"
    "xp_desc_base sb = le_u64 block 112" "xp_desc_blocks sb = le_u32 block 104 AND NOT XP_BLOCKS_TREE_FLAG"
    "xp_desc_is_tree sb \<longleftrightarrow> le_u32 block 104 AND XP_BLOCKS_TREE_FLAG \<noteq> 0"
    "nx_omap_oid sb = le_u64 block 160"
    "fs_oids sb = nx_fs_oids block (unat (min (le_u32 block 180) NX_MAX_FILE_SYSTEMS))"
  using assms by (auto simp: NxSuperblock_parse_def Let_def xp_desc_is_tree_def split: if_splits)

lemma NxSuperblock_parse_Err:
  "NxSuperblock_parse block = Err e \<Longrightarrow>
     (\<exists>m. e = NoValidSuperblock 1 m) \<or>
     e = ChecksumMismatch (le_u64 block 8) (fletcher64_stored block) (fletcher64_checksum block)"
  by (auto simp: NxSuperblock_parse_def Let_def split: if_splits)

lemma nx_fs_oids_bounds: "length (nx_fs_oids block n) \<le> n" "0 \<notin> set (nx_fs_oids block n)"
  using length_filter_le [of "\<lambda>oid. oid \<noteq> 0" "map (\<lambda>i. le_u64 block (184 + i * 8)) [0..<n]"]
  by (auto simp: nx_fs_oids_def)

lemma NxSuperblock_parse_fs_oids:
  assumes "NxSuperblock_parse block = Ok sb"
  shows "length (fs_oids sb) \<le> 100" "0 \<notin> set (fs_oids sb)"
proof -
  let ?n = "unat (min (le_u32 block 180) NX_MAX_FILE_SYSTEMS)"
  have sb: "fs_oids sb = nx_fs_oids block ?n"
    using assms by (auto simp: NxSuperblock_parse_def Let_def split: if_splits)
  have "?n \<le> unat NX_MAX_FILE_SYSTEMS" by (simp add: word_le_nat_alt [symmetric])
  then show "length (fs_oids sb) \<le> 100"
    using nx_fs_oids_bounds(1) [of block ?n] by (simp add: sb NX_MAX_FILE_SYSTEMS_def)
  show "0 \<notin> set (fs_oids sb)" unfolding sb by (rule nx_fs_oids_bounds)
qed

lemma xp_blocks_bound: "unat (x AND NOT XP_BLOCKS_TREE_FLAG) < 2 ^ 31"
proof -
  have flag: "XP_BLOCKS_TREE_FLAG = 2 ^ 31" by (simp add: XP_BLOCKS_TREE_FLAG_def)
  have flag_bit: "bit XP_BLOCKS_TREE_FLAG n \<longleftrightarrow> n = 31" for n
    unfolding flag bit_exp_iff by auto
  have "x AND NOT XP_BLOCKS_TREE_FLAG = take_bit 31 x"
    by (rule bit_eqI) (auto simp: flag_bit bit_simps)
  then show ?thesis
    by (simp add: unsigned_take_bit_eq take_bit_nat_def)
qed

end
