(* ===== verification/Checkpoint.thy ===== *)
theory Checkpoint
  imports Container
begin

text \<open>
  \<^verbatim>\<open>src/src/checkpoint.rs\<close>: the scan of the checkpoint descriptor ring for the live container
  superblock and its checkpoint map. The lemmas show that the scan picks the valid superblock of
  the greatest transaction id, and exactly when it fails.
\<close>

definition OBJECT_TYPE_NX_SUPERBLOCK :: u16 where "OBJECT_TYPE_NX_SUPERBLOCK = 0x1"
definition OBJECT_TYPE_CHECKPOINT_MAP :: u16 where "OBJECT_TYPE_CHECKPOINT_MAP = 0xc"
definition CPM_COUNT_OFF :: usize where "CPM_COUNT_OFF = 36"
definition CPM_MAP_OFF :: usize where "CPM_MAP_OFF = 40"
definition CHECKPOINT_MAPPING_LEN :: usize where "CHECKPOINT_MAPPING_LEN = 40"
definition MAX_CPM_COUNT :: u32 where "MAX_CPM_COUNT = 4096"

record CheckpointMapping =
  cpm_oid :: u64
  cpm_paddr :: u64
  cpm_obj_type :: u32
  cpm_subtype :: u32

record LiveCheckpoint =
  superblock_paddr :: u64
  live_xid :: u64
  mappings :: "CheckpointMapping list"

text \<open>
  \<^verbatim>\<open>read_block\<close>: \<open>None\<close> for a block past the end of the source. The buffer is only looked at after a
  successful read, so the block read is the result.
\<close>

definition read_block :: "device \<Rightarrow> u64 \<Rightarrow> usize \<Rightarrow> bytes option res" where
  "read_block dev paddr block_size =
     (case checked_mul paddr (word_of_nat block_size) of
        None \<Rightarrow> Ok None
      | Some offset \<Rightarrow>
          (case dev offset block_size of
             Inr buf \<Rightarrow> Ok (Some buf)
           | Inl (UnexpectedEof t) \<Rightarrow> Ok None
           | Inl k \<Rightarrow> Err (Io k)))"

text \<open>The state of the first scan: best (xid, paddr), blocks checked, last magic seen.\<close>

type_synonym nx_scan = "(u64 \<times> u64) option \<times> usize \<times> u32"

definition nx_candidate :: "u64 \<Rightarrow> bytes \<Rightarrow> nx_scan \<Rightarrow> nx_scan" where
  "nx_candidate paddr buf s =
     (case s of (best, checked, last_magic) \<Rightarrow>
       let checked = checked + 1 in
       (case ObjPhys_parse buf of
          None \<Rightarrow> (best, checked, last_magic)
        | Some hdr \<Rightarrow>
            if obj_type hdr \<noteq> OBJECT_TYPE_NX_SUPERBLOCK then (best, checked, last_magic)
            else let magic = le_u32 buf 32 in
            if magic \<noteq> NX_MAGIC then (best, checked, magic)
            else if fletcher64_stored buf \<noteq> fletcher64_checksum buf then (best, checked, magic)
            else if (case best of None \<Rightarrow> True | Some (bx, _) \<Rightarrow> o_xid hdr > bx)
            then (Some (o_xid hdr, paddr), checked, magic)
            else (best, checked, magic)))"

text \<open>The second scan appends the mappings of the map blocks of the live transaction.\<close>

definition cpm_mapping :: "bytes \<Rightarrow> nat \<Rightarrow> CheckpointMapping" where
  "cpm_mapping buf m =
     (let off = CPM_MAP_OFF + m * CHECKPOINT_MAPPING_LEN in
      \<lparr>cpm_oid = le_u64 buf (off + 24), cpm_paddr = le_u64 buf (off + 32),
       cpm_obj_type = le_u32 buf off, cpm_subtype = le_u32 buf (off + 4)\<rparr>)"

definition map_candidate ::
  "u64 \<Rightarrow> u64 \<Rightarrow> bytes \<Rightarrow> CheckpointMapping list \<Rightarrow> CheckpointMapping list" where
  "map_candidate xid paddr buf ms =
     (case ObjPhys_parse buf of
        None \<Rightarrow> ms
      | Some hdr \<Rightarrow>
          if obj_type hdr \<noteq> OBJECT_TYPE_CHECKPOINT_MAP \<or> o_xid hdr \<noteq> xid then ms
          else if fletcher64_stored buf \<noteq> fletcher64_checksum buf then ms
          else ms @ map (cpm_mapping buf) [0..<unat (min (le_u32 buf CPM_COUNT_OFF) MAX_CPM_COUNT)])"

text \<open>The loop both scans share: the address of each block is a checked addition.\<close>

fun ring_scan ::
  "device \<Rightarrow> u64 \<Rightarrow> usize \<Rightarrow> (u64 \<Rightarrow> bytes \<Rightarrow> 's \<Rightarrow> 's) \<Rightarrow> nat list \<Rightarrow> 's \<Rightarrow> 's res" where
  "ring_scan dev desc_base block_size f [] s = Ok s"
| "ring_scan dev desc_base block_size f (i # is) s =
     and_then (add_u64 desc_base (word_of_nat i)) (\<lambda>paddr.
       and_then (read_block dev paddr block_size) (\<lambda>blk.
         case blk of None \<Rightarrow> ring_scan dev desc_base block_size f is s
         | Some buf \<Rightarrow> ring_scan dev desc_base block_size f is (f paddr buf s)))"

definition block_size_ok :: "u32 \<Rightarrow> bool" where
  "block_size_ok bs \<longleftrightarrow> NX_MINIMUM_BLOCK_SIZE \<le> bs \<and> bs \<le> NX_MAXIMUM_BLOCK_SIZE"

definition resolve_live_checkpoint :: "device \<Rightarrow> NxSuperblock \<Rightarrow> LiveCheckpoint res" where
  "resolve_live_checkpoint dev bootstrap =
     (if xp_desc_is_tree bootstrap then Err (CheckpointTreeUnsupported ''descriptor'')
      else let bs = nx_block_size bootstrap in
      if \<not> block_size_ok bs
      then Err (FieldOutOfRange ''nx_superblock'' ''nx_block_size'' (ucast bs) (ucast NX_MAXIMUM_BLOCK_SIZE))
      else let block_size = unat bs;
               desc_base = xp_desc_base bootstrap;
               idx = [0..<unat (xp_desc_blocks bootstrap)] in
      and_then (ring_scan dev desc_base block_size nx_candidate idx (None, 0, 0))
        (\<lambda>(best, checked, last_magic).
          case best of None \<Rightarrow> Err (NoValidSuperblock checked last_magic)
          | Some (xid, paddr) \<Rightarrow>
              and_then (ring_scan dev desc_base block_size (map_candidate xid) idx []) (\<lambda>ms.
                Ok \<lparr>superblock_paddr = paddr, live_xid = xid, mappings = ms\<rparr>)))"

section \<open>The ring as a list of blocks\<close>

text \<open>The readable blocks of the ring, with their addresses, in ring order.\<close>

definition ring :: "device \<Rightarrow> NxSuperblock \<Rightarrow> (u64 \<times> bytes) list" where
  "ring dev sb = List.map_filter
     (\<lambda>i. let paddr = xp_desc_base sb + word_of_nat i in
        case read_block dev paddr (unat (nx_block_size sb)) of
          Ok (Some buf) \<Rightarrow> Some (paddr, buf) | _ \<Rightarrow> None)
     [0..<unat (xp_desc_blocks sb)]"

text \<open>The ring lies in the address space, and no read fails but at the end of the source.\<close>

definition ring_readable :: "device \<Rightarrow> NxSuperblock \<Rightarrow> bool" where
  "ring_readable dev sb \<longleftrightarrow> unat (xp_desc_base sb) + unat (xp_desc_blocks sb) \<le> 2 ^ 64 \<and>
     (\<forall>off k. dev off (unat (nx_block_size sb)) = Inl k \<longrightarrow> is_UnexpectedEof k)"

definition valid_nx :: "bytes \<Rightarrow> bool" where
  "valid_nx buf \<longleftrightarrow> (case ObjPhys_parse buf of None \<Rightarrow> False
     | Some h \<Rightarrow> obj_type h = OBJECT_TYPE_NX_SUPERBLOCK) \<and> le_u32 buf 32 = NX_MAGIC \<and> cksum_ok buf"

lemma read_block_fails [no_panic, simp]: "fails_only (\<lambda>e. \<exists>k. e = Io k) (read_block dev p bs)"
  by (auto simp: read_block_def split: option.splits sum.splits io_error.splits)

lemma read_block_Some_iff:
  "read_block dev p bs = Ok (Some buf) \<longleftrightarrow>
     (\<exists>off. checked_mul p (word_of_nat bs) = Some off \<and> dev off bs = Inr buf)"
  by (auto simp: read_block_def split: option.splits sum.splits io_error.splits)

lemma word_of_nat_add_u64:
  assumes "unat base + i < 2 ^ 64"
  shows "add_u64 base (word_of_nat i) = Ok (base + word_of_nat i)"
  using assms by (simp add: add_u64_def unat_of_nat)

lemma ring_scan_fold:
  assumes "\<forall>i \<in> set is. unat base + i < 2 ^ 64"
    and "\<forall>off k. dev off bs = Inl k \<longrightarrow> is_UnexpectedEof k"
  shows "ring_scan dev base bs f is s = Ok (fold (\<lambda>(p, b). f p b) (List.map_filter
     (\<lambda>i. let paddr = base + word_of_nat i in
        case read_block dev paddr bs of Ok (Some buf) \<Rightarrow> Some (paddr, buf) | _ \<Rightarrow> None) is) s)"
  using assms(1)
proof (induction "is" arbitrary: s)
  case Nil
  then show ?case by (simp add: map_filter_simps)
next
  case (Cons i "is")
  have "read_block dev p bs \<noteq> Err e" "read_block dev p bs \<noteq> Panic" for p e
    using assms(2) by (auto simp: read_block_def split: option.splits sum.splits io_error.splits) (metis io_error.disc(2))
  then obtain blk where "read_block dev (base + word_of_nat i) bs = Ok blk"
    by (cases "read_block dev (base + word_of_nat i) bs") auto
  with Cons show ?case
    by (auto simp: word_of_nat_add_u64 map_filter_simps Let_def split: option.splits)
qed

lemma ring_scan_ring:
  assumes "ring_readable dev sb"
  shows "ring_scan dev (xp_desc_base sb) (unat (nx_block_size sb)) f
      [0..<unat (xp_desc_blocks sb)] s = Ok (fold (\<lambda>(p, b). f p b) (ring dev sb) s)"
  unfolding ring_def using assms by (intro ring_scan_fold) (auto simp: ring_readable_def)

lemma ring_scan_fails:
  assumes "\<forall>i \<in> set is. unat base + i < 2 ^ 64"
  shows "fails_only (\<lambda>e. \<exists>k. e = Io k) (ring_scan dev base bs f is s)"
  using assms
proof (induction "is" arbitrary: s)
  case (Cons i "is")
  then show ?case
    by (auto simp: word_of_nat_add_u64 split: option.splits intro!: fails_only_and_then)
qed simp

lemma ring_scan_no_panic:
  "\<forall>i \<in> set is. unat base + i < 2 ^ 64 \<Longrightarrow> ring_scan dev base bs f is s \<noteq> Panic"
  using ring_scan_fails [of "is" base dev bs f s] by (auto simp: fails_only_iff)

section \<open>What the first scan finds\<close>

definition nx_best :: "(u64 \<times> bytes) list \<Rightarrow> (u64 \<times> u64) option \<Rightarrow> (u64 \<times> u64) option" where
  "nx_best = fold (\<lambda>(p, b) best. if valid_nx b \<and>
     (case best of None \<Rightarrow> True | Some (bx, _) \<Rightarrow> bx < le_u64 b 16) then Some (le_u64 b 16, p) else best)"

lemma nx_candidate_best:
  "fst (nx_candidate p b s) = (if valid_nx b \<and>
     (case fst s of None \<Rightarrow> True | Some (bx, _) \<Rightarrow> bx < le_u64 b 16) then Some (le_u64 b 16, p) else fst s)"
  by (cases s)
    (auto simp: nx_candidate_def valid_nx_def Let_def ObjPhys_parse_def split: option.splits if_splits)

lemma nx_fold_best: "fst (fold (\<lambda>(p, b). nx_candidate p b) rs s) = nx_best rs (fst s)"
  by (induction rs arbitrary: s) (auto simp: nx_best_def nx_candidate_best)

lemma nx_best_invariant:
  "(case nx_best rs best of
      None \<Rightarrow> best = None \<and> (\<forall>(p, b) \<in> set rs. \<not> valid_nx b)
    | Some (x, p) \<Rightarrow> (best = Some (x, p) \<or> (\<exists>b. (p, b) \<in> set rs \<and> valid_nx b \<and> le_u64 b 16 = x)) \<and>
        (\<forall>(p', b') \<in> set rs. valid_nx b' \<longrightarrow> le_u64 b' 16 \<le> x) \<and>
        (\<forall>x0 p0. best = Some (x0, p0) \<longrightarrow> x0 \<le> x))"
proof (induction rs arbitrary: best)
  case Nil
  then show ?case by (auto simp: nx_best_def split: option.splits)
next
  case (Cons r rs)
  obtain p b where r: "r = (p, b)" by (cases r)
  define best' where "best' = (if valid_nx b \<and>
     (case best of None \<Rightarrow> True | Some (bx, _) \<Rightarrow> bx < le_u64 b 16) then Some (le_u64 b 16, p) else best)"
  have step: "nx_best (r # rs) best = nx_best rs best'"
    by (simp add: nx_best_def r best'_def)
  show ?case
  proof (cases "nx_best rs best'")
    case None
    then show ?thesis
      unfolding step using Cons [of best'] by (auto simp: r best'_def split: option.splits if_splits)
  next
    case (Some y)
    obtain x q where y: "y = (x, q)" by (cases y)
    have IH: "best' = Some (x, q) \<or> (\<exists>b. (q, b) \<in> set rs \<and> valid_nx b \<and> le_u64 b 16 = x)"
      "\<forall>(p', b') \<in> set rs. valid_nx b' \<longrightarrow> le_u64 b' 16 \<le> x"
      "\<forall>x0 p0. best' = Some (x0, p0) \<longrightarrow> x0 \<le> x"
      using Cons [of best'] by (simp_all add: Some y)
    have "valid_nx b \<longrightarrow> le_u64 b 16 \<le> x" "\<forall>x0 p0. best = Some (x0, p0) \<longrightarrow> x0 \<le> x"
      using IH(3) by (auto simp: best'_def split: option.splits if_splits)
    moreover have "best = Some (x, q) \<or> (\<exists>b'. (q, b') \<in> set (r # rs) \<and> valid_nx b' \<and> le_u64 b' 16 = x)"
      using IH(1) by (auto simp: best'_def r split: if_splits)
    ultimately show ?thesis unfolding step Some y using IH(2) by (simp add: r)
  qed
qed

lemma nx_best_None_iff: "nx_best rs None = None \<longleftrightarrow> (\<forall>(p, b) \<in> set rs. \<not> valid_nx b)"
  using nx_best_invariant [where rs = rs and best = None] by (auto split: option.splits)

lemma nx_best_Some:
  "nx_best rs None = Some (x, p) \<Longrightarrow> (\<exists>b. (p, b) \<in> set rs \<and> valid_nx b \<and> le_u64 b 16 = x) \<and>
     (\<forall>(p', b') \<in> set rs. valid_nx b' \<longrightarrow> le_u64 b' 16 \<le> x)"
  using nx_best_invariant [where rs = rs and best = None] by simp

text \<open>Of several superblocks with the greatest transaction id it is the first one in ring order.\<close>

lemma nx_best_simps:
  "nx_best [] best = best"
  "nx_best (rs @ rs') best = nx_best rs' (nx_best rs best)"
  "nx_best ((p, b) # rs) best = nx_best rs (if valid_nx b \<and>
     (case best of None \<Rightarrow> True | Some (bx, _) \<Rightarrow> bx < le_u64 b 16) then Some (le_u64 b 16, p) else best)"
  by (simp_all add: nx_best_def)

lemma nx_best_first:
  "nx_best rs None = Some (x, p) \<Longrightarrow> \<exists>as b bs. rs = as @ (p, b) # bs \<and> valid_nx b \<and> le_u64 b 16 = x \<and>
     (\<forall>(q, c) \<in> set as. valid_nx c \<longrightarrow> le_u64 c 16 < x)"
proof (induction rs rule: rev_induct)
  case (snoc r rs)
  obtain q c where r: "r = (q, c)" by (cases r)
  show ?case
  proof (cases "nx_best rs None = Some (x, p)")
    case True
    with snoc.IH show ?thesis by fastforce
  next
    case False
    then have c: "valid_nx c" "le_u64 c 16 = x" "q = p"
      and old: "case nx_best rs None of None \<Rightarrow> True | Some (bx, _) \<Rightarrow> bx < x"
      using snoc.prems by (auto simp: nx_best_simps r split: if_splits)
    have "\<forall>(q, c) \<in> set rs. valid_nx c \<longrightarrow> le_u64 c 16 < x"
      using old nx_best_invariant [where rs = rs and best = None] by (fastforce split: option.splits)
    with c show ?thesis by (intro exI [of _ rs] exI [of _ c] exI [of _ "[]"]) (simp add: r)
  qed
qed (simp add: nx_best_simps)

lemma nx_best_intro:
  assumes "valid_nx b" and "\<forall>(q, c) \<in> set as. valid_nx c \<longrightarrow> le_u64 c 16 < le_u64 b 16"
    and "\<forall>(q, c) \<in> set bs. valid_nx c \<longrightarrow> le_u64 c 16 \<le> le_u64 b 16"
  shows "nx_best (as @ (p, b) # bs) None = Some (le_u64 b 16, p)"
proof -
  have "case nx_best as None of None \<Rightarrow> True | Some (bx, _) \<Rightarrow> bx < le_u64 b 16"
    using nx_best_invariant [where rs = as and best = None] assms(2) by (fastforce split: option.splits)
  moreover have "nx_best bs (Some (le_u64 b 16, p)) = Some (le_u64 b 16, p)"
    using assms(3) by (induction bs) (auto simp: nx_best_simps)
  ultimately show ?thesis using assms(1) by (simp add: nx_best_simps)
qed

text \<open>The second scan collects the mappings of the map blocks of that transaction, in ring order.\<close>

definition live_map :: "u64 \<Rightarrow> bytes \<Rightarrow> bool" where
  "live_map xid buf \<longleftrightarrow> (case ObjPhys_parse buf of None \<Rightarrow> False
     | Some h \<Rightarrow> obj_type h = OBJECT_TYPE_CHECKPOINT_MAP \<and> o_xid h = xid) \<and> cksum_ok buf"

definition block_mappings :: "bytes \<Rightarrow> CheckpointMapping list" where
  "block_mappings buf = map (cpm_mapping buf) [0..<unat (min (le_u32 buf CPM_COUNT_OFF) MAX_CPM_COUNT)]"

lemma map_fold: "fold (\<lambda>(p, b). map_candidate xid p b) rs ms =
    ms @ concat (map block_mappings (filter (live_map xid) (map snd rs)))"
proof (induction rs arbitrary: ms)
  case (Cons r rs)
  obtain p b where r: "r = (p, b)" by (cases r)
  have "map_candidate xid p b ms = ms @ (if live_map xid b then block_mappings b else [])"
    by (auto simp: map_candidate_def live_map_def block_mappings_def split: option.splits)
  then show ?case using Cons by (simp add: r)
qed simp

lemma resolve_live_checkpoint_ring:
  assumes "ring_readable dev sb" and "\<not> xp_desc_is_tree sb" and "block_size_ok (nx_block_size sb)"
  shows "case nx_best (ring dev sb) None of
      None \<Rightarrow> \<exists>n m. resolve_live_checkpoint dev sb = Err (NoValidSuperblock n m)
    | Some (xid, paddr) \<Rightarrow> resolve_live_checkpoint dev sb = Ok \<lparr>superblock_paddr = paddr, live_xid = xid,
        mappings = concat (map block_mappings (filter (live_map xid) (map snd (ring dev sb))))\<rparr>"
proof -
  obtain best n m where f: "fold (\<lambda>(p, b). nx_candidate p b) (ring dev sb) (None, 0, 0) = (best, n, m)"
    by (metis prod_cases3)
  then have "best = nx_best (ring dev sb) None"
    using nx_fold_best [of "ring dev sb" "(None, 0, 0)"] by simp
  then show ?thesis
    using assms(2,3)
    by (auto simp: resolve_live_checkpoint_def Let_def ring_scan_ring [OF assms(1)] f map_fold
        split: option.splits)
qed

section \<open>Torn blocks\<close>

text \<open>
  A ring block is left alone, or it is torn (its checksum is wrong) and was neither the live superblock
  nor a map block of the live transaction: what a crash leaves while the next checkpoint is written.
\<close>

definition torn_outside :: "LiveCheckpoint \<Rightarrow> u64 \<times> bytes \<Rightarrow> u64 \<times> bytes \<Rightarrow> bool" where
  "torn_outside live r r' \<longleftrightarrow> r' = r \<or> fst r' = fst r \<and> \<not> cksum_ok (snd r') \<and>
     fst r \<noteq> superblock_paddr live \<and> \<not> live_map (live_xid live) (snd r)"

lemma torn_maps:
  "list_all2 (torn_outside live) rs rs' \<Longrightarrow>
     filter (live_map (live_xid live)) (map snd rs') = filter (live_map (live_xid live)) (map snd rs)"
  by (induction rule: list_all2_induct) (auto simp: torn_outside_def live_map_def [of _ "snd _"])

text \<open>Torn blocks in general: a ring with them has no other valid superblock, and keeps its best one where it is intact.\<close>

definition torn_keeping :: "u64 set \<Rightarrow> u64 \<times> bytes \<Rightarrow> u64 \<times> bytes \<Rightarrow> bool" where
  "torn_keeping A r r' \<longleftrightarrow> r' = r \<or> fst r' = fst r \<and> \<not> cksum_ok (snd r') \<and> fst r \<notin> A"

lemma torn_outside_keeping: "list_all2 (torn_outside live) rs rs' \<Longrightarrow> list_all2 (torn_keeping {superblock_paddr live}) rs rs'"
  by (erule list_all2_mono) (auto simp: torn_outside_def torn_keeping_def)

lemma torn_valid:
  assumes "list_all2 (torn_keeping A) rs rs'" and "(p, b) \<in> set rs'" and "valid_nx b"
  shows "(p, b) \<in> set rs"
  using assms by (induction rule: list_all2_induct) (auto simp: torn_keeping_def valid_nx_def)

lemma torn_mappings:
  assumes "list_all2 (torn_keeping A) rs rs'"
  shows "set (concat (map block_mappings (filter (live_map x) (map snd rs')))) \<subseteq>
    set (concat (map block_mappings (filter (live_map x) (map snd rs))))"
  using assms by (induction rule: list_all2_induct) (auto simp: torn_keeping_def live_map_def [of _ "snd _"])

lemma nx_best_torn:
  assumes "nx_best rs None = Some (x, p)" and "list_all2 (torn_keeping A) rs rs'" and "p \<in> A"
  shows "nx_best rs' None = Some (x, p)"
proof -
  obtain as b bs where rs: "rs = as @ (p, b) # bs" and b: "valid_nx b" "le_u64 b 16 = x"
    and before: "\<forall>(q, c) \<in> set as. valid_nx c \<longrightarrow> le_u64 c 16 < x"
    using nx_best_first [OF assms(1)] by blast
  obtain as' r' bs' where rs': "rs' = as' @ r' # bs'" and parts: "list_all2 (torn_keeping A) as as'"
    "torn_keeping A (p, b) r'" "list_all2 (torn_keeping A) bs bs'"
    using assms(2) unfolding rs by (auto simp: list_all2_append1 list_all2_Cons1)
  have "r' = (p, b)" using parts(2) assms(3) by (simp add: torn_keeping_def)
  moreover have "\<forall>(q, c) \<in> set as'. valid_nx c \<longrightarrow> le_u64 c 16 < x"
    using before torn_valid [OF parts(1)] by fastforce
  moreover have "\<forall>(q, c) \<in> set bs'. valid_nx c \<longrightarrow> le_u64 c 16 \<le> x"
    using nx_best_Some [OF assms(1)] torn_valid [OF parts(3)] unfolding rs by fastforce
  ultimately show ?thesis using nx_best_intro [of b as' bs' p] b unfolding rs' by simp
qed

lemma resolve_live_checkpoint_torn:
  assumes "resolve_live_checkpoint dev sb = Ok live" and "ring_readable dev sb" and "ring_readable dev' sb"
    and "list_all2 (torn_outside live) (ring dev sb) (ring dev' sb)"
  shows "resolve_live_checkpoint dev' sb = Ok live"
proof -
  have ok: "\<not> xp_desc_is_tree sb" "block_size_ok (nx_block_size sb)"
    using assms(1) by (auto simp: resolve_live_checkpoint_def Let_def split: if_splits)
  obtain x p where best: "nx_best (ring dev sb) None = Some (x, p)"
    using resolve_live_checkpoint_ring [OF assms(2) ok] assms(1) by (cases "nx_best (ring dev sb) None") auto
  then have live: "live = \<lparr>superblock_paddr = p, live_xid = x,
      mappings = concat (map block_mappings (filter (live_map x) (map snd (ring dev sb))))\<rparr>"
    using resolve_live_checkpoint_ring [OF assms(2) ok] assms(1) by simp
  have "nx_best (ring dev' sb) None = Some (x, p)"
    using nx_best_torn [OF best torn_outside_keeping [OF assms(4)]] by (simp add: live)
  then show ?thesis
    using resolve_live_checkpoint_ring [OF assms(3) ok] torn_maps [OF assms(4)] by (simp add: live)
qed

section \<open>When the scan panics\<close>

lemma read_block_beyond:
  assumes "2 ^ 64 \<le> unat p * bs" and "bs < 2 ^ 64"
  shows "read_block dev p bs = Ok None"
  using assms by (simp add: read_block_def checked_mul_def unat_of_nat)

lemma ring_scan_overflow:
  assumes "unat base + m \<le> 2 ^ 64" and "unat base + (m + n) > 2 ^ 64" and "m + n < 2 ^ 32" and "4096 \<le> bs" and "bs < 2 ^ 64"
  shows "ring_scan dev base bs f [m..<m + n] s = Panic"
  using assms(1,2,3)
proof (induction n arbitrary: m)
  case 0
  then show ?case by simp
next
  case (Suc n)
  have upt: "[m..<m + Suc n] = m # [Suc m..<Suc m + n]" by (simp add: upt_conv_Cons del: upt_Suc)
  show ?case
  proof (cases "unat base + m < 2 ^ 64")
    case False
    then show ?thesis using Suc.prems unfolding upt by (simp add: add_u64_def unat_of_nat)
  next
    case True
    have sum: "unat (base + word_of_nat m) = unat base + m"
      using True by (simp add: unat_word_ariths unat_of_nat)
    have "2 ^ 52 * 4096 \<le> (unat base + m) * bs"
      using Suc.prems assms(4) by (intro mult_mono) auto
    then have "read_block dev (base + word_of_nat m) bs = Ok None"
      using assms(5) by (intro read_block_beyond) (simp_all add: sum)
    moreover have "ring_scan dev base bs f [Suc m..<Suc m + n] s = Panic"
      using Suc.prems True by (intro Suc.IH) simp_all
    ultimately show ?thesis
      using True unfolding upt by (simp add: word_of_nat_add_u64)
  qed
qed

lemma block_size_bounds: "block_size_ok bs \<Longrightarrow> 4096 \<le> unat bs \<and> unat bs \<le> 65536"
  by (auto simp: block_size_ok_def NX_MINIMUM_BLOCK_SIZE_def NX_MAXIMUM_BLOCK_SIZE_def word_le_nat_alt)

lemma resolve_live_checkpoint_panic_iff:
  "resolve_live_checkpoint dev sb = Panic \<longleftrightarrow> \<not> xp_desc_is_tree sb \<and> block_size_ok (nx_block_size sb) \<and>
     2 ^ 64 < unat (xp_desc_base sb) + unat (xp_desc_blocks sb)"
proof (cases "\<not> xp_desc_is_tree sb \<and> block_size_ok (nx_block_size sb)")
  case guards: True
  show ?thesis
  proof (cases "2 ^ 64 < unat (xp_desc_base sb) + unat (xp_desc_blocks sb)")
    case True
    have "ring_scan dev (xp_desc_base sb) (unat (nx_block_size sb)) nx_candidate
        [0..<0 + unat (xp_desc_blocks sb)] (None, 0, 0) = Panic"
      using True guards block_size_bounds [of "nx_block_size sb"] unat_bound [of "xp_desc_base sb"]
        unat_bound [of "xp_desc_blocks sb"]
      by (intro ring_scan_overflow) simp_all
    then show ?thesis using guards True by (simp add: resolve_live_checkpoint_def Let_def)
  next
    case False
    then have idx: "\<forall>i \<in> set [0..<unat (xp_desc_blocks sb)]. unat (xp_desc_base sb) + i < 2 ^ 64"
      by auto
    show ?thesis
      using False
      by (auto simp: resolve_live_checkpoint_def Let_def res_simps ring_scan_no_panic [OF idx] split: option.splits)
  qed
qed (auto simp: resolve_live_checkpoint_def Let_def)

section \<open>Properties\<close>

text \<open>
  C14 (functional): when every descriptor block is readable or past the end of the source,
  \<^verbatim>\<open>resolve_live_checkpoint\<close> returns the address and transaction id of a ring block that is a valid
  superblock (type, magic and checksum) and whose transaction id no other valid superblock of the
  ring exceeds, with the mappings of exactly the valid map blocks of that transaction; it fails
  with \<^verbatim>\<open>NoValidSuperblock\<close> precisely when the ring holds no valid superblock.
\<close>

theorem resolve_live_checkpoint_picks_latest:
  assumes "ring_readable dev sb" and "\<not> xp_desc_is_tree sb" and "block_size_ok (nx_block_size sb)"
  shows "(\<exists>p b. (p, b) \<in> set (ring dev sb) \<and> valid_nx b \<and>
      (\<forall>(p', b') \<in> set (ring dev sb). valid_nx b' \<longrightarrow> le_u64 b' 16 \<le> le_u64 b 16) \<and>
      resolve_live_checkpoint dev sb = Ok \<lparr>superblock_paddr = p, live_xid = le_u64 b 16,
        mappings = concat (map block_mappings (filter (live_map (le_u64 b 16)) (map snd (ring dev sb))))\<rparr>) \<or>
    (\<forall>(p, b) \<in> set (ring dev sb). \<not> valid_nx b) \<and>
      (\<exists>n m. resolve_live_checkpoint dev sb = Err (NoValidSuperblock n m))"
proof (cases "nx_best (ring dev sb) None")
  case None
  then show ?thesis
    using resolve_live_checkpoint_ring [OF assms, unfolded None option.case] nx_best_None_iff [THEN iffD1, OF None]
    by blast
next
  case (Some y)
  obtain x p where y: "y = (x, p)" by (cases y)
  show ?thesis
    using resolve_live_checkpoint_ring [OF assms] nx_best_Some [of "ring dev sb" x p] Some
    unfolding y by auto
qed

text \<open>A descriptor ring of two superblocks, of transactions 7 and 3, after block zero.\<close>

definition demo_nx :: "u64 \<Rightarrow> bytes" where
  "demo_nx xid = seal (replicate 16 0 @ to_le_bytes xid @ to_le_bytes (1 :: u32) @ replicate 4 0 @
     to_le_bytes NX_MAGIC @ to_le_bytes (4096 :: u32) @ replicate 64 0 @ to_le_bytes (2 :: u32) @
     replicate 4 0 @ to_le_bytes (1 :: u64) @ replicate 40 0 @ to_le_bytes (3 :: u64) @
     replicate 12 0 @ to_le_bytes (1 :: u32) @ to_le_bytes (5 :: u64) @ replicate 3904 0)"

lemma length_demo_nx [simp]: "length (demo_nx xid) = 4096"
  by (simp add: demo_nx_def)

lemma demo_nx_fields:
  "le_u64 (demo_nx xid) 16 = xid" "le_u32 (demo_nx xid) 24 = 1" "le_u32 (demo_nx xid) 32 = NX_MAGIC"
  "le_u32 (demo_nx xid) 36 = 4096" "le_u64 (demo_nx xid) 64 = 0" "le_u32 (demo_nx xid) 104 = 2"
  "le_u64 (demo_nx xid) 112 = 1" "le_u64 (demo_nx xid) 160 = 3" "le_u32 (demo_nx xid) 180 = 1"
  "le_u64 (demo_nx xid) 184 = 5"
  by (simp_all add: demo_nx_def le_seal slice_simps)

lemma demo_nx_cksum_ok: "cksum_ok (demo_nx xid)"
  unfolding demo_nx_def by (rule seal_cksum_ok) simp

lemma demo_nx_valid: "valid_nx (demo_nx xid)"
  using demo_nx_fields [of xid] demo_nx_cksum_ok [of xid]
  by (simp add: valid_nx_def ObjPhys_parse_def obj_type_def OBJ_PHYS_LEN_def OBJECT_TYPE_NX_SUPERBLOCK_def)

lemma demo_nx_not_map: "\<not> live_map x (demo_nx xid)"
  using demo_nx_fields(2) [of xid]
  by (simp add: live_map_def ObjPhys_parse_def obj_type_def OBJ_PHYS_LEN_def OBJECT_TYPE_CHECKPOINT_MAP_def)

definition demo_sb :: "u64 \<Rightarrow> NxSuperblock" where
  "demo_sb xid = (case NxSuperblock_parse (demo_nx xid) of Ok sb \<Rightarrow> sb)"

lemma demo_nx_parse: "NxSuperblock_parse (demo_nx xid) = Ok (demo_sb xid)"
  using NxSuperblock_parse_Ok_iff [of "demo_nx xid"] demo_nx_fields [of xid] demo_nx_cksum_ok [of xid]
  by (auto simp: demo_sb_def)

lemma demo_sb_fields:
  "nx_block_size (demo_sb xid) = 4096" "xp_desc_base (demo_sb xid) = 1" "xp_desc_blocks (demo_sb xid) = 2"
  "\<not> xp_desc_is_tree (demo_sb xid)" "nx_incompatible_features (demo_sb xid) = 0"
  "nx_omap_oid (demo_sb xid) = 3" "fs_oids (demo_sb xid) = [5]" "nx_xid (demo_sb xid) = xid"
  by (simp_all add: NxSuperblock_parse_fields [OF demo_nx_parse] NxSuperblock_parse_xid [OF demo_nx_parse]
      demo_nx_fields XP_BLOCKS_TREE_FLAG_def NX_MAX_FILE_SYSTEMS_def nx_fs_oids_def min_def word_le_nat_alt)

lemma cursor_only_eof: "cursor img off n = Inl k \<Longrightarrow> is_UnexpectedEof k"
  by (cases k) (auto simp: cursor_def split: if_splits)

lemma demo_ring_readable: "ring_readable (cursor img) (demo_sb 3)"
  by (auto simp: ring_readable_def demo_sb_fields dest: cursor_only_eof)

lemma read_block_cursor:
  assumes "\<forall>b \<in> set blks. length b = 4096" and "unat p < length blks" and "length blks < 2 ^ 52"
  shows "read_block (cursor (concat blks)) p 4096 = Ok (Some (blks ! unat p))"
proof -
  have mul: "checked_mul p 4096 = Some (p * 4096)" using assms(2,3) by (simp add: checked_mul_def)
  then show ?thesis
    using cursor_block [OF assms(1,2)] unat_checked_mul [OF mul] by (auto simp: read_block_Some_iff)
qed

lemma two_block_ring:
  assumes "\<forall>b \<in> set rest. length b = 4096" and "length rest < 1000" and "length b1 = 4096" and "length b2 = 4096"
  shows "ring (cursor (concat (demo_nx 3 # b1 # b2 # rest))) (demo_sb 3) = [(1, b1), (2, b2)]"
proof -
  let ?blks = "demo_nx 3 # b1 # b2 # rest"
  have "read_block (cursor (concat ?blks)) p 4096 = Ok (Some (?blks ! unat p))" if "unat p < 3" for p
    using assms that by (intro read_block_cursor) auto
  from this [of 1] this [of 2] show ?thesis
    by (simp add: ring_def demo_sb_fields upt_rec map_filter_simps)
qed

lemma demo_ring:
  assumes "\<forall>b \<in> set rest. length b = 4096" and "length rest < 1000"
  shows "ring (cursor (concat (demo_nx 3 # demo_nx 7 # demo_nx 3 # rest))) (demo_sb 3) =
    [(1, demo_nx 7), (2, demo_nx 3)]"
  using two_block_ring [OF assms] by simp

theorem resolve_live_checkpoint_picks_latest_witness:
  "\<exists>ms. resolve_live_checkpoint (cursor (concat [demo_nx 3, demo_nx 7, demo_nx 3])) (demo_sb 3) =
     Ok \<lparr>superblock_paddr = 1, live_xid = 7, mappings = ms\<rparr>"
proof -
  have "ring (cursor (concat [demo_nx 3, demo_nx 7, demo_nx 3])) (demo_sb 3) = [(1, demo_nx 7), (2, demo_nx 3)]"
    using demo_ring [of "[]"] by simp
  moreover have "block_size_ok (nx_block_size (demo_sb 3))"
    by (simp add: demo_sb_fields block_size_ok_def NX_MINIMUM_BLOCK_SIZE_def NX_MAXIMUM_BLOCK_SIZE_def)
  ultimately show ?thesis
    using resolve_live_checkpoint_picks_latest [OF demo_ring_readable demo_sb_fields(4),
        of "concat [demo_nx 3, demo_nx 7, demo_nx 3]"]
    by (auto simp: word_le_nat_alt demo_nx_valid demo_nx_fields(1))
qed

text \<open>The older superblock of the ring, wiped.\<close>

definition wiped :: bytes where
  "wiped = replicate 4096 0"

lemma wiped_invalid: "\<not> cksum_ok wiped"
  by (rule unstamped_invalid) (simp add: wiped_def fletcher64_stored_def le_u64_def get_range_def from_le_bytes_def)

text \<open>
  C38 (safety): the address arithmetic of the ring scan overflows, and with overflow checks panics,
  exactly when the descriptor area named by the superblock runs past the end of the 64-bit address
  space; in every other case the scan returns a value or an error.
\<close>

theorem resolve_live_checkpoint_panics_iff:
  "resolve_live_checkpoint dev sb = Panic \<longleftrightarrow> \<not> xp_desc_is_tree sb \<and> block_size_ok (nx_block_size sb) \<and>
     2 ^ 64 < unat (xp_desc_base sb) + unat (xp_desc_blocks sb)"
  by (rule resolve_live_checkpoint_panic_iff)

end
