(* ===== verification/Btree_Node.thy ===== *)
theory Btree_Node
  imports Obj_Phys
begin

text \<open>
  \<^verbatim>\<open>src/src/btree.rs\<close>, first part: B-tree nodes and their table-of-contents decoder
  \<^verbatim>\<open>node_entries\<close>, whose every offset comes from an untrusted image. The lemmas show that an entry
  is a slice of the node, that the number of entries is bounded, and that decoding a node written
  with the documented layout gives back its records.
\<close>

section \<open>Nodes\<close>

definition BTNODE_ROOT :: u16 where "BTNODE_ROOT = 0x1"
definition BTNODE_LEAF :: u16 where "BTNODE_LEAF = 0x2"
definition BTNODE_FIXED_KV_SIZE :: u16 where "BTNODE_FIXED_KV_SIZE = 0x4"
definition BTN_DATA_OFF :: usize where "BTN_DATA_OFF = 56"
definition BTREE_INFO_LEN :: usize where "BTREE_INFO_LEN = 40"
definition MAX_BTN_NKEYS :: u32 where "MAX_BTN_NKEYS = 0x100000"
definition MAX_BTREE_DEPTH :: usize where "MAX_BTREE_DEPTH = 64"

datatype BTreeSubtype = Omap | FsTree

primrec fixed_key_len :: "BTreeSubtype \<Rightarrow> usize" where
  "fixed_key_len Omap = 16"
| "fixed_key_len FsTree = 0"

primrec fixed_leaf_val_len :: "BTreeSubtype \<Rightarrow> usize" where
  "fixed_leaf_val_len Omap = 16"
| "fixed_leaf_val_len FsTree = 0"

primrec fixed_branch_val_len :: "BTreeSubtype \<Rightarrow> usize" where
  "fixed_branch_val_len Omap = 8"
| "fixed_branch_val_len FsTree = 8"

record BTreeNodeHeader =
  btn_flags :: u16
  btn_level :: u16
  btn_nkeys :: u32

definition is_leaf :: "BTreeNodeHeader \<Rightarrow> bool" where
  "is_leaf h = (btn_flags h AND BTNODE_LEAF \<noteq> 0 \<or> btn_level h = 0)"

definition is_root :: "BTreeNodeHeader \<Rightarrow> bool" where
  "is_root h = (btn_flags h AND BTNODE_ROOT \<noteq> 0)"

definition is_fixed_kv :: "BTreeNodeHeader \<Rightarrow> bool" where
  "is_fixed_kv h = (btn_flags h AND BTNODE_FIXED_KV_SIZE \<noteq> 0)"

text \<open>An entry: its key bytes and its value bytes.\<close>

type_synonym Entry = "bytes \<times> bytes"

text \<open>Field offsets.\<close>

definition OFF_BTN_FLAGS :: usize where [simp]: "OFF_BTN_FLAGS = 32"
definition OFF_BTN_LEVEL :: usize where [simp]: "OFF_BTN_LEVEL = 34"
definition OFF_BTN_NKEYS :: usize where [simp]: "OFF_BTN_NKEYS = 36"
definition OFF_BTN_TABLE_SPACE :: usize where [simp]: "OFF_BTN_TABLE_SPACE = 40"
definition BTREE_NODE_MIN_LEN :: usize where [simp]: "BTREE_NODE_MIN_LEN = BTN_DATA_OFF"
definition TOC_FIXED_LEN :: usize where [simp]: "TOC_FIXED_LEN = 4"
definition TOC_VAR_LEN :: usize where [simp]: "TOC_VAR_LEN = 8"

definition parse_node_header :: "bytes \<Rightarrow> BTreeNodeHeader option" where
  "parse_node_header block =
     (if length block < BTREE_NODE_MIN_LEN then None
      else Some \<lparr>btn_flags = le_u16 block OFF_BTN_FLAGS, btn_level = le_u16 block OFF_BTN_LEVEL,
                 btn_nkeys = le_u32 block OFF_BTN_NKEYS\<rparr>)"

text \<open>The entry a table-of-contents slot at offset \<open>e\<close> locates, \<open>None\<close> when it is skipped.\<close>

definition node_entry ::
  "bytes \<Rightarrow> bool \<Rightarrow> usize \<Rightarrow> usize \<Rightarrow> usize \<Rightarrow> usize \<Rightarrow> usize \<Rightarrow> Entry option" where
  "node_entry block fixed key_len val_len key_area val_base e =
     (let koff = unat (le_u16 block e);
          (voff, this_key_len, this_val_len) =
            (if fixed then (unat (le_u16 block (e + 2)), key_len, val_len)
             else (unat (le_u16 block (e + 4)), unat (le_u16 block (e + 2)),
                   unat (le_u16 block (e + 6))));
          kstart = key_area + koff;
          kend = kstart + this_key_len
      in if val_base < voff then None
         else let vstart = val_base - voff; vend = vstart + this_val_len in
           (case get_range block kstart kend of None \<Rightarrow> None
            | Some key \<Rightarrow> (case get_range block vstart vend of None \<Rightarrow> None
                           | Some value \<Rightarrow> Some (key, value))))"

definition node_entries :: "bytes \<Rightarrow> BTreeSubtype \<Rightarrow> Entry list" where
  "node_entries block subtype =
     (case parse_node_header block of
        None \<Rightarrow> []
      | Some hdr \<Rightarrow>
          (let nkeys = unat (min (btn_nkeys hdr) MAX_BTN_NKEYS) in
           if nkeys = 0 then []
           else
             let toc_off = unat (le_u16 block OFF_BTN_TABLE_SPACE);
                 toc_len = unat (le_u16 block (OFF_BTN_TABLE_SPACE + 2));
                 toc_start = BTN_DATA_OFF + toc_off;
                 key_area = toc_start + toc_len;
                 val_base = (if is_root hdr then length block - BTREE_INFO_LEN else length block);
                 fixed = is_fixed_kv hdr;
                 entry_len = (if fixed then TOC_FIXED_LEN else TOC_VAR_LEN);
                 key_len = fixed_key_len subtype;
                 val_len = (if is_leaf hdr then fixed_leaf_val_len subtype
                            else fixed_branch_val_len subtype)
             in List.map_filter
                  (\<lambda>i. node_entry block fixed key_len val_len key_area val_base
                         (toc_start + i * entry_len))
                  (takeWhile (\<lambda>i. \<not> (toc_start + i * entry_len + entry_len > key_area \<or>
                                    toc_start + i * entry_len + entry_len > length block))
                     [0..<nkeys])))"

section \<open>Entries are bounded slices\<close>

lemma get_range_end: "get_range xs a b = Some ys \<Longrightarrow> b = a + length ys"
  by (auto simp: get_range_def split: if_splits)

lemma node_entry_ranges:
  assumes "node_entry block fixed kl vl ka vb e = Some (k, v)"
  shows "\<exists>a b c d. ka \<le> a \<and> c \<le> vb \<and> get_range block a b = Some k \<and> get_range block c d = Some v"
proof -
  let ?kl = "if fixed then kl else unat (le_u16 block (e + 2))"
  let ?vl = "if fixed then vl else unat (le_u16 block (e + 6))"
  let ?vo = "if fixed then unat (le_u16 block (e + 2)) else unat (le_u16 block (e + 4))"
  have "get_range block (ka + unat (le_u16 block e)) (ka + unat (le_u16 block e) + ?kl) = Some k"
    "get_range block (vb - ?vo) (vb - ?vo + ?vl) = Some v"
    using assms by (auto simp: node_entry_def Let_def split: if_splits option.splits)
  then show ?thesis by (meson le_add1 diff_le_self)
qed

lemma node_entry_Some:
  assumes "node_entry block fixed kl vl ka vb e = Some (k, v)"
  shows "\<exists>a c. ka \<le> a \<and> c \<le> vb \<and> get_range block a (a + length k) = Some k \<and>
    get_range block c (c + length v) = Some v"
  using node_entry_ranges [OF assms] get_range_end by metis

text \<open>Where the keys of a node begin, behind its table of contents, and where its values end.\<close>

definition keys_from :: "bytes \<Rightarrow> nat" where
  "keys_from block = 56 + unat (le_u16 block 40) + unat (le_u16 block 42)"

definition values_until :: "bytes \<Rightarrow> nat" where
  "values_until block = (if le_u16 block 32 AND BTNODE_ROOT = 0 then length block else length block - 40)"

lemma set_map_filter: "set (List.map_filter f xs) = {y. \<exists>x\<in>set xs. f x = Some y}"
  by (induction xs) (auto simp: map_filter_simps split: option.splits)

lemma length_map_filter_le: "length (List.map_filter f xs) \<le> length xs"
  by (induction xs) (auto simp: map_filter_simps split: option.splits)

lemma node_entries_shape:
  "\<exists>fixed kl vl g xs. node_entries block st =
     List.map_filter (\<lambda>i :: nat. node_entry block fixed kl vl (keys_from block) (values_until block) (g i)) xs"
proof (cases "\<exists>hdr. parse_node_header block = Some hdr \<and> unat (min (btn_nkeys hdr) MAX_BTN_NKEYS) \<noteq> 0")
  case True
  then obtain hdr where hdr: "parse_node_header block = Some hdr"
    and n: "unat (min (btn_nkeys hdr) MAX_BTN_NKEYS) \<noteq> 0" by blast
  have ends: "values_until block = (if is_root hdr then length block - BTREE_INFO_LEN else length block)"
    "keys_from block = BTN_DATA_OFF + unat (le_u16 block OFF_BTN_TABLE_SPACE) + unat (le_u16 block (OFF_BTN_TABLE_SPACE + 2))"
    using hdr by (auto simp: values_until_def keys_from_def is_root_def parse_node_header_def BTN_DATA_OFF_def BTREE_INFO_LEN_def
        split: if_splits)
  show ?thesis
    unfolding node_entries_def hdr option.case Let_def if_not_P [OF n] ends by ((rule exI)+, rule refl)
next
  case False
  then have "node_entries block st = []" by (auto simp: node_entries_def Let_def split: option.splits)
  then show ?thesis by (intro exI [of _ "[]"] exI) (simp add: map_filter_simps)
qed

lemma node_entries_slice:
  assumes "(k, v) \<in> set (node_entries block st)"
  shows "\<exists>a c. keys_from block \<le> a \<and> c \<le> values_until block \<and> get_range block a (a + length k) = Some k \<and>
    get_range block c (c + length v) = Some v"
proof -
  obtain fixed kl vl g xs where "node_entries block st =
      List.map_filter (\<lambda>i :: nat. node_entry block fixed kl vl (keys_from block) (values_until block) (g i)) xs"
    using node_entries_shape by blast
  then obtain e where "node_entry block fixed kl vl (keys_from block) (values_until block) e = Some (k, v)"
    using assms by (auto simp: set_map_filter)
  then show ?thesis by (rule node_entry_Some)
qed

lemma takeWhile_upt_length:
  "(\<And>i. P i \<Longrightarrow> i < (m::nat)) \<Longrightarrow> length (takeWhile P [0..<n]) \<le> m"
proof -
  assume bound: "\<And>i. P i \<Longrightarrow> i < m"
  have "set (takeWhile P [0..<n]) \<subseteq> {..<m}" by (auto dest: set_takeWhileD bound)
  then have "card (set (takeWhile P [0..<n])) \<le> m"
    using card_mono [of "{..<m}" "set (takeWhile P [0..<n])"] by simp
  then show ?thesis by (simp add: distinct_card)
qed

lemma node_entries_length: "length (node_entries block st) \<le> min (length block div 4) 0x100000"
proof (cases "parse_node_header block")
  case (Some hdr)
  let ?nk = "unat (min (btn_nkeys hdr) MAX_BTN_NKEYS)"
  have cap: "?nk \<le> 0x100000"
    by (simp add: MAX_BTN_NKEYS_def min_def word_le_nat_alt)
  have slots: "length (takeWhile (\<lambda>i. \<not> (t + i * l + l > ka \<or> t + i * l + l > length block))
      [0..<?nk]) \<le> min (length block div 4) 0x100000" if "4 \<le> l" for t l ka
  proof -
    have "i < length block div 4" if "t + i * l + l \<le> length block" for i
    proof -
      have "4 * (i + 1) \<le> l * (i + 1)" using \<open>4 \<le> l\<close> by (rule mult_right_mono) simp
      then have "4 * (i + 1) \<le> length block" using that by (simp add: algebra_simps)
      then show ?thesis by arith
    qed
    then have "length (takeWhile (\<lambda>i. \<not> (t + i * l + l > ka \<or> t + i * l + l > length block)) [0..<?nk])
        \<le> length block div 4"
      by (intro takeWhile_upt_length) auto
    moreover have "length (takeWhile (\<lambda>i. \<not> (t + i * l + l > ka \<or> t + i * l + l > length block)) [0..<?nk])
        \<le> 0x100000"
      by (rule order_trans [OF length_takeWhile_le]) (use cap in simp)
    ultimately show ?thesis by simp
  qed
  show ?thesis
  proof (cases "?nk = 0")
    case False
    show ?thesis
      unfolding node_entries_def Some option.case Let_def if_not_P [OF False]
      by (rule order_trans [OF length_map_filter_le slots]) simp
  qed (simp add: node_entries_def Some)
qed (simp add: node_entries_def)

section \<open>The documented layout, and decoding what was laid out\<close>

text \<open>
  A node as the format documents it: object header, node header, table of contents, keys growing
  up, free space, values growing down from the end (from the footer in a root node).
\<close>

fun toc :: "bool \<Rightarrow> nat \<Rightarrow> nat \<Rightarrow> Entry list \<Rightarrow> bytes" where
  "toc fixed ko vo [] = []"
| "toc fixed ko vo ((k, v) # es) =
     to_le_bytes (word_of_nat ko :: u16) @
     (if fixed then to_le_bytes (word_of_nat (vo + length v) :: u16)
      else to_le_bytes (word_of_nat (length k) :: u16) @
           to_le_bytes (word_of_nat (vo + length v) :: u16) @
           to_le_bytes (word_of_nat (length v) :: u16)) @
     toc fixed (ko + length k) (vo + length v) es"

definition toc_entry_len :: "bool \<Rightarrow> nat" where "toc_entry_len fixed = (if fixed then 4 else 8)"
definition key_bytes :: "Entry list \<Rightarrow> bytes" where "key_bytes es = concat (map fst es)"
definition val_bytes :: "Entry list \<Rightarrow> bytes" where "val_bytes es = concat (rev (map snd es))"

definition node_image :: "bytes \<Rightarrow> u16 \<Rightarrow> u16 \<Rightarrow> Entry list \<Rightarrow> bytes \<Rightarrow> bytes \<Rightarrow> bytes" where
  "node_image obj flags level es free footer =
     (let fixed = flags AND BTNODE_FIXED_KV_SIZE \<noteq> 0 in
      obj @ to_le_bytes flags @ to_le_bytes level @ to_le_bytes (word_of_nat (length es) :: u32) @
      to_le_bytes (0 :: u16) @ to_le_bytes (word_of_nat (toc_entry_len fixed * length es) :: u16) @
      replicate 12 0 @ toc fixed 0 0 es @ key_bytes es @ free @ val_bytes es @ footer)"

definition layout_ok :: "BTreeSubtype \<Rightarrow> bytes \<Rightarrow> u16 \<Rightarrow> u16 \<Rightarrow> Entry list \<Rightarrow> bytes \<Rightarrow> bool" where
  "layout_ok st obj flags level es footer =
     (length obj = 32 \<and> length footer = (if flags AND BTNODE_ROOT \<noteq> 0 then 40 else 0) \<and>
      8 * length es < 2 ^ 16 \<and> length (key_bytes es) < 2 ^ 16 \<and> length (val_bytes es) < 2 ^ 16 \<and>
      (flags AND BTNODE_FIXED_KV_SIZE \<noteq> 0 \<longrightarrow>
         (\<forall>(k, v) \<in> set es. length k = fixed_key_len st \<and>
            length v = (if flags AND BTNODE_LEAF \<noteq> 0 \<or> level = 0 then fixed_leaf_val_len st
                        else fixed_branch_val_len st))))"

lemma bytes_append [simp]:
  "key_bytes (es @ es') = key_bytes es @ key_bytes es'"
  "val_bytes (es @ es') = val_bytes es' @ val_bytes es"
  "key_bytes ((k, v) # es) = k @ key_bytes es"
  "val_bytes ((k, v) # es) = val_bytes es @ v"
  "key_bytes [] = []" "val_bytes [] = []"
  by (simp_all add: key_bytes_def val_bytes_def)

lemma length_toc [simp]: "length (toc fixed ko vo es) = toc_entry_len fixed * length es"
  by (induction es arbitrary: ko vo) (auto simp: toc_entry_len_def)

lemma toc_append:
  "toc fixed ko vo (es @ es') =
     toc fixed ko vo es @ toc fixed (ko + length (key_bytes es)) (vo + length (val_bytes es)) es'"
  by (induction es arbitrary: ko vo) (auto simp: add.assoc add.commute add.left_commute)

lemma unat_word_of_nat_u16: "n < 2 ^ 16 \<Longrightarrow> unat (word_of_nat n :: u16) = n"
  by (simp add: unat_of_nat)

lemma node_header_image:
  assumes "length obj = 32" and "8 * length es < 2 ^ 16"
    and blk: "blk = node_image obj flags level es free footer"
  shows "parse_node_header blk =
      Some \<lparr>btn_flags = flags, btn_level = level, btn_nkeys = word_of_nat (length es)\<rparr>"
    and "le_u16 blk 40 = 0"
    and "le_u16 blk 42 = word_of_nat (toc_entry_len (flags AND BTNODE_FIXED_KV_SIZE \<noteq> 0) * length es)"
  using assms(1)
  by (simp_all add: blk node_image_def Let_def parse_node_header_def BTN_DATA_OFF_def slice_simps)

text \<open>A slot read back: the entry between \<open>as\<close> and \<open>bs\<close> in the laid-out node.\<close>

lemma node_entry_image:
  assumes ok: "layout_ok st obj flags level (as @ (k, v) # bs) footer"
    and blk: "blk = node_image obj flags level (as @ (k, v) # bs) free footer"
    and fx: "fx \<longleftrightarrow> flags AND BTNODE_FIXED_KV_SIZE \<noteq> 0"
    and lens: "fx \<Longrightarrow> kl = length k \<and> vl = length v"
    and vb: "vb = length blk - length footer"
  shows "node_entry blk fx kl vl (56 + toc_entry_len fx * length (as @ (k, v) # bs)) vb
    (56 + length as * toc_entry_len fx) = Some (k, v)"
proof -
  define pre where "pre = obj @ to_le_bytes flags @ to_le_bytes level @
    to_le_bytes (word_of_nat (length (as @ (k, v) # bs)) :: u32) @ to_le_bytes (0 :: u16) @
    to_le_bytes (word_of_nat (toc_entry_len fx * length (as @ (k, v) # bs)) :: u16) @
    (replicate 12 0 :: bytes) @ toc fx 0 0 as"
  define slot where "slot = to_le_bytes (word_of_nat (length (key_bytes as)) :: u16) @
     (if fx then to_le_bytes (word_of_nat (length (val_bytes as) + length v) :: u16)
      else to_le_bytes (word_of_nat (length k) :: u16) @
           to_le_bytes (word_of_nat (length (val_bytes as) + length v) :: u16) @
           to_le_bytes (word_of_nat (length v) :: u16))"
  define mid where "mid = toc fx (length (key_bytes as) + length k) (length (val_bytes as) + length v) bs @
    key_bytes as"
  define rest where "rest = key_bytes bs @ free @ val_bytes bs"
  have split: "blk = pre @ slot @ mid @ k @ rest @ v @ val_bytes as @ footer"
    by (simp add: blk node_image_def Let_def fx [symmetric] toc_append pre_def slot_def mid_def rest_def)
  have lpre: "length pre = 56 + length as * toc_entry_len fx"
    using ok by (simp add: pre_def layout_ok_def)
  have lslot: "length slot = toc_entry_len fx" by (simp add: slot_def toc_entry_len_def)
  have lmid: "length mid = toc_entry_len fx * length bs + length (key_bytes as)" by (simp add: mid_def)
  have small: "length (key_bytes as) < 2 ^ 16" "length k < 2 ^ 16" "length v < 2 ^ 16"
    "length (val_bytes as) + length v < 2 ^ 16"
    using ok by (auto simp: layout_ok_def)
  have u16: "le_u16 blk (length pre + n) = le_u16 slot n" if "n + 2 \<le> length slot" for n
    using that by (simp add: split slice_simps)
  have koff: "unat (le_u16 blk (length pre)) = length (key_bytes as)"
    using u16 [of 0] small by (simp add: slot_def toc_entry_len_def slice_simps unat_word_of_nat_u16)
  define vo :: u16 where "vo = word_of_nat (length (val_bytes as) + length v)"
  have voff: "unat (le_u16 blk (length pre + (if fx then 2 else 4))) = length (val_bytes as) + length v"
    using u16 [of "if fx then 2 else 4"] small le_to_le_bytes(1) [of vo "[]"]
    by (simp add: lslot slot_def toc_entry_len_def slice_simps vo_def unat_word_of_nat_u16
        del: of_nat_add split: if_splits)
  have klen: "\<not> fx \<Longrightarrow> unat (le_u16 blk (length pre + 2)) = length k"
    using u16 [of 2] small by (simp add: lslot slot_def toc_entry_len_def slice_simps unat_word_of_nat_u16)
  have vlen: "\<not> fx \<Longrightarrow> unat (le_u16 blk (length pre + 6)) = length v"
    using u16 [of 6] small le_to_le_bytes(1) [of "word_of_nat (length v)" "[]"]
    by (simp add: lslot slot_def toc_entry_len_def slice_simps unat_word_of_nat_u16)
  let ?ks = "length (pre @ slot @ mid)"
  have key: "get_range blk ?ks (?ks + length k) = Some k"
    unfolding split by (simp add: get_range_def)
  let ?vs = "length (pre @ slot @ mid @ k @ rest)"
  have val: "get_range blk ?vs (?vs + length v) = Some v"
    unfolding split by (simp add: get_range_def)
  have vbase: "vb = ?vs + (length (val_bytes as) + length v)" by (simp add: vb split)
  have ks: "56 + toc_entry_len fx * length (as @ (k, v) # bs) + length (key_bytes as) = ?ks"
    by (simp add: lpre lslot lmid algebra_simps)
  show ?thesis
    unfolding lpre [symmetric] node_entry_def Let_def
    using koff voff klen vlen key val lens ks by (cases fx) (simp_all add: vbase)
qed

lemma map_filter_nth:
  assumes "\<And>i. i < length ys \<Longrightarrow> f i = Some (ys ! i)"
  shows "List.map_filter f [0..<length ys] = ys"
proof -
  have "List.map_filter f [0..<length ys] = map (\<lambda>i. ys ! i) [0..<length ys]"
    unfolding List.map_filter_def using assms by (auto simp: comp_def cong: map_cong)
  then show ?thesis by (simp add: map_nth)
qed

text \<open>The decoder gives back the records of every laid-out node, fixed or variable, root or not.\<close>

lemma node_entries_image:
  assumes ok: "layout_ok st obj flags level es footer"
  shows "node_entries (node_image obj flags level es free footer) st = es"
proof (cases "es = []")
  case True
  then show ?thesis
    using ok node_header_image(1) [of obj es _ flags level free footer]
    by (simp add: node_entries_def layout_ok_def MAX_BTN_NKEYS_def)
next
  case False
  define blk where "blk = node_image obj flags level es free footer"
  define fx where "fx \<longleftrightarrow> flags AND BTNODE_FIXED_KV_SIZE \<noteq> 0"
  have len: "length obj = 32" "8 * length es < 2 ^ 16" using ok by (simp_all add: layout_ok_def)
  note hdr = node_header_image [OF len blk_def, folded fx_def]
  have elen: "toc_entry_len fx \<le> 8" "0 < toc_entry_len fx" by (simp_all add: toc_entry_len_def)
  then have "toc_entry_len fx * length es < 2 ^ 16"
    using len(2) mult_right_mono [of "toc_entry_len fx" 8 "length es"] by linarith
  then have toc_len: "unat (le_u16 blk 42) = toc_entry_len fx * length es"
    unfolding hdr(3) by (rule unat_word_of_nat_u16)
  have nk: "unat (min (word_of_nat (length es) :: u32) MAX_BTN_NKEYS) = length es"
    using len(2) by (simp add: MAX_BTN_NKEYS_def min_def word_le_nat_alt unat_of_nat)
  have lblk: "length blk = 56 + toc_entry_len fx * length es + length (key_bytes es) + length free +
      length (val_bytes es) + length footer"
    using len by (simp add: blk_def node_image_def Let_def fx_def)
  define kl where "kl = fixed_key_len st"
  define vl where "vl = (if flags AND BTNODE_LEAF \<noteq> 0 \<or> level = 0 then fixed_leaf_val_len st
                        else fixed_branch_val_len st)"
  define vb where "vb = length blk - length footer"
  have slots: "node_entry blk fx kl vl (56 + toc_entry_len fx * length es) vb
      (56 + i * toc_entry_len fx) = Some (es ! i)" if i: "i < length es" for i
  proof -
    obtain k v where kv: "es ! i = (k, v)" by fastforce
    have es: "es = take i es @ (k, v) # drop (Suc i) es"
      using id_take_nth_drop [OF i] kv by simp
    have "fx \<Longrightarrow> kl = length k \<and> vl = length v"
      using ok nth_mem [OF i] by (auto simp: layout_ok_def fx_def kl_def vl_def kv)
    then show ?thesis
      using node_entry_image [of st obj flags level "take i es" k v "drop (Suc i) es" footer blk free
          fx kl vl vb] ok es i
      by (simp add: blk_def [symmetric] fx_def [symmetric] vb_def kv)
  qed
  have fits: "56 + i * toc_entry_len fx + toc_entry_len fx \<le> 56 + toc_entry_len fx * length es"
    if "i < length es" for i
    using mult_right_mono [of "i + 1" "length es" "toc_entry_len fx"] that by (simp add: algebra_simps)
  have whole: "takeWhile (\<lambda>i. \<not> (56 + i * toc_entry_len fx + toc_entry_len fx > 56 + toc_entry_len fx * length es \<or>
      56 + i * toc_entry_len fx + toc_entry_len fx > length blk)) [0..<length es] = [0..<length es]"
    using fits lblk by (subst takeWhile_eq_all_conv) fastforce
  have space: "OFF_BTN_TABLE_SPACE = 40" "40 + 2 = (42 :: nat)" by simp_all
  have vbase: "(if flags AND BTNODE_ROOT \<noteq> 0 then length blk - BTREE_INFO_LEN else length blk) = vb"
    using ok by (simp add: vb_def layout_ok_def BTREE_INFO_LEN_def)
  have "node_entries blk st = List.map_filter (\<lambda>i. node_entry blk fx kl vl
      (56 + toc_entry_len fx * length es) vb (56 + i * toc_entry_len fx)) [0..<length es]"
    unfolding node_entries_def hdr(1,2) option.case Let_def BTreeNodeHeader.simps nk space TOC_FIXED_LEN_def
      TOC_VAR_LEN_def toc_len
      is_leaf_def is_root_def is_fixed_kv_def fx_def [symmetric] toc_entry_len_def [symmetric] BTN_DATA_OFF_def
      kl_def [symmetric] vl_def [symmetric] vbase unsigned_0 add_0_right whole
    using False by simp
  then show ?thesis using map_filter_nth [of es, OF slots] by (simp add: blk_def)
qed

text \<open>Sealing a laid-out node only changes its object header.\<close>

lemma seal_node_image:
  "length obj = 32 \<Longrightarrow> seal (node_image obj flags level es free footer) =
     node_image (to_le_bytes (fletcher64_checksum (node_image obj flags level es free footer)) @ drop 8 obj)
       flags level es free footer"
  by (simp add: seal_def node_image_def Let_def)

lemma sealed_node:
  assumes "layout_ok st obj flags level es footer"
  shows "node_entries (seal (node_image obj flags level es free footer)) st = es"
    and "parse_node_header (seal (node_image obj flags level es free footer)) =
      Some \<lparr>btn_flags = flags, btn_level = level, btn_nkeys = word_of_nat (length es)\<rparr>"
    and "cksum_ok (seal (node_image obj flags level es free footer))"
proof -
  have len: "length obj = 32" "8 * length es < 2 ^ 16" using assms by (simp_all add: layout_ok_def)
  let ?obj = "to_le_bytes (fletcher64_checksum (node_image obj flags level es free footer)) @ drop 8 obj"
  have len': "length ?obj = 32" using len by simp
  then have "layout_ok st ?obj flags level es footer"
    using assms by (simp add: layout_ok_def)
  then show "node_entries (seal (node_image obj flags level es free footer)) st = es"
    unfolding seal_node_image [OF len(1)] by (rule node_entries_image)
  show "parse_node_header (seal (node_image obj flags level es free footer)) =
      Some \<lparr>btn_flags = flags, btn_level = level, btn_nkeys = word_of_nat (length es)\<rparr>"
    unfolding seal_node_image [OF len(1)] by (rule node_header_image(1) [OF len' len(2) refl])
  show "cksum_ok (seal (node_image obj flags level es free footer))"
    using len(1) by (intro seal_cksum_ok) (simp add: node_image_def Let_def)
qed

text \<open>A sealed node of a given block size.\<close>

definition node_footer :: "u16 \<Rightarrow> bytes" where
  "node_footer flags = (if flags AND BTNODE_ROOT \<noteq> 0 then replicate 40 0 else [])"

definition node_used :: "u16 \<Rightarrow> Entry list \<Rightarrow> nat" where
  "node_used flags es = 56 + toc_entry_len (flags AND BTNODE_FIXED_KV_SIZE \<noteq> 0) * length es +
     length (key_bytes es) + length (val_bytes es) + length (node_footer flags)"

definition node_block :: "usize \<Rightarrow> bytes \<Rightarrow> u16 \<Rightarrow> u16 \<Rightarrow> Entry list \<Rightarrow> bytes" where
  "node_block bs obj flags level es =
     seal (node_image obj flags level es (replicate (bs - node_used flags es) 0) (node_footer flags))"

lemma length_node_block:
  "length obj = 32 \<Longrightarrow> node_used flags es \<le> bs \<Longrightarrow> length (node_block bs obj flags level es) = bs"
  by (subst node_block_def, subst length_seal) (auto simp: node_image_def Let_def node_used_def)

lemma node_block_cksum_ok: "length obj = 32 \<Longrightarrow> cksum_ok (node_block bs obj flags level es)"
  unfolding node_block_def by (rule seal_cksum_ok) (simp add: node_image_def Let_def)

section \<open>Properties\<close>

text \<open>
  C11 (round trip): for every list of records, decoding a node laid out as the format documents
  (fixed or variable key/value sizes, root or not, leaf or index, any free space between keys and
  values) gives back exactly those records, in order.
\<close>

theorem node_entries_roundtrip:
  assumes "layout_ok st obj flags level es footer"
  shows "node_entries (node_image obj flags level es free footer) st = es"
  using assms by (rule node_entries_image)

theorem node_entries_roundtrip_witness:
  "node_entries (node_image (replicate 32 0) 0x3 0 [([1, 2, 3], [4]), ([5], [6, 7])] [9, 9, 9] (replicate 40 0)) FsTree
     = [([1, 2, 3], [4]), ([5], [6, 7])]"
  by (rule node_entries_roundtrip)
    (simp add: layout_ok_def BTNODE_ROOT_def BTNODE_FIXED_KV_SIZE_def)

text \<open>
  C33 (bounds): on any block whatever, the table-of-contents decoder hands out only keys and values that are
  sub-slices of the block lying wholly inside it. Keys never begin before the end of the table of
  contents, so they are outside the node header; values begin nowhere past the footer of a root node, but
  a hostile value offset can place one anywhere before it. There is at most one entry per four bytes of
  the block, and at most the cap of keys.
\<close>

theorem node_entries_in_bounds:
  "length (node_entries block st) \<le> min (length block div 4) 0x100000 \<and>
   (\<forall>(k, v) \<in> set (node_entries block st).
      (\<exists>a. keys_from block \<le> a \<and> 56 \<le> a \<and> a + length k \<le> length block \<and> k = take (length k) (drop a block)) \<and>
      (\<exists>c. c \<le> values_until block \<and> c + length v \<le> length block \<and> v = take (length v) (drop c block)))"
proof (intro conjI ballI)
  show "length (node_entries block st) \<le> min (length block div 4) 0x100000"
    by (rule node_entries_length)
next
  fix e
  assume "e \<in> set (node_entries block st)"
  moreover obtain k v where "e = (k, v)" by fastforce
  moreover have "56 \<le> keys_from block" by (simp add: keys_from_def)
  ultimately show "case e of (k, v) \<Rightarrow>
      (\<exists>a. keys_from block \<le> a \<and> 56 \<le> a \<and> a + length k \<le> length block \<and> k = take (length k) (drop a block)) \<and>
      (\<exists>c. c \<le> values_until block \<and> c + length v \<le> length block \<and> v = take (length v) (drop c block))"
    using node_entries_slice [of k v block st] by (fastforce simp: get_range_Some_iff)
qed

theorem node_entries_in_bounds_witness:
  "\<exists>a. 64 \<le> a \<and> a + 2 \<le> (107::nat) \<and>
     [1, 2] = take 2 (drop a (node_image (replicate 32 0) 0x3 0 [([1, 2], [4])] [] (replicate 40 0)))"
proof -
  let ?b = "node_image (replicate 32 0) 0x3 0 [([1, 2], [4])] [] (replicate 40 0)"
  have es: "node_entries ?b FsTree = [([1, 2], [4])]"
    by (rule node_entries_image) (simp add: layout_ok_def BTNODE_ROOT_def BTNODE_FIXED_KV_SIZE_def)
  have "length ?b = 107" "keys_from ?b = 64"
    by (simp_all add: node_image_def Let_def toc_entry_len_def BTNODE_FIXED_KV_SIZE_def keys_from_def slice_simps)
  then show ?thesis using node_entries_in_bounds [of ?b FsTree] by (simp add: es numeral_2_eq_2) blast
qed

end
