(* ===== verification/Tree_Walk.thy ===== *)
theory Tree_Walk
  imports Btree_Node
begin

text \<open>
  The recursion the three guarded tree walks of the crate share, as the locale \<open>tree_walk\<close>
  (\<^verbatim>\<open>descend\<close> of \<^verbatim>\<open>btree.rs\<close>, \<^verbatim>\<open>descend_virtual\<close> of \<^verbatim>\<open>dir.rs\<close>, \<^verbatim>\<open>descend_snap\<close> of
  \<^verbatim>\<open>snapshot.rs\<close>), and abstract trees stored on a source. What holds of all walks is proved
  once here: on a stored tree the walk visits exactly the kept leaf entries in key order; on any
  source whatever it ends, panics only if a node read panics, and fails only with a cycle guard or
  the error of a node read.
\<close>

section \<open>Visitors and children\<close>

datatype ordering = Less | Equal | Greater

text \<open>The loop of \<^verbatim>\<open>find_leaf\<close> over an index node: the last child not ordered after the target.\<close>

fun select_child :: "(bytes \<Rightarrow> ordering) \<Rightarrow> 'v \<Rightarrow> (bytes \<times> 'v) list \<Rightarrow> 'v" where
  "select_child cmp child [] = child"
| "select_child cmp child ((key, c) # es) =
     (if cmp key = Greater then child else select_child cmp c es)"

definition branches :: "Entry list \<Rightarrow> (bytes \<times> u64) list" where
  "branches es = map (\<lambda>(key, value). (key, le_u64 value 0)) es"

definition visit_all :: "(bytes \<Rightarrow> bytes \<Rightarrow> 's \<Rightarrow> 's) \<Rightarrow> Entry list \<Rightarrow> 's \<Rightarrow> 's" where
  "visit_all visit es s = fold (\<lambda>(key, value). visit key value) es s"

lemma visit_all_simps [simp]:
  "visit_all visit [] s = s"
  "visit_all visit ((k, v) # es) s = visit_all visit es (visit k v s)"
  "visit_all visit (es @ es') s = visit_all visit es' (visit_all visit es s)"
  by (simp_all add: visit_all_def)

text \<open>A visitor that ignores some entries need not see them.\<close>

lemma visit_all_filter:
  "(\<And>k v s. \<not> P k \<Longrightarrow> visit k v s = s) \<Longrightarrow>
     visit_all visit (filter (\<lambda>e. P (fst e)) es) s = visit_all visit es s"
  by (induction es arbitrary: s) (auto simp: visit_all_def)

text \<open>The children of an index node that a walk descends: \<open>keep\<close> sees a separator and the next one.\<close>

fun next_key :: "(bytes \<times> 'v) list \<Rightarrow> bytes option" where
  "next_key [] = None"
| "next_key ((key, v) # es) = Some key"

fun kept :: "(bytes \<Rightarrow> bytes option \<Rightarrow> bool) \<Rightarrow> (bytes \<times> 'v) list \<Rightarrow> 'v list" where
  "kept keep [] = []"
| "kept keep ((key, v) # es) = (if keep key (next_key es) then v # kept keep es else kept keep es)"

lemma kept_all: "kept (\<lambda>_ _. True) es = map snd es"
  by (induction es) auto

lemma kept_branches: "kept (\<lambda>_ _. True) (branches es) = map (\<lambda>e. le_u64 (snd e) 0) es"
  by (simp add: kept_all branches_def case_prod_beta comp_def)

section \<open>Abstract trees\<close>

text \<open>A tree of nodes with their addresses: leaves hold entries, index nodes separators.\<close>

datatype ptree = PLeaf u64 "Entry list" | PNode u64 "(bytes \<times> ptree) list"

fun root :: "ptree \<Rightarrow> u64" where
  "root (PLeaf a es) = a"
| "root (PNode a cs) = a"

fun height :: "ptree \<Rightarrow> nat" and heights :: "(bytes \<times> ptree) list \<Rightarrow> nat" where
  "height (PLeaf a es) = 1"
| "height (PNode a cs) = Suc (heights cs)"
| "heights [] = 0"
| "heights ((k, t) # cs) = max (height t) (heights cs)"

text \<open>The entries and the addresses a walk with the given \<open>keep\<close> meets, in order.\<close>

fun entries :: "(bytes \<Rightarrow> bytes option \<Rightarrow> bool) \<Rightarrow> ptree \<Rightarrow> Entry list"
and entries_of :: "(bytes \<Rightarrow> bytes option \<Rightarrow> bool) \<Rightarrow> (bytes \<times> ptree) list \<Rightarrow> Entry list" where
  "entries keep (PLeaf a es) = es"
| "entries keep (PNode a cs) = entries_of keep cs"
| "entries_of keep [] = []"
| "entries_of keep ((k, t) # cs) =
     (if keep k (next_key cs) then entries keep t else []) @ entries_of keep cs"

text \<open>The addresses of the nodes such a walk reads, in order.\<close>

fun met :: "(bytes \<Rightarrow> bytes option \<Rightarrow> bool) \<Rightarrow> ptree \<Rightarrow> u64 list"
and met_of :: "(bytes \<Rightarrow> bytes option \<Rightarrow> bool) \<Rightarrow> (bytes \<times> ptree) list \<Rightarrow> u64 list" where
  "met keep (PLeaf a es) = [a]"
| "met keep (PNode a cs) = a # met_of keep cs"
| "met_of keep [] = []"
| "met_of keep ((k, t) # cs) = (if keep k (next_key cs) then met keep t else []) @ met_of keep cs"

fun addrs :: "ptree \<Rightarrow> u64 list" and addrs_of :: "(bytes \<times> ptree) list \<Rightarrow> u64 list" where
  "addrs (PLeaf a es) = [a]"
| "addrs (PNode a cs) = a # addrs_of cs"
| "addrs_of [] = []"
| "addrs_of ((k, t) # cs) = addrs t @ addrs_of cs"

abbreviation all_entries :: "ptree \<Rightarrow> Entry list" where
  "all_entries \<equiv> entries (\<lambda>_ _. True)"

abbreviation all_entries_of :: "(bytes \<times> ptree) list \<Rightarrow> Entry list" where
  "all_entries_of \<equiv> entries_of (\<lambda>_ _. True)"

lemma met_addrs: "set (met keep t) \<subseteq> set (addrs t)" "set (met_of keep cs) \<subseteq> set (addrs_of cs)"
  by (induction t and cs rule: addrs_addrs_of.induct) auto

text \<open>The tree is what the node reads of \<open>fetch\<close> give, node by node.\<close>

fun stored :: "(u64 \<Rightarrow> bytes option res) \<Rightarrow> BTreeSubtype \<Rightarrow> ptree \<Rightarrow> bool"
and stored_all :: "(u64 \<Rightarrow> bytes option res) \<Rightarrow> BTreeSubtype \<Rightarrow> (bytes \<times> ptree) list \<Rightarrow> bool" where
  "stored fetch st (PLeaf a es) =
     (\<exists>buf hdr. fetch a = Ok (Some buf) \<and> parse_node_header buf = Some hdr \<and> is_leaf hdr \<and>
        node_entries buf st = es)"
| "stored fetch st (PNode a cs) =
     ((\<exists>buf hdr. fetch a = Ok (Some buf) \<and> parse_node_header buf = Some hdr \<and> \<not> is_leaf hdr \<and>
        branches (node_entries buf st) = map (\<lambda>(k, t). (k, root t)) cs) \<and> stored_all fetch st cs)"
| "stored_all fetch st [] = True"
| "stored_all fetch st ((k, t) # cs) = (stored fetch st t \<and> stored_all fetch st cs)"

lemma stored_cong:
  "(\<And>a. a \<in> set (addrs t) \<Longrightarrow> f a = g a) \<Longrightarrow> stored f st t \<longleftrightarrow> stored g st t"
  "(\<And>a. a \<in> set (addrs_of cs) \<Longrightarrow> f a = g a) \<Longrightarrow> stored_all f st cs \<longleftrightarrow> stored_all g st cs"
  by (induction t and cs rule: addrs_addrs_of.induct) auto

lemma next_key_map [simp]: "next_key (map (\<lambda>(k, t). (k, f t)) cs) = next_key cs"
  by (cases cs) auto

text \<open>A sealed, laid-out node holds a leaf or an index node of an abstract tree.\<close>

lemma stored_leaf:
  assumes "fetch a = Ok (Some (seal (node_image obj flags level es free footer)))"
    and "layout_ok st obj flags level es footer" and "flags AND BTNODE_LEAF \<noteq> 0 \<or> level = 0"
  shows "stored fetch st (PLeaf a es)"
  using assms by (simp add: sealed_node is_leaf_def)

lemma stored_index:
  assumes "fetch a = Ok (Some (seal (node_image obj flags level es free footer)))"
    and "layout_ok st obj flags level es footer" and "flags AND BTNODE_LEAF = 0" and "level \<noteq> 0"
    and "es = map (\<lambda>(k, t). (k, to_le_bytes (root t))) cs" and "stored_all fetch st cs"
  shows "stored fetch st (PNode a cs)"
proof -
  have "branches es = map (\<lambda>(k, t). (k, root t)) cs"
    using le_to_le_bytes(3) [of _ "[]"] by (auto simp: branches_def assms(5))
  then show ?thesis using assms by (simp add: sealed_node is_leaf_def)
qed

section \<open>The shared recursion\<close>

locale tree_walk =
  fixes fetch :: "u64 \<Rightarrow> bytes option res"
    and st :: BTreeSubtype
    and keep :: "bytes \<Rightarrow> bytes option \<Rightarrow> bool"
    and visit :: "bytes \<Rightarrow> bytes \<Rightarrow> 's \<Rightarrow> 's"
    and walk :: "nat \<Rightarrow> u64 \<Rightarrow> u64 set \<Rightarrow> 's \<Rightarrow> ('s \<times> u64 set) res"
    and walks :: "nat \<Rightarrow> u64 list \<Rightarrow> u64 set \<Rightarrow> 's \<Rightarrow> ('s \<times> u64 set) res"
  assumes walk_guard: "64 \<le> d \<or> a \<in> V \<Longrightarrow> walk d a V s = Err (CycleGuard 64)"
    and walk_step: "d < 64 \<Longrightarrow> a \<notin> V \<Longrightarrow> walk d a V s =
      and_then (fetch a) (\<lambda>node. case node of None \<Rightarrow> Ok (s, insert a V)
        | Some buf \<Rightarrow> (case parse_node_header buf of None \<Rightarrow> Ok (s, insert a V)
          | Some hdr \<Rightarrow> if is_leaf hdr then Ok (visit_all visit (node_entries buf st) s, insert a V)
              else walks (Suc d) (kept keep (branches (node_entries buf st))) (insert a V) s))"
    and walks_Nil: "walks d [] V s = Ok (s, V)"
    and walks_Cons: "walks d (c # cs) V s =
      and_then (walk d c V s) (\<lambda>(s', V'). walks d cs V' s')"
begin

text \<open>On a stored tree: exactly the kept entries, in order, reading exactly the kept nodes.\<close>

lemma walk_stored:
  "stored fetch st t \<Longrightarrow> d + height t \<le> 64 \<Longrightarrow> distinct (addrs t) \<Longrightarrow> V \<inter> set (addrs t) = {} \<Longrightarrow>
     walk d (root t) V s = Ok (visit_all visit (entries keep t) s, V \<union> set (met keep t))"
  and walks_stored:
  "stored_all fetch st cs \<Longrightarrow> d + heights cs \<le> 64 \<Longrightarrow> distinct (addrs_of cs) \<Longrightarrow>
     V \<inter> set (addrs_of cs) = {} \<Longrightarrow>
     walks d (kept keep (map (\<lambda>(k, t). (k, root t)) cs)) V s =
       Ok (visit_all visit (entries_of keep cs) s, V \<union> set (met_of keep cs))"
proof (induction t and cs arbitrary: d V s and d V s rule: height_heights.induct)
  case (1 a es)
  then show ?case by (auto simp: walk_step)
next
  case (2 a cs)
  then obtain buf hdr where node: "fetch a = Ok (Some buf)" "parse_node_header buf = Some hdr"
    "\<not> is_leaf hdr" "branches (node_entries buf st) = map (\<lambda>(k, t). (k, root t)) cs"
    by auto
  have "walks (Suc d) (kept keep (map (\<lambda>(k, t). (k, root t)) cs)) (insert a V) s =
      Ok (visit_all visit (entries_of keep cs) s, insert a V \<union> set (met_of keep cs))"
    using "2.prems" by (intro "2.IH") auto
  with node "2.prems" show ?case by (auto simp: walk_step)
next
  case 3
  then show ?case by (simp add: walks_Nil)
next
  case (4 k t cs)
  have pre: "d + height t \<le> 64" "d + heights cs \<le> 64" "V \<inter> set (addrs t) = {}"
    "V \<inter> set (addrs_of cs) = {}" "distinct (addrs t)" "distinct (addrs_of cs)"
    "set (addrs t) \<inter> set (addrs_of cs) = {}" "stored fetch st t" "stored_all fetch st cs"
    using "4.prems" by auto
  show ?case
  proof (cases "keep k (next_key cs)")
    case True
    have "walk d (root t) V s = Ok (visit_all visit (entries keep t) s, V \<union> set (met keep t))"
      using "4.IH"(1) [of d V s] pre by simp
    moreover have "walks d (kept keep (map (\<lambda>(k, t). (k, root t)) cs)) (V \<union> set (met keep t))
        (visit_all visit (entries keep t) s) =
      Ok (visit_all visit (entries_of keep cs) (visit_all visit (entries keep t) s),
        (V \<union> set (met keep t)) \<union> set (met_of keep cs))"
      using pre met_addrs(1) [of keep t] by (intro "4.IH"(2)) auto
    ultimately show ?thesis using True by (simp add: walks_Cons Un_assoc)
  next
    case False
    with "4.IH"(2) [of d V s] pre show ?thesis by simp
  qed
qed

text \<open>On any source: what the visitor keeps true of its state holds of the result.\<close>

lemma walk_invariant:
  assumes keep_inv: "\<And>k v s. P s \<Longrightarrow> P (visit k v s)"
  shows "P s \<Longrightarrow> walk d a V s = Ok (s', V') \<Longrightarrow> P s'"
    and "P s \<Longrightarrow> walks d cs V s = Ok (s', V') \<Longrightarrow> P s'"
proof -
  have all: "P (visit_all visit es s)" if "P s" for es s
    using that by (induction es arbitrary: s) (auto simp: visit_all_def keep_inv)
  have lift: "P s \<Longrightarrow> walks d cs V s = Ok (s', V') \<Longrightarrow> P s'"
    if "\<And>a V s s' V'. P s \<Longrightarrow> walk d a V s = Ok (s', V') \<Longrightarrow> P s'" for d cs V s s' V'
  proof (induction cs arbitrary: V s)
    case (Cons c cs)
    from Cons.prems(2) obtain s1 V1 where "walk d c V s = Ok (s1, V1)" "walks d cs V1 s1 = Ok (s', V')"
      by (auto simp: walks_Cons res_simps)
    then show ?case using that Cons.prems(1) Cons.IH by blast
  qed (simp add: walks_Nil)
  have walk: "P s \<Longrightarrow> walk d a V s = Ok (s', V') \<Longrightarrow> P s'" if "64 \<le> d + n" for n d a V s s' V'
    using that
  proof (induction n arbitrary: d a V s s' V')
    case 0
    then show ?case by (simp add: walk_guard)
  next
    case (Suc n)
    show ?case
    proof (cases "64 \<le> d \<or> a \<in> V")
      case True
      then show ?thesis using Suc.prems by (simp add: walk_guard)
    next
      case False
      have "64 \<le> Suc d + n" using Suc.prems(3) by simp
      then have "P t \<Longrightarrow> walks (Suc d) cs W t = Ok (s', V') \<Longrightarrow> P s'" for cs W t
        using lift [where d = "Suc d"] Suc.IH [where d = "Suc d"] by blast
      then show ?thesis
        using Suc.prems(1,2) False all
        by (cases "fetch a") (auto simp: walk_step split: option.split_asm if_split_asm)
    qed
  qed
  show "P s \<Longrightarrow> walk d a V s = Ok (s', V') \<Longrightarrow> P s'" using walk [where d = d and n = 64] by simp
  show "P s \<Longrightarrow> walks d cs V s = Ok (s', V') \<Longrightarrow> P s'" using lift walk [where d = d and n = 64] by (meson le_add2)
qed

text \<open>On any source: the only errors are the cycle guard and the errors of node reads.\<close>

lemma walk_outcome:
  "(walk d a V s = Panic \<longrightarrow> (\<exists>b. fetch b = Panic)) \<and>
   (walk d a V s = Err e \<longrightarrow> e = CycleGuard 64 \<or> (\<exists>b. fetch b = Err e))"
  and walks_outcome:
  "(walks d cs V s = Panic \<longrightarrow> (\<exists>b. fetch b = Panic)) \<and>
   (walks d cs V s = Err e \<longrightarrow> e = CycleGuard 64 \<or> (\<exists>b. fetch b = Err e))"
proof -
  let ?P = "\<lambda>r. (r = Panic \<longrightarrow> (\<exists>b. fetch b = Panic)) \<and>
    (r = Err e \<longrightarrow> e = CycleGuard 64 \<or> (\<exists>b. fetch b = Err e))"
  have lift: "\<forall>V s. ?P (walks d cs V s)" if "\<forall>a V s. ?P (walk d a V s)" for d cs
    by (induction cs) (use that in \<open>auto simp: walks_Nil walks_Cons res_simps split: prod.splits\<close>)
  have "\<forall>a V s. ?P (walk d a V s)" if "64 \<le> d + n" for n d
    using that
  proof (induction n arbitrary: d)
    case 0
    then show ?case by (simp add: walk_guard)
  next
    case (Suc n)
    have "\<forall>V s. ?P (walks (Suc d) cs V s)" for cs
      using Suc.prems by (intro lift Suc.IH) simp
    then have step: "?P (walk d a V s)" if "d < 64" "a \<notin> V" for a V s
      using that by (cases "fetch a") (auto simp: walk_step split: option.splits)
    show ?case
    proof (intro allI)
      fix a V s
      show "?P (walk d a V s)"
        using step [of a V s] walk_guard [of d a V s] by (cases "64 \<le> d \<or> a \<in> V") auto
    qed
  qed
  from this [of d 64] show "?P (walk d a V s)" by simp
  from lift [of d cs] \<open>\<And>n d. 64 \<le> d + n \<Longrightarrow> \<forall>a V s. ?P (walk d a V s)\<close> [of d 64]
  show "?P (walks d cs V s)" by simp
qed

text \<open>
  Two sources: where the second gives the same nodes or refuses them, a walk of it gives the same
  outcome or refuses.
\<close>

lemma walk_same_unless:
  assumes other: "tree_walk fetch' st keep visit walk' walks'" and nodes: "\<And>a. same_unless P (fetch a) (fetch' a)"
  shows "same_unless P (walk d a V s) (walk' d a V s)" and "same_unless P (walks d cs V s) (walks' d cs V s)"
proof -
  have lift: "\<forall>V s. same_unless P (walks d cs V s) (walks' d cs V s)"
    if "\<forall>a V s. same_unless P (walk d a V s) (walk' d a V s)" for d cs
    by (induction cs)
      (use that in \<open>auto simp: walks_Nil walks_Cons tree_walk.walks_Nil [OF other] tree_walk.walks_Cons [OF other]
         intro!: same_unless_and_then split: prod.split\<close>)
  have walk: "\<forall>a V s. same_unless P (walk d a V s) (walk' d a V s)" if "64 \<le> d + n" for n d
    using that
  proof (induction n arbitrary: d)
    case 0
    then show ?case by (simp add: walk_guard tree_walk.walk_guard [OF other])
  next
    case (Suc n)
    have below: "same_unless P (walks (Suc d) cs V s) (walks' (Suc d) cs V s)" for cs V s
      using lift [OF Suc.IH [of "Suc d"]] Suc.prems by simp
    show ?case
    proof (intro allI)
      fix a V s
      show "same_unless P (walk d a V s) (walk' d a V s)"
      proof (cases "64 \<le> d \<or> a \<in> V")
        case False
        then show ?thesis
          by (auto simp: walk_step tree_walk.walk_step [OF other] below
              intro!: same_unless_and_then nodes split: option.split)
      qed (simp add: walk_guard tree_walk.walk_guard [OF other])
    qed
  qed
  from walk [of d 64] show "same_unless P (walk d a V s) (walk' d a V s)" by simp
  from lift [OF walk [of d 64]] show "same_unless P (walks d cs V s) (walks' d cs V s)" by simp
qed

end

end
