(* ===== verification/Btree.thy ===== *)
theory Btree
  imports Tree_Walk
begin

text \<open>
  \<^verbatim>\<open>src/src/btree.rs\<close>, second part: checksummed node reads, the full leaf walk
  (\<^verbatim>\<open>for_each_leaf_entry\<close>) and the keyed point descent (\<^verbatim>\<open>find_leaf\<close>). A visitor closure is a state
  transformer; a walk returns the visitor state and the visited set, or the first error.
\<close>

section \<open>Reading and walking\<close>

definition read_verified_node :: "device \<Rightarrow> u64 \<Rightarrow> usize \<Rightarrow> bytes option res" where
  "read_verified_node dev paddr block_size =
     (case checked_mul paddr (word_of_nat block_size) of
        None \<Rightarrow> Ok None
      | Some offset \<Rightarrow>
          and_then (read_at dev offset block_size) (\<lambda>buf.
            let stored = fletcher64_stored buf; computed = fletcher64_checksum buf in
            if stored \<noteq> computed
            then Err (ChecksumMismatch (case ObjPhys_parse buf of None \<Rightarrow> paddr | Some h \<Rightarrow> o_oid h)
                        stored computed)
            else Ok (Some buf)))"

fun find_leaf_loop ::
  "device \<Rightarrow> usize \<Rightarrow> BTreeSubtype \<Rightarrow> (bytes \<Rightarrow> ordering) \<Rightarrow> (bytes \<Rightarrow> bytes \<Rightarrow> 's \<Rightarrow> 's) \<Rightarrow>
     nat \<Rightarrow> u64 set \<Rightarrow> u64 \<Rightarrow> 's \<Rightarrow> 's res" where
  "find_leaf_loop dev block_size subtype cmp visit 0 visited paddr s =
     Err (CycleGuard MAX_BTREE_DEPTH)"
| "find_leaf_loop dev block_size subtype cmp visit (Suc n) visited paddr s =
     (if paddr \<in> visited then Err (CycleGuard MAX_BTREE_DEPTH)
      else and_then (read_verified_node dev paddr block_size) (\<lambda>node.
        case node of None \<Rightarrow> Ok s
        | Some buf \<Rightarrow>
          (case parse_node_header buf of None \<Rightarrow> Ok s
           | Some hdr \<Rightarrow>
             if is_leaf hdr then Ok (visit_all visit (node_entries buf subtype) s)
             else (case branches (node_entries buf subtype) of
                     [] \<Rightarrow> Ok s
                   | first # rest \<Rightarrow>
                       find_leaf_loop dev block_size subtype cmp visit n (insert paddr visited)
                         (select_child cmp (snd first) (first # rest)) s))))"

definition find_leaf ::
  "device \<Rightarrow> u64 \<Rightarrow> usize \<Rightarrow> BTreeSubtype \<Rightarrow> (bytes \<Rightarrow> ordering) \<Rightarrow>
     (bytes \<Rightarrow> bytes \<Rightarrow> 's \<Rightarrow> 's) \<Rightarrow> 's \<Rightarrow> 's res" where
  "find_leaf dev root_paddr block_size subtype cmp visit s =
     find_leaf_loop dev block_size subtype cmp visit MAX_BTREE_DEPTH {} root_paddr s"

function descend ::
  "device \<Rightarrow> usize \<Rightarrow> BTreeSubtype \<Rightarrow> (bytes \<Rightarrow> bytes \<Rightarrow> 's \<Rightarrow> 's) \<Rightarrow>
     nat \<Rightarrow> u64 \<Rightarrow> u64 set \<Rightarrow> 's \<Rightarrow> ('s \<times> u64 set) res"
and descend_children ::
  "device \<Rightarrow> usize \<Rightarrow> BTreeSubtype \<Rightarrow> (bytes \<Rightarrow> bytes \<Rightarrow> 's \<Rightarrow> 's) \<Rightarrow>
     nat \<Rightarrow> u64 list \<Rightarrow> u64 set \<Rightarrow> 's \<Rightarrow> ('s \<times> u64 set) res" where
  "descend dev block_size subtype visit depth paddr visited s =
     (if depth \<ge> MAX_BTREE_DEPTH then Err (CycleGuard MAX_BTREE_DEPTH)
      else if paddr \<in> visited then Err (CycleGuard MAX_BTREE_DEPTH)
      else and_then (read_verified_node dev paddr block_size) (\<lambda>node.
        case node of None \<Rightarrow> Ok (s, insert paddr visited)
        | Some buf \<Rightarrow>
          (case parse_node_header buf of None \<Rightarrow> Ok (s, insert paddr visited)
           | Some hdr \<Rightarrow>
             if is_leaf hdr
             then Ok (visit_all visit (node_entries buf subtype) s, insert paddr visited)
             else descend_children dev block_size subtype visit (depth + 1)
                    (map (\<lambda>e. le_u64 (snd e) 0) (node_entries buf subtype))
                    (insert paddr visited) s)))"
| "descend_children dev block_size subtype visit depth [] visited s = Ok (s, visited)"
| "descend_children dev block_size subtype visit depth (child # cs) visited s =
     and_then (descend dev block_size subtype visit depth child visited s) (\<lambda>(s', visited').
       descend_children dev block_size subtype visit depth cs visited' s')"
  by pat_completeness auto
termination
  by (relation "measures
        [case_sum (\<lambda>(dev, bs, st, v, d, a, V, s). 64 - d) (\<lambda>(dev, bs, st, v, d, cs, V, s). 64 - d),
         case_sum (\<lambda>_. 0) (\<lambda>(dev, bs, st, v, d, cs, V, s). length cs)]")
    (auto simp: MAX_BTREE_DEPTH_def)

declare descend.simps [simp del]

definition for_each_leaf_entry ::
  "device \<Rightarrow> u64 \<Rightarrow> usize \<Rightarrow> BTreeSubtype \<Rightarrow> (bytes \<Rightarrow> bytes \<Rightarrow> 's \<Rightarrow> 's) \<Rightarrow> 's \<Rightarrow> 's res" where
  "for_each_leaf_entry dev root_paddr block_size subtype visit s =
     and_then (descend dev block_size subtype visit 0 root_paddr {} s) (\<lambda>(s', visited). Ok s')"

section \<open>Node reads\<close>

lemma read_verified_node_no_panic [no_panic, simp]: "read_verified_node dev paddr bs \<noteq> Panic"
  by (auto simp: read_verified_node_def res_simps Let_def split: option.splits if_splits)

text \<open>Checksum before trust: a node that is handed out has a valid checksum.\<close>

lemma read_verified_node_Some:
  "read_verified_node dev paddr bs = Ok (Some buf) \<longleftrightarrow>
     (\<exists>off. checked_mul paddr (word_of_nat bs) = Some off \<and> read_at dev off bs = Ok buf) \<and> cksum_ok buf"
  by (auto simp: read_verified_node_def res_simps Let_def split: option.splits if_splits)

lemma read_verified_node_block:
  assumes "\<forall>b \<in> set blks. length b = bs" and "unat a < length blks" and "length blks * bs < 2 ^ 64"
    and "0 < bs" and "cksum_ok (blks ! unat a)"
  shows "read_verified_node (cursor (concat blks)) a bs = Ok (Some (blks ! unat a))"
proof -
  have "unat a * bs < length blks * bs" using assms(2,4) by simp
  then have small: "unat a * bs < 2 ^ 64" using assms(3) by (rule less_trans)
  moreover have "bs \<le> length blks * bs" using assms(2) by (cases "length blks") auto
  then have "bs < 2 ^ 64" using assms(3) by (rule le_less_trans)
  then have bs: "unat (word_of_nat bs :: u64) = bs" by (simp add: unat_of_nat)
  ultimately have mul: "checked_mul a (word_of_nat bs) = Some (a * word_of_nat bs)"
    by (simp add: checked_mul_def)
  then have "unat (a * word_of_nat bs) = unat a * bs" using unat_checked_mul bs by fastforce
  then have "read_at (cursor (concat blks)) (a * word_of_nat bs) bs = Ok (blks ! unat a)"
    using cursor_block [OF assms(1,2)] by (simp add: read_at_def)
  then show ?thesis using mul assms(5) by (auto simp: read_verified_node_Some)
qed

text \<open>The errors a walk may end with.\<close>

definition walk_error :: "ApfsError \<Rightarrow> bool" where
  "walk_error e \<longleftrightarrow> e = CycleGuard 64 \<or> (\<exists>k. e = Io k) \<or>
     (\<exists>b x y. e = ChecksumMismatch b x y \<and> x \<noteq> y)"

lemma read_verified_node_fails [no_panic, simp]: "fails_only walk_error (read_verified_node dev paddr bs)"
  by (auto simp: read_verified_node_def fails_only_iff res_simps Let_def walk_error_def read_at_def
      split: option.splits if_splits sum.splits)

section \<open>The full walk\<close>

interpretation phys: tree_walk "\<lambda>a. read_verified_node dev a bs" st "\<lambda>_ _. True" visit
  "descend dev bs st visit" "descend_children dev bs st visit" for dev bs st visit
proof
  show "descend dev bs st visit d a V s = Err (CycleGuard 64)" if "64 \<le> d \<or> a \<in> V" for d a V s
    using that by (auto simp: descend.simps MAX_BTREE_DEPTH_def)
next
  fix d :: nat and a :: u64 and V :: "u64 set" and s
  assume "d < 64" and "a \<notin> V"
  then show "descend dev bs st visit d a V s =
    and_then (read_verified_node dev a bs) (\<lambda>node. case node of None \<Rightarrow> Ok (s, insert a V)
      | Some buf \<Rightarrow> (case parse_node_header buf of None \<Rightarrow> Ok (s, insert a V)
        | Some hdr \<Rightarrow> if is_leaf hdr then Ok (visit_all visit (node_entries buf st) s, insert a V)
            else descend_children dev bs st visit (Suc d)
                   (kept (\<lambda>_ _. True) (branches (node_entries buf st))) (insert a V) s))"
    unfolding kept_branches Suc_eq_plus1 by (subst descend.simps) (simp add: MAX_BTREE_DEPTH_def)
qed simp_all

lemma for_each_leaf_entry_stored:
  assumes "stored (\<lambda>a. read_verified_node dev a bs) st t" and "height t \<le> 64" and "distinct (addrs t)"
  shows "for_each_leaf_entry dev (root t) bs st visit s = Ok (visit_all visit (all_entries t) s)"
  using phys.walk_stored [OF assms(1) _ assms(3), of 0 "{}" visit s] assms(2)
  by (auto simp: for_each_leaf_entry_def)

lemma for_each_leaf_entry_fails [no_panic, simp]:
  "fails_only walk_error (for_each_leaf_entry dev a bs st visit s)"
proof -
  have "\<not> (\<exists>b. read_verified_node dev b bs = Panic)"
    "read_verified_node dev b bs = Err e \<Longrightarrow> walk_error e" for b e
    using read_verified_node_fails by (auto simp: fails_only_iff)
  moreover have "walk_error (CycleGuard 64)" by (simp add: walk_error_def)
  ultimately show ?thesis
    using phys.walk_outcome [of dev bs st visit 0 a "{}" s]
    by (fastforce simp: for_each_leaf_entry_def fails_only_iff res_simps)
qed

section \<open>The keyed descent\<close>

lemma select_child_in: "select_child cmp c es = c \<or> (\<exists>k. (k, select_child cmp c es) \<in> set es)"
  by (induction cmp c es rule: select_child.induct) auto

lemma select_child_member: "\<exists>k'. (k', select_child cmp t ((k, t) # cs)) \<in> set ((k, t) # cs)"
  using select_child_in [of cmp t "(k, t) # cs"] by (metis list.set_intros(1))

lemma select_child_map:
  "select_child cmp (f c) (map (\<lambda>(k, t). (k, f t)) es) = f (select_child cmp c es)"
  by (induction cmp c es rule: select_child.induct) auto

lemma child_size: "(k, t) \<in> set cs \<Longrightarrow> size t < size (PNode a cs)"
proof -
  assume "(k, t) \<in> set cs"
  then have "size t < Suc (size_list (size_prod (\<lambda>x. 0) size) cs)"
    by (induction cs) auto
  then show ?thesis by simp
qed

text \<open>The entries of the leaf where the descent ends, on an abstract tree.\<close>

function landing :: "(bytes \<Rightarrow> ordering) \<Rightarrow> ptree \<Rightarrow> Entry list" where
  "landing cmp (PLeaf a es) = es"
| "landing cmp (PNode a []) = []"
| "landing cmp (PNode a ((k, t) # cs)) = landing cmp (select_child cmp t ((k, t) # cs))"
  by pat_completeness auto
termination
proof (relation "measure (\<lambda>(cmp, t). size t)")
  fix cmp a k and t :: ptree and cs
  obtain k' where "(k', select_child cmp t ((k, t) # cs)) \<in> set ((k, t) # cs)"
    using select_child_member [of cmp t k cs] by (elim exE)
  then have "size (select_child cmp t ((k, t) # cs)) < size (PNode a ((k, t) # cs))"
    by (rule child_size)
  then show "((cmp, select_child cmp t ((k, t) # cs)), cmp, PNode a ((k, t) # cs))
      \<in> measure (\<lambda>(cmp, t). size t)"
    by simp
qed simp

lemma stored_all_child: "stored_all f st cs \<Longrightarrow> (k, t) \<in> set cs \<Longrightarrow> stored f st t"
  by (induction cs) auto

lemma heights_child: "(k, t) \<in> set cs \<Longrightarrow> height t \<le> heights cs"
  by (induction cs) auto

lemma addrs_child: "(k, t) \<in> set cs \<Longrightarrow> set (addrs t) \<subseteq> set (addrs_of cs)"
  by (induction cs) auto

lemma distinct_addrs_child: "(k, t) \<in> set cs \<Longrightarrow> distinct (addrs_of cs) \<Longrightarrow> distinct (addrs t)"
  by (induction cs) auto

lemma find_leaf_loop_stored:
  "stored (\<lambda>a. read_verified_node dev a bs) st t \<Longrightarrow> height t \<le> n \<Longrightarrow> distinct (addrs t) \<Longrightarrow>
     V \<inter> set (addrs t) = {} \<Longrightarrow>
     find_leaf_loop dev bs st cmp visit n V (root t) s = Ok (visit_all visit (landing cmp t) s)"
proof (induction cmp t arbitrary: n V rule: landing.induct)
  case (1 cmp a es)
  then show ?case by (cases n) auto
next
  case (2 cmp a)
  then show ?case by (cases n) auto
next
  case (3 cmp a k t cs)
  let ?cs = "(k, t) # cs"
  let ?c = "select_child cmp t ?cs"
  obtain m where n: "n = Suc m" "heights ?cs \<le> m" using "3.prems"(2) by (cases n) auto
  obtain k' where c: "(k', ?c) \<in> set ?cs"
    using select_child_member [of cmp t k cs] by (elim exE)
  have sub: "set (addrs ?c) \<subseteq> set (addrs_of ?cs)" using c by (rule addrs_child)
  obtain buf hdr where node: "read_verified_node dev a bs = Ok (Some buf)"
    "parse_node_header buf = Some hdr" "\<not> is_leaf hdr"
    "branches (node_entries buf st) = map (\<lambda>(k, t). (k, root t)) ?cs"
    using "3.prems"(1) by auto
  have "find_leaf_loop dev bs st cmp visit m (insert a V) (root ?c) s =
      Ok (visit_all visit (landing cmp ?c) s)"
  proof (rule "3.IH")
    show "stored (\<lambda>a. read_verified_node dev a bs) st ?c"
      using "3.prems"(1) c stored_all_child by fastforce
    show "height ?c \<le> m" using heights_child [OF c] n(2) by (rule order_trans)
    show "distinct (addrs ?c)"
      using distinct_addrs_child [OF c] "3.prems"(3) by simp
    show "insert a V \<inter> set (addrs ?c) = {}"
      using sub "3.prems"(3,4) by (auto dest: subsetD)
  qed
  moreover have "select_child cmp (root t) (map (\<lambda>(k, t). (k, root t)) ?cs) = root ?c"
    by (rule select_child_map)
  ultimately show ?case
    using node n(1) "3.prems"(4) by auto
qed

lemma find_leaf_stored:
  assumes "stored (\<lambda>a. read_verified_node dev a bs) st t" and "height t \<le> 64" and "distinct (addrs t)"
  shows "find_leaf dev (root t) bs st cmp visit s = Ok (visit_all visit (landing cmp t) s)"
  unfolding find_leaf_def
  by (rule find_leaf_loop_stored [OF assms(1) _ assms(3)]) (use assms(2) in \<open>simp_all add: MAX_BTREE_DEPTH_def\<close>)

text \<open>On any source whatever the descent ends without a panic, in a cycle guard at worst.\<close>

lemma find_leaf_loop_fails: "fails_only walk_error (find_leaf_loop dev bs st cmp visit n V a s)"
  by (induction n arbitrary: V a)
    (auto simp: walk_error_def MAX_BTREE_DEPTH_def split: option.splits list.splits)

lemma find_leaf_fails [no_panic, simp]: "fails_only walk_error (find_leaf dev a bs st cmp visit s)"
  by (simp add: find_leaf_def find_leaf_loop_fails)

section \<open>A tree written to an image\<close>

text \<open>
  A two-level tree of three 256-byte blocks (an index node at block 1 over the leaves 2 and 3),
  used to evaluate the theorems on concrete bytes.
\<close>

definition demo_obj :: bytes where "demo_obj = replicate 32 0"

definition demo_key :: "u64 \<Rightarrow> u64 \<Rightarrow> bytes" where "demo_key a b = to_le_bytes a @ to_le_bytes b"

definition demo_val :: "u64 \<Rightarrow> bytes" where "demo_val paddr = replicate 8 0 @ to_le_bytes paddr"

definition demo_left :: "Entry list" where
  "demo_left = [(demo_key 5 1, demo_val 10), (demo_key 5 7, demo_val 20)]"

definition demo_right :: "Entry list" where
  "demo_right = [(demo_key 5 9, demo_val 30), (demo_key 8 2, demo_val 40)]"

definition demo_tree :: ptree where
  "demo_tree = PNode 1 [(demo_key 5 1, PLeaf 2 demo_left), (demo_key 5 9, PLeaf 3 demo_right)]"

definition demo_blocks :: "bytes list" where
  "demo_blocks =
     [replicate 256 0,
      node_block 256 demo_obj 0x5 1
        [(demo_key 5 1, to_le_bytes (2 :: u64)), (demo_key 5 9, to_le_bytes (3 :: u64))],
      node_block 256 demo_obj 0x6 0 demo_left,
      node_block 256 demo_obj 0x6 0 demo_right]"

lemmas demo_defs = demo_obj_def demo_key_def demo_val_def demo_left_def demo_right_def

lemma demo_blocks_ok:
  "\<forall>b \<in> set demo_blocks. length b = 256" "length demo_blocks = 4"
  by (auto simp: demo_blocks_def demo_defs node_used_def toc_entry_len_def node_footer_def
      BTNODE_FIXED_KV_SIZE_def BTNODE_ROOT_def intro!: length_node_block)

lemma demo_fetch:
  assumes "a \<in> {1, 2, 3}"
  shows "read_verified_node (cursor (concat demo_blocks)) a 256 = Ok (Some (demo_blocks ! unat a))"
proof (rule read_verified_node_block [OF demo_blocks_ok(1)])
  show "cksum_ok (demo_blocks ! unat a)"
    using assms
    by (elim insertE emptyE) (simp_all add: demo_blocks_def node_block_cksum_ok demo_obj_def)
qed (use assms demo_blocks_ok(2) in auto)

lemma demo_stored: "stored (\<lambda>a. read_verified_node (cursor (concat demo_blocks)) a 256) Omap demo_tree"
  unfolding demo_tree_def
proof (rule stored_index)
  show "read_verified_node (cursor (concat demo_blocks)) 1 256 = Ok (Some (seal (node_image demo_obj 0x5 1
      [(demo_key 5 1, to_le_bytes (2 :: u64)), (demo_key 5 9, to_le_bytes (3 :: u64))]
      (replicate (256 - node_used 0x5 [(demo_key 5 1, to_le_bytes (2 :: u64)), (demo_key 5 9, to_le_bytes (3 :: u64))]) 0)
      (node_footer 0x5))))"
    using demo_fetch [of 1] by (simp add: demo_blocks_def node_block_def)
  have leaf: "stored (\<lambda>a. read_verified_node (cursor (concat demo_blocks)) a 256) Omap (PLeaf a es)"
    if "demo_blocks ! unat a = node_block 256 demo_obj 0x6 0 es" "a \<in> {1, 2, 3}"
      "layout_ok Omap demo_obj 0x6 0 es (node_footer 0x6)" for a es
    using demo_fetch [OF that(2)] that(1,3)
    by (intro stored_leaf [of _ a demo_obj 6 0 es _ "node_footer 6"]) (simp_all add: node_block_def BTNODE_LEAF_def)
  show "stored_all (\<lambda>a. read_verified_node (cursor (concat demo_blocks)) a 256) Omap
      [(demo_key 5 1, PLeaf 2 demo_left), (demo_key 5 9, PLeaf 3 demo_right)]"
    unfolding stored_all.simps
    by (intro conjI leaf) (simp_all add: demo_blocks_def layout_ok_def demo_defs node_footer_def
        BTNODE_FIXED_KV_SIZE_def BTNODE_ROOT_def BTNODE_LEAF_def)
qed (simp_all add: layout_ok_def demo_defs node_footer_def
        BTNODE_FIXED_KV_SIZE_def BTNODE_ROOT_def BTNODE_LEAF_def)

lemma demo_tree_shape [simp]: "root demo_tree = 1" "height demo_tree \<le> 64" "distinct (addrs demo_tree)"
  "all_entries demo_tree = demo_left @ demo_right"
  by (simp_all add: demo_tree_def)

section \<open>Properties\<close>

text \<open>
  C3 (functional): on every source that stores a tree of at most 64 levels without shared nodes,
  \<^verbatim>\<open>for_each_leaf_entry\<close> returns normally after calling the visitor on exactly the leaf entries of
  the tree, each once, in key order.
\<close>

theorem for_each_leaf_entry_visits_all:
  assumes "stored (\<lambda>a. read_verified_node dev a bs) st t" and "height t \<le> 64" and "distinct (addrs t)"
  shows "for_each_leaf_entry dev (root t) bs st visit s = Ok (visit_all visit (all_entries t) s)"
  using assms by (rule for_each_leaf_entry_stored)

theorem for_each_leaf_entry_visits_all_witness:
  "for_each_leaf_entry (cursor (concat demo_blocks)) 1 256 Omap (\<lambda>k v n. n + le_u64 v 8) 0 = Ok 100"
proof -
  have "for_each_leaf_entry (cursor (concat demo_blocks)) (root demo_tree) 256 Omap (\<lambda>k v n. n + le_u64 v 8) 0
      = Ok (visit_all (\<lambda>k v n. n + le_u64 v 8) (all_entries demo_tree) 0)"
    by (rule for_each_leaf_entry_visits_all [OF demo_stored]) simp_all
  moreover have "le_u64 (demo_val p) 8 = p" for p
    using le_to_le_bytes(3) [of p "[]"] by (simp add: demo_val_def slice_simps)
  ultimately show ?thesis by (simp add: demo_left_def demo_right_def)
qed

text \<open>
  C34 (termination, error): on any source and any root whatever, cyclic, truncated or hostile, the
  full walk and the keyed descent return: they never panic, and the only errors are the cycle
  guard, an I/O error of the source and a checksum mismatch of a node.
\<close>

theorem btree_walks_total:
  "fails_only walk_error (for_each_leaf_entry dev a bs st visit s) \<and>
   fails_only walk_error (find_leaf dev a bs st cmp visit' s')"
  by (simp add: for_each_leaf_entry_fails find_leaf_fails)

end
