(* ===== verification/Omap.thy ===== *)
theory Omap
  imports Btree "HOL-Library.Product_Lexorder"
begin

text \<open>
  \<^verbatim>\<open>src/src/omap.rs\<close>: the object map header and the resolution of a virtual oid at a transaction
  id. The main lemma is the refinement of the one-path descent: on a stored tree whose separators
  are the least keys of their children, \<^verbatim>\<open>resolve\<close> finds what a scan of all leaf entries finds, the
  mapping of the oid with the greatest transaction id not after the requested one.
\<close>

definition OBJECT_TYPE_OMAP :: u16 where "OBJECT_TYPE_OMAP = 0xb"
definition OMAP_PHYS_MIN_LEN :: usize where "OMAP_PHYS_MIN_LEN = 48 + 8"

record OmapEntry =
  oe_oid :: u64
  oe_xid :: u64
  oe_paddr :: u64
  oe_size :: u32
  oe_flags :: u32

record ObjectMap =
  om_flags :: u32
  om_tree_type :: u32
  om_tree_oid :: u64
  om_snapshot_tree_oid :: u64

text \<open>Field offsets.\<close>

definition OFF_OM_FLAGS :: usize where [simp]: "OFF_OM_FLAGS = 32"
definition OFF_OM_TREE_TYPE :: usize where [simp]: "OFF_OM_TREE_TYPE = 40"
definition OFF_OM_TREE_OID :: usize where [simp]: "OFF_OM_TREE_OID = 48"
definition OFF_OM_SNAPSHOT_TREE_OID :: usize where [simp]: "OFF_OM_SNAPSHOT_TREE_OID = 56"

definition ObjectMap_parse :: "bytes \<Rightarrow> ObjectMap res" where
  "ObjectMap_parse block =
     (if length block < OMAP_PHYS_MIN_LEN
      then Err (UnexpectedObjectType ''omap_phys'' (ucast OBJECT_TYPE_OMAP) 0)
      else (case ObjPhys_parse block of
              None \<Rightarrow> Err (UnexpectedObjectType ''omap_phys'' (ucast OBJECT_TYPE_OMAP) 0)
            | Some hdr \<Rightarrow>
                if obj_type hdr \<noteq> OBJECT_TYPE_OMAP
                then Err (UnexpectedObjectType ''omap_phys'' (ucast OBJECT_TYPE_OMAP) (obj_type_raw hdr))
                else let stored = fletcher64_stored block; computed = fletcher64_checksum block in
                if stored \<noteq> computed then Err (ChecksumMismatch (o_oid hdr) stored computed)
                else Ok \<lparr>om_flags = le_u32 block OFF_OM_FLAGS, om_tree_type = le_u32 block OFF_OM_TREE_TYPE,
                         om_tree_oid = le_u64 block OFF_OM_TREE_OID, om_snapshot_tree_oid = le_u64 block OFF_OM_SNAPSHOT_TREE_OID\<rparr>))"

definition omap_key :: "bytes \<Rightarrow> u64 \<times> u64" where
  "omap_key key = (le_u64 key 0, le_u64 key 8)"

text \<open>\<^verbatim>\<open>(k_oid, k_xid).cmp(&(oid, xid))\<close>: lexicographic comparison of pairs.\<close>

definition cmp_pair :: "u64 \<times> u64 \<Rightarrow> u64 \<times> u64 \<Rightarrow> ordering" where
  "cmp_pair a b = (if a < b then Less else if a = b then Equal else Greater)"

definition omap_visit :: "u64 \<Rightarrow> u64 \<Rightarrow> bytes \<Rightarrow> bytes \<Rightarrow> OmapEntry option \<Rightarrow> OmapEntry option" where
  "omap_visit oid xid key value best =
     (let k_oid = le_u64 key 0; k_xid = le_u64 key 8 in
      if k_oid \<noteq> oid \<or> k_xid > xid then best
      else let entry = \<lparr>oe_oid = k_oid, oe_xid = k_xid, oe_paddr = le_u64 value 8,
                        oe_size = le_u32 value 4, oe_flags = le_u32 value 0\<rparr> in
        (case best of None \<Rightarrow> Some entry
         | Some b \<Rightarrow> if k_xid > oe_xid b then Some entry else best))"

definition resolve :: "device \<Rightarrow> ObjectMap \<Rightarrow> u64 \<Rightarrow> u64 \<Rightarrow> usize \<Rightarrow> OmapEntry res" where
  "resolve dev om oid xid block_size =
     and_then
       (find_leaf dev (om_tree_oid om) block_size Omap
          (\<lambda>key. cmp_pair (omap_key key) (oid, xid)) (omap_visit oid xid) None)
       (\<lambda>best. ok_or best (OmapUnresolved oid xid))"

section \<open>The specification: a scan of all mappings\<close>

text \<open>A mapping that answers the query \<open>(oid, xid)\<close>.\<close>

definition answers :: "u64 \<Rightarrow> u64 \<Rightarrow> Entry \<Rightarrow> bool" where
  "answers oid xid e = (le_u64 (fst e) 0 = oid \<and> le_u64 (fst e) 8 \<le> xid)"

definition omap_scan :: "u64 \<Rightarrow> u64 \<Rightarrow> Entry list \<Rightarrow> OmapEntry option" where
  "omap_scan oid xid es = visit_all (omap_visit oid xid) es None"

definition entry_of :: "Entry \<Rightarrow> OmapEntry" where
  "entry_of e = \<lparr>oe_oid = le_u64 (fst e) 0, oe_xid = le_u64 (fst e) 8, oe_paddr = le_u64 (snd e) 8,
     oe_size = le_u32 (snd e) 4, oe_flags = le_u32 (snd e) 0\<rparr>"

lemma omap_visit_alt:
  "omap_visit oid xid k v best =
     (if answers oid xid (k, v)
      then (case best of None \<Rightarrow> Some (entry_of (k, v))
            | Some b \<Rightarrow> if oe_xid b < le_u64 k 8 then Some (entry_of (k, v)) else best)
      else best)"
  by (auto simp: omap_visit_def answers_def entry_of_def Let_def not_le split: option.splits)

text \<open>What the scan returns: an answering mapping with the greatest transaction id.\<close>

lemma omap_scan_invariant:
  "(case visit_all (omap_visit oid xid) es best of
      None \<Rightarrow> best = None \<and> (\<forall>e\<in>set es. \<not> answers oid xid e)
    | Some b \<Rightarrow> (best = Some b \<or> (\<exists>e\<in>set es. answers oid xid e \<and> b = entry_of e)) \<and>
        (\<forall>e\<in>set es. answers oid xid e \<longrightarrow> le_u64 (fst e) 8 \<le> oe_xid b) \<and>
        (\<forall>b0. best = Some b0 \<longrightarrow> oe_xid b0 \<le> oe_xid b))"
proof (induction es arbitrary: best)
  case Nil
  then show ?case by (auto split: option.splits)
next
  case (Cons e es)
  obtain k v where e: "e = (k, v)" by (cases e)
  show ?case
    using Cons [of "omap_visit oid xid k v best"]
    by (cases best) (auto simp: e omap_visit_alt entry_of_def split: option.splits if_splits
        intro: order_trans order_less_imp_le)
qed

lemma omap_scan_None_iff:
  "omap_scan oid xid es = None \<longleftrightarrow> (\<forall>e\<in>set es. \<not> answers oid xid e)"
  using omap_scan_invariant [where best = None and oid = oid and xid = xid and es = es] by (auto simp: omap_scan_def split: option.splits)

lemma omap_scan_Some:
  "omap_scan oid xid es = Some b \<Longrightarrow>
     (\<exists>e\<in>set es. answers oid xid e \<and> b = entry_of e) \<and>
     (\<forall>e\<in>set es. answers oid xid e \<longrightarrow> le_u64 (fst e) 8 \<le> oe_xid b)"
  using omap_scan_invariant [where best = None and oid = oid and xid = xid and es = es] by (auto simp: omap_scan_def)

section \<open>The descent finds what the scan finds\<close>

definition keys_of :: "Entry list \<Rightarrow> (u64 \<times> u64) set" where
  "keys_of es = (\<lambda>e. omap_key (fst e)) ` set es"

text \<open>
  The B-tree order the descent relies on: a separator is the least key of its child, and every key
  of a child lies before the separators of the children after it.
\<close>

fun seps_ok :: "ptree \<Rightarrow> bool" and seps_ok_all :: "(bytes \<times> ptree) list \<Rightarrow> bool" where
  "seps_ok (PLeaf a es) = True"
| "seps_ok (PNode a cs) = (cs \<noteq> [] \<and> seps_ok_all cs)"
| "seps_ok_all [] = True"
| "seps_ok_all ((k, t) # cs) =
     (seps_ok t \<and> omap_key k \<in> keys_of (all_entries t) \<and>
      (\<forall>x \<in> keys_of (all_entries t). omap_key k \<le> x) \<and>
      (\<forall>c \<in> set cs. \<forall>x \<in> keys_of (all_entries t). x < omap_key (fst c)) \<and> seps_ok_all cs)"

lemma answers_key: "answers oid xid e \<longleftrightarrow> fst (omap_key (fst e)) = oid \<and> omap_key (fst e) \<le> (oid, xid)"
  by (auto simp: answers_def omap_key_def)

lemma scan_skip: "\<forall>e\<in>set es. \<not> answers oid xid e \<Longrightarrow> visit_all (omap_visit oid xid) es best = best"
proof (induction es)
  case Nil
  then show ?case by simp
next
  case (Cons e es)
  then show ?case by (cases e) (simp add: omap_visit_alt)
qed

lemma scan_override:
  "\<exists>e\<in>set es. answers oid xid e \<and> oe_xid b < le_u64 (fst e) 8 \<Longrightarrow>
     visit_all (omap_visit oid xid) es (Some b) = visit_all (omap_visit oid xid) es None"
proof (induction es arbitrary: b)
  case Nil
  then show ?case by simp
next
  case (Cons e es)
  obtain k v where e: "e = (k, v)" by (cases e)
  consider (new) "answers oid xid e" "oe_xid b < le_u64 k 8"
    | (old) "answers oid xid e" "le_u64 k 8 \<le> oe_xid b"
    | (none) "\<not> answers oid xid e"
    by fastforce
  then show ?case
  proof cases
    case new
    then show ?thesis by (simp add: e omap_visit_alt)
  next
    case old
    with Cons.prems have later: "\<exists>e\<in>set es. answers oid xid e \<and> oe_xid b < le_u64 (fst e) 8"
      by (auto simp: e)
    then have "\<exists>e\<in>set es. answers oid xid e \<and> oe_xid (entry_of (k, v)) < le_u64 (fst e) 8"
      using old(2) by (auto simp: entry_of_def)
    from Cons.IH [OF later] Cons.IH [OF this] old show ?thesis
      by (simp add: e omap_visit_alt)
  next
    case none
    with Cons show ?thesis by (auto simp: e omap_visit_alt)
  qed
qed

lemma scan_middle:
  assumes after: "\<forall>x\<in>keys_of bs. (oid, xid) < x"
    and before: "as = [] \<or> (\<exists>x0\<in>keys_of ls. x0 \<le> (oid, xid) \<and> (\<forall>x\<in>keys_of as. x < x0))"
  shows "omap_scan oid xid (as @ ls @ bs) = omap_scan oid xid ls"
proof -
  have skip: "\<forall>e\<in>set bs. \<not> answers oid xid e"
    using after by (auto simp: answers_key keys_of_def)
  have "visit_all (omap_visit oid xid) ls (omap_scan oid xid as) = omap_scan oid xid ls"
  proof (cases "omap_scan oid xid as")
    case None
    then show ?thesis by (simp add: omap_scan_def)
  next
    case (Some b)
    then obtain e where e: "e \<in> set as" "answers oid xid e" "b = entry_of e"
      using omap_scan_Some by blast
    then obtain e0 where e0: "e0 \<in> set ls" "omap_key (fst e0) \<le> (oid, xid)"
      "omap_key (fst e) < omap_key (fst e0)"
      using before by (auto simp: keys_of_def)
    then have "answers oid xid e0 \<and> oe_xid b < le_u64 (fst e0) 8"
      using e by (auto simp: answers_def omap_key_def entry_of_def)
    then show ?thesis
      using scan_override [of ls oid xid b] e0(1) Some by (auto simp: omap_scan_def)
  qed
  then show ?thesis using skip by (simp add: omap_scan_def scan_skip)
qed

lemma select_child_split:
  "\<exists>as k' bs. (k, t) # cs = as @ (k', select_child cmp t cs) # bs \<and>
     (as = [] \<or> cmp k' \<noteq> Greater) \<and> (bs = [] \<or> cmp (fst (hd bs)) = Greater)"
proof (induction cs arbitrary: k t)
  case Nil
  then show ?case by (intro exI [of _ "[]"] exI [of _ k]) simp
next
  case (Cons c cs)
  obtain k1 t1 where c: "c = (k1, t1)" by (cases c)
  show ?case
  proof (cases "cmp k1 = Greater")
    case True
    then show ?thesis by (intro exI [of _ "[]"] exI [of _ k] exI [of _ "c # cs"]) (simp add: c)
  next
    case False
    obtain as k' bs where "(k1, t1) # cs = as @ (k', select_child cmp t1 cs) # bs"
      "as = [] \<or> cmp k' \<noteq> Greater" "bs = [] \<or> cmp (fst (hd bs)) = Greater"
      using Cons [of k1 t1] by blast
    then show ?thesis using False
      by (intro exI [of _ "(k, t) # as"] exI [of _ k'] exI [of _ bs])
        (cases as; auto simp: c)
  qed
qed

lemma all_entries_of_append [simp]:
  "all_entries_of (as @ cs) = all_entries_of as @ all_entries_of cs"
  by (induction as) auto

lemma keys_of_append [simp]: "keys_of (as @ bs) = keys_of as \<union> keys_of bs"
  by (auto simp: keys_of_def)

lemma keys_of_all:
  "x \<in> keys_of (all_entries_of cs) \<Longrightarrow> \<exists>c\<in>set cs. x \<in> keys_of (all_entries (snd c))"
proof (induction cs)
  case Nil
  then show ?case by (simp add: keys_of_def)
next
  case (Cons c cs)
  then show ?case by (cases c) auto
qed

lemma seps_ok_all_child:
  "seps_ok_all cs \<Longrightarrow> c \<in> set cs \<Longrightarrow> seps_ok (snd c) \<and> omap_key (fst c) \<in> keys_of (all_entries (snd c)) \<and>
     (\<forall>x \<in> keys_of (all_entries (snd c)). omap_key (fst c) \<le> x)"
  by (induction cs) auto

lemma seps_ok_all_append:
  "seps_ok_all (as @ c # bs) \<Longrightarrow>
     (\<forall>a \<in> set as. \<forall>x \<in> keys_of (all_entries (snd a)). x < omap_key (fst c)) \<and> seps_ok_all (c # bs)"
  by (induction as) (auto, blast?)

text \<open>Everything after a child whose separator or right neighbour is past the target is past it.\<close>

lemma seps_after:
  assumes "seps_ok_all (c # bs)" and "T < omap_key (fst c) \<or> (bs \<noteq> [] \<longrightarrow> T < omap_key (fst (hd bs)))"
  shows "\<forall>x \<in> keys_of (all_entries_of bs). T < x"
proof
  fix x
  assume "x \<in> keys_of (all_entries_of bs)"
  then obtain b where b: "b \<in> set bs" "x \<in> keys_of (all_entries (snd b))" using keys_of_all by blast
  then have bs: "bs \<noteq> []" by auto
  have below: "omap_key (fst b) \<le> x" using assms(1) b seps_ok_all_child [of "c # bs" b] by simp
  have cb: "omap_key (fst c) < omap_key (fst b)"
    using assms(1) b(1) seps_ok_all_child [of "c # bs" c] by (cases c) auto
  have hb: "omap_key (fst (hd bs)) \<le> omap_key (fst b)"
  proof (cases "b = hd bs")
    case False
    then have "b \<in> set (tl bs)" using b(1) bs by (cases bs) auto
    then show ?thesis
      using assms(1) bs seps_ok_all_child [of bs "hd bs"]
      by (cases bs; cases c; cases "hd bs") (auto intro!: order_less_imp_le)
  qed simp
  from assms(2) show "T < x" using below cb hb bs by auto
qed

lemma landing_scan:
  assumes "seps_ok t"
  shows "omap_scan oid xid (landing (\<lambda>key. cmp_pair (omap_key key) (oid, xid)) t) =
    omap_scan oid xid (all_entries t)"
  using assms
proof (induction "\<lambda>key. cmp_pair (omap_key key) (oid, xid)" t rule: landing.induct)
  case (3 a k t cs)
  let ?cmp = "\<lambda>key. cmp_pair (omap_key key) (oid, xid)"
  let ?T = "(oid, xid)"
  have cmp: "?cmp q = Greater \<longleftrightarrow> ?T < omap_key q" for q
    by (auto simp: cmp_pair_def)
  obtain as k' bs where split: "(k, t) # cs = as @ (k', select_child ?cmp t ((k, t) # cs)) # bs"
    and left: "as = [] \<or> omap_key k' \<le> ?T"
    and right: "?T < omap_key k' \<or> (bs \<noteq> [] \<longrightarrow> ?T < omap_key (fst (hd bs)))"
  proof (cases "?cmp k = Greater")
    case True
    with that [of "[]" k cs] show ?thesis by (simp add: cmp)
  next
    case False
    then have sel: "select_child ?cmp t ((k, t) # cs) = select_child ?cmp t cs" by simp
    obtain as k' bs where "(k, t) # cs = as @ (k', select_child ?cmp t cs) # bs"
      "as = [] \<or> ?cmp k' \<noteq> Greater" "bs = [] \<or> ?cmp (fst (hd bs)) = Greater"
      using select_child_split [of k t cs ?cmp] by blast
    with that [of as k' bs] show ?thesis unfolding sel cmp not_less by blast
  qed
  define c where "c = select_child ?cmp t ((k, t) # cs)"
  have ok: "seps_ok_all (as @ (k', c) # bs)" 
    using "3.prems" unfolding c_def split [symmetric] by simp
  then have ok': "\<forall>a \<in> set as. \<forall>x \<in> keys_of (all_entries (snd a)). x < omap_key k'"
    "seps_ok_all ((k', c) # bs)"
    using seps_ok_all_append by fastforce+
  have "omap_scan oid xid (all_entries_of as @ all_entries c @ all_entries_of bs) =
      omap_scan oid xid (all_entries c)"
  proof (rule scan_middle)
    show "\<forall>x\<in>keys_of (all_entries_of bs). ?T < x"
      using seps_after [OF ok'(2), unfolded fst_conv, OF right] .
    show "all_entries_of as = [] \<or> (\<exists>x0\<in>keys_of (all_entries c). x0 \<le> ?T \<and>
        (\<forall>x\<in>keys_of (all_entries_of as). x < x0))"
    proof (cases "as = []")
      case False
      have "\<forall>x\<in>keys_of (all_entries_of as). x < omap_key k'" using ok'(1) keys_of_all by blast
      moreover have "omap_key k' \<in> keys_of (all_entries c)" using ok'(2) by simp
      ultimately show ?thesis using False left by blast
    qed simp
  qed
  moreover have "all_entries_of ((k, t) # cs) = all_entries_of as @ all_entries c @ all_entries_of bs"
    unfolding c_def by (subst split) (simp del: select_child.simps)
  moreover have "omap_scan oid xid (landing ?cmp c) = omap_scan oid xid (all_entries c)"
    using "3.hyps" ok'(2) unfolding c_def by (simp del: select_child.simps)
  ultimately show ?case by (simp add: c_def del: select_child.simps)
qed simp_all

lemma resolve_stored:
  assumes "stored (\<lambda>a. read_verified_node dev a bs) Omap t" and "root t = om_tree_oid om"
    and "height t \<le> 64" and "distinct (addrs t)" and "seps_ok t"
  shows "resolve dev om oid xid bs =
    ok_or (omap_scan oid xid (all_entries t)) (OmapUnresolved oid xid)"
proof -
  let ?cmp = "\<lambda>key. cmp_pair (omap_key key) (oid, xid)"
  have "find_leaf dev (om_tree_oid om) bs Omap ?cmp (omap_visit oid xid) None =
      Ok (visit_all (omap_visit oid xid) (landing ?cmp t) None)"
    unfolding assms(2) [symmetric] by (rule find_leaf_stored [OF assms(1,3,4)])
  then show ?thesis
    using landing_scan [OF assms(5), of oid xid] by (simp add: resolve_def omap_scan_def)
qed

lemma resolve_fails [no_panic, simp]:
  "fails_only (\<lambda>e. walk_error e \<or> e = OmapUnresolved oid xid) (resolve dev om oid xid bs)"
  unfolding resolve_def by (auto intro: fails_only_mono [OF find_leaf_fails])

lemma ObjectMap_parse_no_panic [no_panic, simp]: "ObjectMap_parse block \<noteq> Panic"
  by (auto simp: ObjectMap_parse_def Let_def split: option.splits)

section \<open>Properties\<close>

text \<open>
  C1 (refinement): on every source that stores a search-ordered object-map tree, resolving an oid at
  a transaction id by the single-path descent gives exactly what the specification asks of all the
  tree's mappings: a mapping of that oid whose transaction id is the greatest one not after the
  requested one, and the unresolved error precisely when the tree holds no such mapping.
\<close>

theorem resolve_finds_latest:
  assumes "stored (\<lambda>a. read_verified_node dev a bs) Omap t" and "root t = om_tree_oid om"
    and "height t \<le> 64" and "distinct (addrs t)" and "seps_ok t"
  shows "(\<exists>e \<in> set (all_entries t). answers oid xid e \<and> resolve dev om oid xid bs = Ok (entry_of e) \<and>
            (\<forall>e' \<in> set (all_entries t). answers oid xid e' \<longrightarrow> le_u64 (fst e') 8 \<le> le_u64 (fst e) 8)) \<or>
         (\<forall>e \<in> set (all_entries t). \<not> answers oid xid e) \<and>
            resolve dev om oid xid bs = Err (OmapUnresolved oid xid)"
proof (cases "omap_scan oid xid (all_entries t)")
  case None
  then show ?thesis
    using resolve_stored [OF assms, of oid xid] omap_scan_None_iff [of oid xid "all_entries t"] by simp
next
  case (Some b)
  then obtain e where "e \<in> set (all_entries t)" "answers oid xid e" "b = entry_of e"
    "\<forall>e' \<in> set (all_entries t). answers oid xid e' \<longrightarrow> le_u64 (fst e') 8 \<le> oe_xid b"
    using omap_scan_Some by blast
  then show ?thesis using resolve_stored [OF assms, of oid xid] Some by (auto simp: entry_of_def)
qed

definition demo_omap :: ObjectMap where
  "demo_omap = \<lparr>om_flags = 0, om_tree_type = 0, om_tree_oid = 1, om_snapshot_tree_oid = 0\<rparr>"

lemma demo_key_le [simp]: "le_u64 (demo_key a b) 0 = a" "le_u64 (demo_key a b) 8 = b"
  using le_to_le_bytes(3) [of b "[]"] by (simp_all add: demo_key_def slice_simps)

lemma demo_seps_ok: "seps_ok demo_tree"
  by (simp add: demo_tree_def demo_left_def demo_right_def keys_of_def omap_key_def)

theorem resolve_finds_latest_witness:
  "oe_xid ` {e. resolve (cursor (concat demo_blocks)) demo_omap 5 8 256 = Ok e} = {7}"
  using resolve_finds_latest [OF demo_stored _ _ _ demo_seps_ok, of demo_omap 5 8]
  by (auto simp: demo_omap_def demo_left_def demo_right_def answers_def entry_of_def word_le_nat_alt)

end
