(* ===== verification/Lib_Container.thy ===== *)
theory Lib_Container
  imports Checkpoint Omap
begin

text \<open>
  \<^verbatim>\<open>src/src/lib.rs\<close>: opening a container (block zero, the live checkpoint, the authoritative
  superblock) and resolving the addresses of its volume superblocks through the container object
  map. The reader owned by \<^verbatim>\<open>ApfsContainer\<close> is the \<open>device\<close> argument.
\<close>

record ApfsContainer =
  superblock :: NxSuperblock
  live_superblock_paddr :: u64
  checkpoint_mappings :: "CheckpointMapping list"

definition ApfsContainer_open :: "device \<Rightarrow> ApfsContainer res" where
  "ApfsContainer_open dev =
     (case dev 0 (unat NX_MINIMUM_BLOCK_SIZE) of
        Inl (UnexpectedEof t) \<Rightarrow> Err (NoValidSuperblock 0 0)
      | Inl k \<Rightarrow> Err (Io k)
      | Inr block0 \<Rightarrow>
          and_then (NxSuperblock_parse block0) (\<lambda>bootstrap.
            if is_fusion bootstrap then Err UnsupportedFusion
            else and_then (resolve_live_checkpoint dev bootstrap) (\<lambda>live.
              let block_size = unat (nx_block_size bootstrap);
                  offset = saturating_mul (superblock_paddr live) (word_of_nat block_size) in
              and_then (read_at dev offset block_size) (\<lambda>buf.
                and_then (NxSuperblock_parse buf) (\<lambda>sb.
                  Ok \<lparr>superblock = sb, live_superblock_paddr = superblock_paddr live,
                      checkpoint_mappings = mappings live\<rparr>)))))"

definition resolve_ephemeral :: "ApfsContainer \<Rightarrow> u64 \<Rightarrow> u64 option" where
  "resolve_ephemeral c oid =
     map_option cpm_paddr (List.find (\<lambda>m. cpm_oid m = oid) (checkpoint_mappings c))"

definition spaceman_paddr :: "ApfsContainer \<Rightarrow> u64 option" where
  "spaceman_paddr c = resolve_ephemeral c (spaceman_oid (superblock c))"

definition reaper_paddr :: "ApfsContainer \<Rightarrow> u64 option" where
  "reaper_paddr c = resolve_ephemeral c (reaper_oid (superblock c))"

definition volume_superblock_addrs :: "device \<Rightarrow> ApfsContainer \<Rightarrow> u64 list res" where
  "volume_superblock_addrs dev c =
     (let bs = nx_block_size (superblock c) in
      if \<not> block_size_ok bs
      then Err (FieldOutOfRange ''nx_superblock'' ''nx_block_size'' (ucast bs) (ucast NX_MAXIMUM_BLOCK_SIZE))
      else let block_size = unat bs;
               omap_off = saturating_mul (nx_omap_oid (superblock c)) (word_of_nat block_size);
               xid = nx_xid (superblock c) in
      and_then (read_at dev omap_off block_size) (\<lambda>buf.
        and_then (ObjectMap_parse buf) (\<lambda>omap.
          traverse (\<lambda>fs_oid. and_then (resolve dev omap fs_oid xid block_size) (\<lambda>entry. Ok (oe_paddr entry)))
            (fs_oids (superblock c)))))"

section \<open>Opening\<close>

text \<open>What opening asks of block zero.\<close>

definition bootstrap_ok :: "device \<Rightarrow> NxSuperblock \<Rightarrow> bool" where
  "bootstrap_ok dev boot \<longleftrightarrow> (\<exists>block0. dev 0 4096 = Inr block0 \<and> NxSuperblock_parse block0 = Ok boot) \<and>
     \<not> is_fusion boot \<and> \<not> xp_desc_is_tree boot \<and> block_size_ok (nx_block_size boot)"

lemma ring_member:
  assumes "(p, b) \<in> set (ring dev sb)"
  shows "read_block dev p (unat (nx_block_size sb)) = Ok (Some b)"
proof -
  obtain i :: nat where i: "(case read_block dev (xp_desc_base sb + word_of_nat i) (unat (nx_block_size sb)) of
      Ok (Some buf) \<Rightarrow> Some (xp_desc_base sb + word_of_nat i, buf) | _ \<Rightarrow> None) = Some (p, b)"
    using assms by (auto simp: ring_def set_map_filter Let_def)
  then show ?thesis
    by (cases "read_block dev (xp_desc_base sb + word_of_nat i) (unat (nx_block_size sb))")
      (auto split: option.splits)
qed

lemma valid_nx_parse:
  assumes "valid_nx b"
  shows "\<exists>sb. NxSuperblock_parse b = Ok sb \<and> nx_xid sb = le_u64 b 16"
proof -
  have "36 \<le> length b"
  proof (rule ccontr)
    assume "\<not> 36 \<le> length b"
    then have "le_u32 b 32 = 0" by (simp add: le_out_of_range)
    then show False using assms by (simp add: valid_nx_def NX_MAGIC_def)
  qed
  then show ?thesis
    using assms NxSuperblock_parse_Ok_iff NxSuperblock_parse_xid by (fastforce simp: valid_nx_def)
qed

lemma read_block_at:
  assumes "read_block dev p bs = Ok (Some b)"
  shows "read_at dev (saturating_mul p (word_of_nat bs)) bs = Ok b"
  using assms by (auto simp: read_block_Some_iff read_at_def dest: saturating_mul_checked)

text \<open>Opening succeeds, on the live superblock, whenever the ring holds a valid one.\<close>

lemma open_live:
  assumes "bootstrap_ok dev boot" and "ring_readable dev boot"
    and "nx_best (ring dev boot) None = Some (xid, p)"
  shows "\<exists>b sb. (p, b) \<in> set (ring dev boot) \<and> NxSuperblock_parse b = Ok sb \<and> nx_xid sb = xid \<and>
    ApfsContainer_open dev = Ok \<lparr>superblock = sb, live_superblock_paddr = p,
      checkpoint_mappings = concat (map block_mappings (filter (live_map xid) (map snd (ring dev boot))))\<rparr>"
proof -
  obtain b where b: "(p, b) \<in> set (ring dev boot)" "valid_nx b" "le_u64 b 16 = xid"
    using nx_best_Some [OF assms(3)] by auto
  obtain sb where sb: "NxSuperblock_parse b = Ok sb" "nx_xid sb = xid"
    using valid_nx_parse b(2,3) by blast
  have live: "resolve_live_checkpoint dev boot = Ok \<lparr>superblock_paddr = p, live_xid = xid,
        mappings = concat (map block_mappings (filter (live_map xid) (map snd (ring dev boot))))\<rparr>"
    using resolve_live_checkpoint_ring [OF assms(2)] assms(1,3) by (simp add: bootstrap_ok_def)
  have "read_at dev (saturating_mul p (word_of_nat (unat (nx_block_size boot)))) (unat (nx_block_size boot)) = Ok b"
    using read_block_at [OF ring_member [OF b(1)]] .
  then have "ApfsContainer_open dev = Ok \<lparr>superblock = sb, live_superblock_paddr = p,
      checkpoint_mappings = concat (map block_mappings (filter (live_map xid) (map snd (ring dev boot))))\<rparr>"
    using assms(1) sb(1) live
    by (auto simp: ApfsContainer_open_def bootstrap_ok_def NX_MINIMUM_BLOCK_SIZE_def Let_def)
  then show ?thesis using b(1) sb by blast
qed

lemma open_no_valid:
  assumes "bootstrap_ok dev boot" and "ring_readable dev boot"
    and "nx_best (ring dev boot) None = None"
  shows "\<exists>n m. ApfsContainer_open dev = Err (NoValidSuperblock n m)"
  using resolve_live_checkpoint_ring [OF assms(2)] assms(1,3)
  by (auto simp: ApfsContainer_open_def bootstrap_ok_def NX_MINIMUM_BLOCK_SIZE_def)

text \<open>Torn blocks outside the live checkpoint do not change what is opened.\<close>

definition live_of :: "ApfsContainer \<Rightarrow> LiveCheckpoint" where
  "live_of c = \<lparr>superblock_paddr = live_superblock_paddr c, live_xid = nx_xid (superblock c), mappings = checkpoint_mappings c\<rparr>"

lemma open_torn:
  assumes "ApfsContainer_open dev = Ok c" and "bootstrap_ok dev boot" and "ring_readable dev boot"
    and "dev' 0 4096 = dev 0 4096" and "ring_readable dev' boot"
    and torn: "list_all2 (torn_outside (live_of c)) (ring dev boot) (ring dev' boot)"
  shows "ApfsContainer_open dev' = Ok c"
proof -
  obtain x p where best: "nx_best (ring dev boot) None = Some (x, p)"
    using open_no_valid [OF assms(2,3)] assms(1) by (cases "nx_best (ring dev boot) None") auto
  obtain b sb where b: "(p, b) \<in> set (ring dev boot)" "NxSuperblock_parse b = Ok sb" "nx_xid sb = x"
    and c: "c = \<lparr>superblock = sb, live_superblock_paddr = p,
      checkpoint_mappings = concat (map block_mappings (filter (live_map x) (map snd (ring dev boot))))\<rparr>"
    using open_live [OF assms(2,3) best] assms(1) by auto
  have best': "nx_best (ring dev' boot) None = Some (x, p)"
    using nx_best_torn [OF best torn_outside_keeping [OF torn]] by (simp add: c live_of_def)
  have boot': "bootstrap_ok dev' boot" using assms(2,4) by (simp add: bootstrap_ok_def)
  obtain b' sb' where b': "(p, b') \<in> set (ring dev' boot)" "NxSuperblock_parse b' = Ok sb'"
    and c': "ApfsContainer_open dev' = Ok \<lparr>superblock = sb', live_superblock_paddr = p,
      checkpoint_mappings = concat (map block_mappings (filter (live_map x) (map snd (ring dev' boot))))\<rparr>"
    using open_live [OF boot' assms(5) best'] by blast
  obtain b2 where "(p, b2) \<in> set (ring dev' boot)" "valid_nx b2" using nx_best_Some [OF best'] by blast
  then have "(p, b2) \<in> set (ring dev boot)" "b2 = b'"
    using torn_valid [OF torn_outside_keeping [OF torn]] ring_member [of p b2 dev' boot] ring_member [OF b'(1)] by auto
  then have "b' = b" using ring_member [OF b(1)] ring_member [of p b2 dev boot] by simp
  then show ?thesis
    using torn_maps [OF torn] b b'(2) c' by (simp add: c live_of_def)
qed

text \<open>Every outcome of opening, on any source.\<close>

definition open_error :: "ApfsError \<Rightarrow> bool" where
  "open_error e \<longleftrightarrow> e = UnsupportedFusion \<or> e = CheckpointTreeUnsupported ''descriptor'' \<or> (\<exists>k. e = Io k) \<or>
     (\<exists>n m. e = NoValidSuperblock n m) \<or> (\<exists>b x y. e = ChecksumMismatch b x y \<and> x \<noteq> y) \<or>
     (\<exists>v. e = FieldOutOfRange ''nx_superblock'' ''nx_block_size'' v 65536)"

lemma open_error_simps: "open_error UnsupportedFusion" "open_error (Io k)" "open_error (NoValidSuperblock n m)"
  by (simp_all add: open_error_def)

lemma NxSuperblock_parse_fails: "fails_only open_error (NxSuperblock_parse b)"
  by (auto simp: NxSuperblock_parse_def Let_def open_error_def)

lemma ring_scan_Err: "ring_scan dev base bs f is s = Err e \<Longrightarrow> \<exists>k. e = Io k"
proof (induction "is" arbitrary: s)
  case (Cons i "is")
  then show ?case
    using read_block_fails [of dev]
    by (auto simp: res_simps add_u64_def fails_only_iff split: if_splits option.splits)
qed simp

lemma resolve_live_checkpoint_Err: "resolve_live_checkpoint dev sb = Err e \<Longrightarrow> open_error e"
  by (auto simp: resolve_live_checkpoint_def Let_def res_simps open_error_def NX_MAXIMUM_BLOCK_SIZE_def
      dest: ring_scan_Err split: if_splits option.splits)

lemma resolve_live_checkpoint_Ok:
  "resolve_live_checkpoint dev sb = Ok live \<Longrightarrow> \<not> xp_desc_is_tree sb \<and> block_size_ok (nx_block_size sb)"
  by (auto simp: resolve_live_checkpoint_def Let_def split: if_splits)

lemma open_Ok:
  assumes "ApfsContainer_open dev = Ok c"
  shows "\<exists>boot. bootstrap_ok dev boot \<and>
    (\<exists>b. read_at dev (saturating_mul (live_superblock_paddr c) (ucast (nx_block_size boot)))
           (unat (nx_block_size boot)) = Ok b \<and>
       NxSuperblock_parse b = Ok (superblock c) \<and> le_u32 b 32 = NX_MAGIC \<and> cksum_ok b)"
proof -
  obtain block0 boot live b where *: "dev 0 4096 = Inr block0" "NxSuperblock_parse block0 = Ok boot"
    "\<not> is_fusion boot" "resolve_live_checkpoint dev boot = Ok live"
    "read_at dev (saturating_mul (superblock_paddr live) (ucast (nx_block_size boot))) (unat (nx_block_size boot)) = Ok b"
    "NxSuperblock_parse b = Ok (superblock c)" "live_superblock_paddr c = superblock_paddr live"
    using assms
    by (auto simp: ApfsContainer_open_def res_simps Let_def NX_MINIMUM_BLOCK_SIZE_def
        split: sum.splits io_error.splits if_splits)
  then have "le_u32 b 32 = NX_MAGIC \<and> cksum_ok b" using NxSuperblock_parse_Ok_iff by blast
  with * show ?thesis using resolve_live_checkpoint_Ok by (auto simp: bootstrap_ok_def)
qed

lemma open_Err:
  assumes "ApfsContainer_open dev = Err e"
  shows "open_error e"
proof -
  have "open_error e" if "NxSuperblock_parse b = Err e" for b
    using NxSuperblock_parse_fails [of b] that by simp
  then show ?thesis
    using assms
    by (auto simp: ApfsContainer_open_def res_simps Let_def open_error_simps split: sum.splits io_error.splits if_splits
        dest!: resolve_live_checkpoint_Err read_at_Err)
qed

lemma open_Panic:
  assumes "ApfsContainer_open dev = Panic"
  shows "\<exists>boot. bootstrap_ok dev boot \<and> 2 ^ 64 < unat (xp_desc_base boot) + unat (xp_desc_blocks boot)"
  using assms
  by (auto simp: ApfsContainer_open_def res_simps Let_def bootstrap_ok_def NX_MINIMUM_BLOCK_SIZE_def
      resolve_live_checkpoint_panic_iff split: sum.splits io_error.splits if_splits)

section \<open>The volume superblocks\<close>

lemma volume_superblock_addrs_stored:
  assumes "block_size_ok (nx_block_size (superblock c))"
    and "read_at dev (saturating_mul (nx_omap_oid (superblock c)) (ucast (nx_block_size (superblock c))))
      (unat (nx_block_size (superblock c))) = Ok buf"
    and "ObjectMap_parse buf = Ok om"
    and "stored (\<lambda>a. read_verified_node dev a (unat (nx_block_size (superblock c)))) Omap t"
    and "root t = om_tree_oid om" and "height t \<le> 64" and "distinct (addrs t)" and "seps_ok t"
  shows "volume_superblock_addrs dev c =
    traverse (\<lambda>oid. ok_or (map_option oe_paddr (omap_scan oid (nx_xid (superblock c)) (all_entries t)))
        (OmapUnresolved oid (nx_xid (superblock c)))) (fs_oids (superblock c))"
proof -
  have "word_of_nat (unat (nx_block_size (superblock c))) = (ucast (nx_block_size (superblock c)) :: u64)"
    by simp
  then show ?thesis
    using assms(1-3)
    by (simp add: volume_superblock_addrs_def Let_def resolve_stored [OF assms(4-8)] and_then_ok_or)
qed

lemma block_mappings_length: "length (block_mappings b) \<le> 4096"
proof -
  have "unat (min (le_u32 b CPM_COUNT_OFF) MAX_CPM_COUNT) \<le> unat MAX_CPM_COUNT"
    by (simp add: word_le_nat_alt [symmetric])
  then show ?thesis by (simp add: block_mappings_def MAX_CPM_COUNT_def)
qed

section \<open>Properties\<close>

text \<open>
  Opening a container whose block zero is a valid, non-Fusion superblock and whose
  descriptor ring is readable succeeds precisely when the ring holds a valid superblock, and then
  on the authoritative one: the superblock parsed from a ring block whose transaction id no other
  valid superblock of the ring exceeds. Otherwise it fails with \<^verbatim>\<open>NoValidSuperblock\<close>.
\<close>

lemma open_selects_live_superblock:
  assumes "bootstrap_ok dev boot" and "ring_readable dev boot"
  shows "(\<exists>p b sb ms. ApfsContainer_open dev =
        Ok \<lparr>superblock = sb, live_superblock_paddr = p, checkpoint_mappings = ms\<rparr> \<and>
      (p, b) \<in> set (ring dev boot) \<and> NxSuperblock_parse b = Ok sb \<and>
      (\<forall>(p', b') \<in> set (ring dev boot). valid_nx b' \<longrightarrow> le_u64 b' 16 \<le> nx_xid sb)) \<or>
    (\<forall>(p, b) \<in> set (ring dev boot). \<not> valid_nx b) \<and>
      (\<exists>n m. ApfsContainer_open dev = Err (NoValidSuperblock n m))"
proof (cases "nx_best (ring dev boot) None")
  case None
  then show ?thesis
    using open_no_valid [OF assms None] nx_best_None_iff [THEN iffD1, OF None] by blast
next
  case (Some y)
  obtain x p where y: "y = (x, p)" by (cases y)
  show ?thesis
    using open_live [OF assms, of x p] nx_best_Some [of "ring dev boot" x p] Some unfolding y by blast
qed

text \<open>A container image of six blocks: block zero, two checkpoints, object map, its tree, a volume.\<close>

definition demo_omap_phys :: bytes where
  "demo_omap_phys = seal (replicate 24 0 @ to_le_bytes (0xb :: u32) @ replicate 20 0 @
     to_le_bytes (4 :: u64) @ replicate 4040 0)"

definition demo_omap_leaf :: "Entry list" where
  "demo_omap_leaf = [(demo_key 5 2, demo_val 9), (demo_key 5 6, demo_val 5), (demo_key 5 8, demo_val 11)]"

definition demo_image :: "bytes list" where
  "demo_image = [demo_nx 3, demo_nx 7, demo_nx 3, demo_omap_phys,
     node_block 4096 demo_obj 0x7 0 demo_omap_leaf]"

lemma demo_image_blocks: "\<forall>b \<in> set demo_image. length b = 4096" "length demo_image = 5"
  by (auto simp: demo_image_def demo_omap_phys_def demo_omap_leaf_def demo_defs node_used_def toc_entry_len_def
      node_footer_def BTNODE_FIXED_KV_SIZE_def BTNODE_ROOT_def intro!: length_node_block)

lemma demo_block0: "cursor (concat demo_image) 0 4096 = Inr (demo_nx 3)"
  using cursor_block [OF demo_image_blocks(1), of 0 0] by (simp add: demo_image_def)

lemma demo_bootstrap_ok: "bootstrap_ok (cursor (concat demo_image)) (demo_sb 3)"
  by (simp add: bootstrap_ok_def demo_block0 demo_nx_parse demo_sb_fields is_fusion_def block_size_ok_def
      NX_MINIMUM_BLOCK_SIZE_def NX_MAXIMUM_BLOCK_SIZE_def)

lemma demo_image_ring: "ring (cursor (concat demo_image)) (demo_sb 3) = [(1, demo_nx 7), (2, demo_nx 3)]"
  unfolding demo_image_def
  by (rule demo_ring) (use demo_image_blocks in \<open>auto simp: demo_image_def\<close>)

text \<open>
  C15 (safety): a crash while the next checkpoint is being written loses nothing. If any blocks of the
  descriptor ring become torn (wrong checksum), outside the superblock and the map blocks of the live
  checkpoint, opening gives the same container: same superblock, same address, same mappings.
\<close>

theorem torn_checkpoint_ignored:
  assumes "ApfsContainer_open dev = Ok c" and "bootstrap_ok dev boot" and "ring_readable dev boot"
    and "dev' 0 4096 = dev 0 4096" and "ring_readable dev' boot"
    and "list_all2 (torn_outside (live_of c)) (ring dev boot) (ring dev' boot)"
  shows "ApfsContainer_open dev' = Ok c"
  using assms by (rule open_torn)

theorem torn_checkpoint_ignored_witness:
  "\<exists>ms. ApfsContainer_open (cursor (concat (demo_image[2 := wiped]))) =
     Ok \<lparr>superblock = demo_sb 7, live_superblock_paddr = 1, checkpoint_mappings = ms\<rparr>"
proof -
  have best: "nx_best (ring (cursor (concat demo_image)) (demo_sb 3)) None = Some (7, 1)"
    by (simp add: demo_image_ring nx_best_def demo_nx_valid demo_nx_fields(1) word_less_nat_alt)
  obtain ms where c: "ApfsContainer_open (cursor (concat demo_image)) =
      Ok \<lparr>superblock = demo_sb 7, live_superblock_paddr = 1, checkpoint_mappings = ms\<rparr>"
    using open_live [OF demo_bootstrap_ok demo_ring_readable best] by (auto simp: demo_image_ring demo_nx_parse)
  have img: "demo_image[2 := wiped] = [demo_nx 3, demo_nx 7, wiped, demo_omap_phys, node_block 4096 demo_obj 0x7 0 demo_omap_leaf]"
    by (simp add: demo_image_def)
  have "ring (cursor (concat (demo_image[2 := wiped]))) (demo_sb 3) = [(1, demo_nx 7), (2, wiped)]"
    unfolding img by (rule two_block_ring) (use demo_image_blocks in \<open>auto simp: demo_image_def wiped_def\<close>)
  moreover have "cursor (concat (demo_image[2 := wiped])) 0 4096 = cursor (concat demo_image) 0 4096"
    unfolding img by (simp add: demo_block0) (simp add: cursor_def)
  ultimately show ?thesis
    using torn_checkpoint_ignored [OF c demo_bootstrap_ok demo_ring_readable _ demo_ring_readable,
        of "concat (demo_image[2 := wiped])"] wiped_invalid
    by (simp add: demo_image_ring torn_outside_def live_of_def demo_nx_not_map)
qed

lemma demo_omap_phys_parse:
  "ObjectMap_parse demo_omap_phys =
     Ok \<lparr>om_flags = 0, om_tree_type = 0, om_tree_oid = 4, om_snapshot_tree_oid = 0\<rparr>"
proof -
  have "cksum_ok demo_omap_phys" unfolding demo_omap_phys_def by (rule seal_cksum_ok) simp
  moreover have "le_u32 demo_omap_phys 24 = 0xb" "le_u32 demo_omap_phys 32 = 0" "le_u32 demo_omap_phys 40 = 0"
    "le_u64 demo_omap_phys 48 = 4" "le_u64 demo_omap_phys 56 = 0" "length demo_omap_phys = 4096"
    by (simp_all add: demo_omap_phys_def le_seal slice_simps)
  ultimately show ?thesis
    by (simp add: ObjectMap_parse_def ObjPhys_parse_def obj_type_def OBJ_PHYS_LEN_def OBJECT_TYPE_OMAP_def
        OMAP_PHYS_MIN_LEN_def)
qed

text \<open>
  C36 (error): opening any source whatever never panics unless the descriptor area that a valid block
  zero names runs past the 64-bit address space, and the only errors are those the code names.
\<close>

theorem open_outcome:
  "case ApfsContainer_open dev of
     Ok c \<Rightarrow> \<exists>boot. bootstrap_ok dev boot \<and>
        (\<exists>b. read_at dev (saturating_mul (live_superblock_paddr c) (ucast (nx_block_size boot)))
               (unat (nx_block_size boot)) = Ok b \<and>
           NxSuperblock_parse b = Ok (superblock c) \<and> le_u32 b 32 = NX_MAGIC \<and> cksum_ok b)
   | Err e \<Rightarrow> open_error e
   | Panic \<Rightarrow> \<exists>boot. bootstrap_ok dev boot \<and> 2 ^ 64 < unat (xp_desc_base boot) + unat (xp_desc_blocks boot)"
proof (cases "ApfsContainer_open dev")
  case (Ok c)
  then show ?thesis using open_Ok by fastforce
next
  case (Err e)
  then show ?thesis using open_Err by simp
next
  case Panic
  then show ?thesis using open_Panic by simp
qed

end
