(* ===== verification/Utf8.thy ===== *)
theory Utf8
  imports Bytes
begin

text \<open>
  What the crate uses of Rust strings: a \<^verbatim>\<open>String\<close> is the list of its UTF-8 bytes;
  \<^verbatim>\<open>String::from_utf8_lossy\<close> with the standard library's maximal-subpart replacement,
  \<^verbatim>\<open>str::from_utf8\<close> as the validity test, and the \<^verbatim>\<open>decode_cstr\<close> helper the crate repeats in
  \<^verbatim>\<open>dir.rs\<close>, \<^verbatim>\<open>inode.rs\<close>, \<^verbatim>\<open>xattr.rs\<close> and \<^verbatim>\<open>snapshot.rs\<close>. The lemmas show that a decoded
  name is always valid UTF-8 without a zero byte and that valid bytes are decoded unchanged.
\<close>

type_synonym rstring = bytes

text \<open>One step of the decoder: is the next sequence valid, and how many bytes it takes.\<close>

definition is_cont :: "u8 \<Rightarrow> bool" where
  "is_cont b \<longleftrightarrow> b AND 192 = 128"

definition safe_get :: "bytes \<Rightarrow> usize \<Rightarrow> u8" where
  "safe_get xs i = (if i < length xs then xs ! i else 0)"

definition second_of_3 :: "u8 \<Rightarrow> u8 \<Rightarrow> bool" where
  "second_of_3 b c \<longleftrightarrow>
     b = 0xE0 \<and> 0xA0 \<le> c \<and> c \<le> 0xBF \<or> 0xE1 \<le> b \<and> b \<le> 0xEC \<and> 0x80 \<le> c \<and> c \<le> 0xBF \<or>
     b = 0xED \<and> 0x80 \<le> c \<and> c \<le> 0x9F \<or> 0xEE \<le> b \<and> b \<le> 0xEF \<and> 0x80 \<le> c \<and> c \<le> 0xBF"

definition second_of_4 :: "u8 \<Rightarrow> u8 \<Rightarrow> bool" where
  "second_of_4 b c \<longleftrightarrow>
     b = 0xF0 \<and> 0x90 \<le> c \<and> c \<le> 0xBF \<or> 0xF1 \<le> b \<and> b \<le> 0xF3 \<and> 0x80 \<le> c \<and> c \<le> 0xBF \<or>
     b = 0xF4 \<and> 0x80 \<le> c \<and> c \<le> 0x8F"

definition utf8_next :: "u8 \<Rightarrow> bytes \<Rightarrow> bool \<times> usize" where
  "utf8_next b r =
     (if b < 128 then (True, 1)
      else if 0xC2 \<le> b \<and> b \<le> 0xDF then (if is_cont (safe_get r 0) then (True, 2) else (False, 1))
      else if 0xE0 \<le> b \<and> b \<le> 0xEF then
        (if \<not> second_of_3 b (safe_get r 0) then (False, 1)
         else if \<not> is_cont (safe_get r 1) then (False, 2) else (True, 3))
      else if 0xF0 \<le> b \<and> b \<le> 0xF4 then
        (if \<not> second_of_4 b (safe_get r 0) then (False, 1)
         else if \<not> is_cont (safe_get r 1) then (False, 2)
         else if \<not> is_cont (safe_get r 2) then (False, 3) else (True, 4))
      else (False, 1))"

lemma utf8_next_pos: "0 < snd (utf8_next b r)"
  by (simp add: utf8_next_def)

lemma utf8_next_shrinks: "(ok, n) = utf8_next b r \<Longrightarrow> length (drop n (b # r)) < length (b # r)"
  using utf8_next_pos [of b r] by (cases n) (auto simp: less_Suc_eq_le dest: sym)

function from_utf8_lossy :: "bytes \<Rightarrow> rstring" where
  "from_utf8_lossy [] = []"
| "from_utf8_lossy (b # r) =
     (let (ok, n) = utf8_next b r in
      (if ok then take n (b # r) else [0xEF, 0xBF, 0xBD]) @ from_utf8_lossy (drop n (b # r)))"
  by pat_completeness auto
termination
  by (relation "measure length") (use utf8_next_shrinks in \<open>simp_all del: drop_Suc_Cons length_drop\<close>)

function valid_utf8 :: "bytes \<Rightarrow> bool" where
  "valid_utf8 [] = True"
| "valid_utf8 (b # r) = (let (ok, n) = utf8_next b r in ok \<and> valid_utf8 (drop n (b # r)))"
  by pat_completeness auto
termination
  by (relation "measure length") (use utf8_next_shrinks in \<open>simp_all del: drop_Suc_Cons length_drop\<close>)

declare from_utf8_lossy.simps(2) [simp del] valid_utf8.simps(2) [simp del]

definition decode_cstr :: "bytes \<Rightarrow> rstring" where
  "decode_cstr data = from_utf8_lossy (takeWhile (\<lambda>b. b \<noteq> 0) data)"

section \<open>Decoded names\<close>

lemma from_utf8_lossy_valid: "valid_utf8 xs \<Longrightarrow> from_utf8_lossy xs = xs"
proof (induction xs rule: valid_utf8.induct)
  case (2 b r)
  obtain ok n where n: "utf8_next b r = (ok, n)" by fastforce
  with "2.prems" have ok: "ok" "valid_utf8 (drop n (b # r))" by (simp_all add: valid_utf8.simps(2))
  then have "from_utf8_lossy (drop n (b # r)) = drop n (b # r)" using "2.IH" [OF n [symmetric]] by simp
  then show ?case using ok(1) by (simp add: from_utf8_lossy.simps(2) n)
qed simp

lemma valid_utf8_ascii: "\<forall>b \<in> set xs. b < 128 \<Longrightarrow> valid_utf8 xs"
  by (induction xs) (auto simp: valid_utf8.simps utf8_next_def)

lemma cont_not_zero: "is_cont (safe_get r i) \<Longrightarrow> i < length r"
  by (rule ccontr) (simp add: safe_get_def is_cont_def)

text \<open>A valid step reads only its own bytes, so it stays valid whatever follows.\<close>

lemma utf8_next_valid_append:
  assumes "utf8_next b r = (True, n)"
  shows "n \<le> Suc (length r) \<and> utf8_next b (take (n - 1) r @ ys) = (True, n)"
proof -
  have get: "safe_get (take m r @ ys) i = safe_get r i" if "i < m" "m \<le> length r" for i m
    using that by (simp add: safe_get_def nth_append)
  have len: "n \<le> Suc (length r)"
    using assms cont_not_zero [of r 0] cont_not_zero [of r 1] cont_not_zero [of r 2]
    by (auto simp: utf8_next_def Suc_le_eq split: if_splits)
  show ?thesis
    using assms len get [of 0 "n - 1"] get [of 1 "n - 1"] get [of 2 "n - 1"]
    by (auto simp: utf8_next_def split: if_splits)
qed

lemma valid_utf8_step:
  assumes "utf8_next b r = (True, n)" and "valid_utf8 ys"
  shows "valid_utf8 (take n (b # r) @ ys)"
proof -
  have n: "n = Suc (n - 1)" using utf8_next_pos [of b r] assms(1) by simp
  have step: "n \<le> Suc (length r)" "utf8_next b (take (n - 1) r @ ys) = (True, n)"
    using utf8_next_valid_append [OF assms(1)] by simp_all
  have "take n (b # r) @ ys = b # (take (n - 1) r @ ys)" by (subst n) simp
  moreover have "drop n (b # (take (n - 1) r @ ys)) = ys" using step(1) by (subst n) simp
  ultimately show ?thesis using step(2) assms(2) by (simp add: valid_utf8.simps(2))
qed

lemma replacement_valid: "valid_utf8 ys \<Longrightarrow> valid_utf8 ([0xEF, 0xBF, 0xBD] @ ys)"
  by (simp add: valid_utf8.simps(2) utf8_next_def safe_get_def second_of_3_def is_cont_def
      word_le_nat_alt word_less_nat_alt)

lemma valid_from_utf8_lossy: "valid_utf8 (from_utf8_lossy xs)"
proof (induction xs rule: from_utf8_lossy.induct)
  case (2 b r)
  obtain ok n where n: "utf8_next b r = (ok, n)" by fastforce
  have "valid_utf8 (from_utf8_lossy (drop n (b # r)))" using "2.IH" [OF n [symmetric]] by simp
  then show ?case
    using valid_utf8_step [of b r n] replacement_valid n
    by (cases ok) (simp_all add: from_utf8_lossy.simps(2) del: append_Cons take_Cons')
qed simp

lemma decode_cstr_valid: "valid_utf8 (decode_cstr data)"
  by (simp add: decode_cstr_def valid_from_utf8_lossy)

lemma decode_cstr_terminated:
  "valid_utf8 s \<Longrightarrow> 0 \<notin> set s \<Longrightarrow> decode_cstr (s @ 0 # rest) = s"
proof -
  assume "valid_utf8 s" "0 \<notin> set s"
  then have "takeWhile (\<lambda>b. b \<noteq> 0) (s @ 0 # rest) = s"
    by (subst takeWhile_append2) auto
  then show ?thesis using \<open>valid_utf8 s\<close> by (simp add: decode_cstr_def from_utf8_lossy_valid)
qed

text \<open>What a decoded name is: UTF-8 without a zero byte.\<close>

definition name_ok :: "rstring \<Rightarrow> bool" where
  "name_ok s \<longleftrightarrow> valid_utf8 s \<and> 0 \<notin> set s"

lemma zero_in_from_utf8_lossy: "0 \<in> set (from_utf8_lossy xs) \<Longrightarrow> 0 \<in> set xs"
proof (induction xs rule: from_utf8_lossy.induct)
  case (2 b r)
  obtain ok n where n: "utf8_next b r = (ok, n)" by fastforce
  have "0 \<in> set (take n (b # r)) \<or> 0 \<in> set (from_utf8_lossy (drop n (b # r)))"
    using "2.prems" by (auto simp: from_utf8_lossy.simps(2) n split: if_splits)
  then show ?case using "2.IH" [OF n [symmetric] refl] by (meson in_set_dropD in_set_takeD)
qed simp

lemma decode_cstr_name_ok [simp]: "name_ok (decode_cstr data)"
  using zero_in_from_utf8_lossy [of "takeWhile (\<lambda>b. b \<noteq> 0) data"]
  by (auto simp: name_ok_def decode_cstr_def valid_from_utf8_lossy dest: set_takeWhileD)

end
