(* ===== verification/Volume.thy ===== *)
theory Volume
  imports Obj_Phys Utf8
begin

text \<open>
  \<^verbatim>\<open>src/src/volume.rs\<close>: the volume superblock \<^verbatim>\<open>apfs_superblock_t\<close>, parsed behind the length,
  type, magic and checksum gates.
\<close>

definition APFS_MAGIC :: u32 where "APFS_MAGIC = 0x42535041"
definition OBJECT_TYPE_FS :: u16 where "OBJECT_TYPE_FS = 0xd"
definition OFF_VOLNAME :: usize where "OFF_VOLNAME = 704"
definition VOLNAME_LEN :: usize where "VOLNAME_LEN = 256"
definition APSB_MIN_LEN :: usize where "APSB_MIN_LEN = OFF_VOLNAME + VOLNAME_LEN"

record ApfsVolume =
  vol_oid :: u64
  vol_xid :: u64
  vol_fs_index :: u32
  vol_features :: u64
  vol_readonly_compatible_features :: u64
  vol_incompatible_features :: u64
  vol_root_tree_type :: u32
  vol_omap_oid :: u64
  vol_root_tree_oid :: u64
  vol_extentref_tree_oid :: u64
  vol_snap_meta_tree_oid :: u64
  vol_uuid :: bytes
  vol_fs_flags :: u64
  vol_name :: rstring

definition decode_volname :: "bytes \<Rightarrow> usize \<Rightarrow> usize \<Rightarrow> rstring" where
  "decode_volname block offset len =
     (case get_range block offset (offset + len) of
        None \<Rightarrow> []
      | Some field \<Rightarrow> from_utf8_lossy (takeWhile (\<lambda>b. b \<noteq> 0) field))"

text \<open>Field offsets.\<close>

definition OFF_APSB_MAGIC :: usize where [simp]: "OFF_APSB_MAGIC = 32"
definition OFF_FS_INDEX :: usize where [simp]: "OFF_FS_INDEX = 36"
definition OFF_FEATURES :: usize where [simp]: "OFF_FEATURES = 40"
definition OFF_RO_COMPAT_FEATURES :: usize where [simp]: "OFF_RO_COMPAT_FEATURES = 48"
definition OFF_APSB_INCOMPAT_FEATURES :: usize where [simp]: "OFF_APSB_INCOMPAT_FEATURES = 56"
definition OFF_ROOT_TREE_TYPE :: usize where [simp]: "OFF_ROOT_TREE_TYPE = 116"
definition OFF_APSB_OMAP_OID :: usize where [simp]: "OFF_APSB_OMAP_OID = 128"
definition OFF_ROOT_TREE_OID :: usize where [simp]: "OFF_ROOT_TREE_OID = 136"
definition OFF_EXTENTREF_TREE_OID :: usize where [simp]: "OFF_EXTENTREF_TREE_OID = 144"
definition OFF_SNAP_META_TREE_OID :: usize where [simp]: "OFF_SNAP_META_TREE_OID = 152"
definition OFF_VOL_UUID :: usize where [simp]: "OFF_VOL_UUID = 240"
definition OFF_FS_FLAGS :: usize where [simp]: "OFF_FS_FLAGS = 256"

definition ApfsVolume_parse :: "bytes \<Rightarrow> ApfsVolume res" where
  "ApfsVolume_parse block =
     (if length block < APSB_MIN_LEN then Err (UnexpectedObjectType ''apfs_superblock'' APFS_MAGIC 0)
      else (case ObjPhys_parse block of
        None \<Rightarrow> Err (UnexpectedObjectType ''apfs_superblock'' APFS_MAGIC 0)
      | Some hdr \<Rightarrow>
          if obj_type hdr \<noteq> OBJECT_TYPE_FS
          then Err (UnexpectedObjectType ''apfs_superblock'' (ucast OBJECT_TYPE_FS) (obj_type_raw hdr))
          else let magic = le_u32 block OFF_APSB_MAGIC in
          if magic \<noteq> APFS_MAGIC then Err (UnexpectedObjectType ''apfs_superblock'' APFS_MAGIC magic)
          else let stored = fletcher64_stored block; computed = fletcher64_checksum block in
          if stored \<noteq> computed then Err (ChecksumMismatch (o_oid hdr) stored computed)
          else Ok \<lparr>vol_oid = o_oid hdr, vol_xid = o_xid hdr, vol_fs_index = le_u32 block OFF_FS_INDEX,
                   vol_features = le_u64 block OFF_FEATURES, vol_readonly_compatible_features = le_u64 block OFF_RO_COMPAT_FEATURES,
                   vol_incompatible_features = le_u64 block OFF_APSB_INCOMPAT_FEATURES, vol_root_tree_type = le_u32 block OFF_ROOT_TREE_TYPE,
                   vol_omap_oid = le_u64 block OFF_APSB_OMAP_OID, vol_root_tree_oid = le_u64 block OFF_ROOT_TREE_OID,
                   vol_extentref_tree_oid = le_u64 block OFF_EXTENTREF_TREE_OID, vol_snap_meta_tree_oid = le_u64 block OFF_SNAP_META_TREE_OID,
                   vol_uuid = arr 16 block OFF_VOL_UUID, vol_fs_flags = le_u64 block OFF_FS_FLAGS,
                   vol_name = decode_volname block OFF_VOLNAME VOLNAME_LEN\<rparr>))"

definition with_omap_oid :: "ApfsVolume \<Rightarrow> u64 \<Rightarrow> ApfsVolume" where
  "with_omap_oid v oid = v\<lparr>vol_omap_oid := oid\<rparr>"

lemma ApfsVolume_parse_fails [no_panic, simp]:
  "fails_only (\<lambda>e. (\<exists>x y. e = UnexpectedObjectType ''apfs_superblock'' x y) \<or>
     (\<exists>b x y. e = ChecksumMismatch b x y \<and> x \<noteq> y)) (ApfsVolume_parse block)"
  by (auto simp: ApfsVolume_parse_def Let_def split: option.splits)

text \<open>No field is trusted before all gates.\<close>

lemma ApfsVolume_parse_Ok:
  assumes "ApfsVolume_parse block = Ok v"
  shows "960 \<le> length block \<and> le_u32 block 32 = APFS_MAGIC \<and> cksum_ok block \<and>
    vol_oid v = le_u64 block 8 \<and> vol_xid v = le_u64 block 16 \<and> vol_omap_oid v = le_u64 block 128 \<and>
    vol_root_tree_oid v = le_u64 block 136 \<and> vol_snap_meta_tree_oid v = le_u64 block 152 \<and>
    valid_utf8 (vol_name v)"
  using assms
  by (auto simp: ApfsVolume_parse_def ObjPhys_parse_def Let_def APSB_MIN_LEN_def OFF_VOLNAME_def VOLNAME_LEN_def
      decode_volname_def valid_from_utf8_lossy split: option.splits if_splits)

section \<open>Properties\<close>

definition apsb_gates :: "bytes \<Rightarrow> bool" where
  "apsb_gates block \<longleftrightarrow> 960 \<le> length block \<and> (ucast (le_u32 block 24) :: u16) = 0xd \<and>
     le_u32 block 32 = 0x42535041 \<and> fletcher64_stored block = fletcher64_checksum block"

lemma low_u16: "(ucast (w AND 0xffff) :: u16) = ucast (w :: u32)"
proof -
  have "w AND 0xffff = take_bit 16 w" by (simp add: take_bit_eq_mask mask_eq_exp_minus_1)
  then show ?thesis by (simp add: unsigned_ucast_eq word_unat_eq_iff unsigned_take_bit_eq)
qed

text \<open>
  A block parses as a volume superblock exactly when it is long enough, of the file-system
  type, has the magic and a valid checksum; the tree roots come from their offsets, the volume name is
  valid UTF-8, and a refused block gets a type or checksum error, never a panic.
\<close>

lemma volume_superblock_gate:
  "case ApfsVolume_parse block of
     Ok v \<Rightarrow> apsb_gates block \<and> vol_xid v = le_u64 block 16 \<and> vol_omap_oid v = le_u64 block 128 \<and>
       vol_root_tree_oid v = le_u64 block 136 \<and> vol_snap_meta_tree_oid v = le_u64 block 152 \<and> valid_utf8 (vol_name v)
   | Err e \<Rightarrow> \<not> apsb_gates block \<and> ((\<exists>x y. e = UnexpectedObjectType ''apfs_superblock'' x y) \<or>
       (\<exists>b x y. e = ChecksumMismatch b x y \<and> x \<noteq> y))
   | Panic \<Rightarrow> False"
  by (auto simp: ApfsVolume_parse_def ObjPhys_parse_def OBJ_PHYS_LEN_def obj_type_def low_u16 Let_def APSB_MIN_LEN_def
      OFF_VOLNAME_def VOLNAME_LEN_def decode_volname_def valid_from_utf8_lossy apsb_gates_def OBJECT_TYPE_FS_def
      APFS_MAGIC_def split: option.splits)

end
