(* ===== verification/Fsrecord.thy ===== *)
theory Fsrecord
  imports Bytes
begin

text \<open>
  \<^verbatim>\<open>src/src/fsrecord.rs\<close>: the key word of file-system records and the walk over an extended-field
  area. The lemmas give the round trip of the key word, that the field walk never indexes out of
  range, and that it gives back the fields of an area laid out as documented.
\<close>

datatype RecordType =
    RT_SnapMetadata | RT_Extent | RT_Inode | RT_Xattr | RT_SiblingLink | RT_DstreamId | RT_CryptoState
  | RT_FileExtent | RT_DirRec | RT_DirStats | RT_SnapName | RT_SiblingMap | RT_FileInfo

definition from_u4 :: "u8 \<Rightarrow> RecordType option" where
  "from_u4 value =
     (if value = 1 then Some RT_SnapMetadata else if value = 2 then Some RT_Extent
      else if value = 3 then Some RT_Inode else if value = 4 then Some RT_Xattr
      else if value = 5 then Some RT_SiblingLink else if value = 6 then Some RT_DstreamId
      else if value = 7 then Some RT_CryptoState else if value = 8 then Some RT_FileExtent
      else if value = 9 then Some RT_DirRec else if value = 10 then Some RT_DirStats
      else if value = 11 then Some RT_SnapName else if value = 12 then Some RT_SiblingMap
      else if value = 13 then Some RT_FileInfo else None)"

definition OBJ_TYPE_SHIFT :: nat where "OBJ_TYPE_SHIFT = 60"
definition OBJ_ID_MASK :: u64 where "OBJ_ID_MASK = 0x0fffffffffffffff"

definition decode_jkey :: "u64 \<Rightarrow> u64 \<times> RecordType option" where
  "decode_jkey w =
     (let oid = w AND OBJ_ID_MASK;
          ty = ucast ((drop_bit OBJ_TYPE_SHIFT w) AND 0xf) :: u8
      in (oid, from_u4 ty))"

definition XF_DESC_OFF :: usize where "XF_DESC_OFF = 4"
definition XF_DESC_LEN :: usize where "XF_DESC_LEN = 4"
definition MAX_XF_NUM_EXTS :: usize where "MAX_XF_NUM_EXTS = 4096"

text \<open>The loop over the descriptors; \<open>value_off\<close> is where the next value starts.\<close>

fun xf_loop :: "bytes \<Rightarrow> usize list \<Rightarrow> usize \<Rightarrow> (u8 \<times> bytes) list res" where
  "xf_loop data [] value_off = Ok []"
| "xf_loop data (i # is) value_off =
     (let d = XF_DESC_OFF + i * XF_DESC_LEN in
      and_then (index data d) (\<lambda>x_type.
        let x_size = unat (le_u16 data (d + 2)) in
        case get_range data value_off (value_off + x_size) of
          None \<Rightarrow> Ok []
        | Some value \<Rightarrow>
            and_then (xf_loop data is (value_off + (x_size + 7) div 8 * 8)) (\<lambda>out.
              Ok ((x_type, value) # out))))"

text \<open>Field offsets.\<close>

definition OFF_XF_NUM_EXTS :: usize where [simp]: "OFF_XF_NUM_EXTS = 0"

definition parse_xfields :: "bytes \<Rightarrow> (u8 \<times> bytes) list res" where
  "parse_xfields data =
     (if length data < XF_DESC_OFF then Ok []
      else let num = min (unat (le_u16 data OFF_XF_NUM_EXTS)) MAX_XF_NUM_EXTS;
               desc_end = num * XF_DESC_LEN + XF_DESC_OFF in
        if desc_end > length data then Ok []
        else xf_loop data [0..<num] desc_end)"

section \<open>The key word\<close>

definition type_code :: "RecordType \<Rightarrow> u64" where
  "type_code t = (case t of RT_SnapMetadata \<Rightarrow> 1 | RT_Extent \<Rightarrow> 2 | RT_Inode \<Rightarrow> 3 | RT_Xattr \<Rightarrow> 4
     | RT_SiblingLink \<Rightarrow> 5 | RT_DstreamId \<Rightarrow> 6 | RT_CryptoState \<Rightarrow> 7 | RT_FileExtent \<Rightarrow> 8 | RT_DirRec \<Rightarrow> 9
     | RT_DirStats \<Rightarrow> 10 | RT_SnapName \<Rightarrow> 11 | RT_SiblingMap \<Rightarrow> 12 | RT_FileInfo \<Rightarrow> 13)"

definition encode_jkey :: "u64 \<Rightarrow> RecordType \<Rightarrow> u64" where
  "encode_jkey oid t = push_bit 60 (type_code t) OR oid"

lemma OBJ_ID_MASK_mask: "OBJ_ID_MASK = mask 60"
  by (simp add: OBJ_ID_MASK_def mask_eq_exp_minus_1)

lemma decode_encode_jkey:
  assumes "unat oid < 2 ^ 60"
  shows "decode_jkey (encode_jkey oid t) = (oid, Some t)"
proof -
  have oid: "take_bit 60 oid = oid"
    using assms by (simp add: word_unat_eq_iff unsigned_take_bit_eq take_bit_nat_eq_self)
  have "encode_jkey oid t AND OBJ_ID_MASK = take_bit 60 (push_bit 60 (type_code t) OR oid)"
    by (simp add: encode_jkey_def OBJ_ID_MASK_mask take_bit_eq_mask)
  also have "\<dots> = oid" by (simp add: oid take_bit_push_bit)
  finally have low: "encode_jkey oid t AND OBJ_ID_MASK = oid" .
  have "drop_bit 60 (push_bit 60 (type_code t)) = type_code t"
    by (cases t) (simp_all add: type_code_def)
  moreover have "drop_bit 60 oid = drop_bit 60 (take_bit 60 oid)" by (simp only: oid)
  then have "drop_bit 60 oid = 0" by (simp add: drop_bit_take_bit)
  ultimately have high: "drop_bit OBJ_TYPE_SHIFT (encode_jkey oid t) = type_code t"
    by (simp add: encode_jkey_def OBJ_TYPE_SHIFT_def)
  have "from_u4 (ucast (type_code t AND 0xf)) = Some t"
    by (cases t) (simp_all add: type_code_def from_u4_def)
  then show ?thesis by (simp add: decode_jkey_def low high)
qed

lemma from_u4_Some: "from_u4 n = Some t \<Longrightarrow> ucast n = type_code t"
  by (auto simp: from_u4_def type_code_def split: if_splits)

lemma encode_decode_jkey:
  assumes "decode_jkey w = (oid, Some t)"
  shows "unat oid < 2 ^ 60 \<and> w = encode_jkey oid t"
proof -
  define d where "d = drop_bit 60 w"
  have oid: "oid = take_bit 60 w"
    using assms by (simp add: decode_jkey_def OBJ_ID_MASK_mask take_bit_eq_mask Let_def)
  have d: "unat d < 16"
    using unat_bound [of w] by (simp add: d_def unsigned_drop_bit_eq drop_bit_nat_def take_bit_nat_eq_self)
  have "d AND 0xf = take_bit 4 d" by (simp add: take_bit_eq_mask mask_eq_exp_minus_1)
  also have "\<dots> = d" using d by (simp add: word_unat_eq_iff unsigned_take_bit_eq take_bit_nat_eq_self)
  finally have "ucast (ucast d :: u8) = type_code t"
    using assms by (intro from_u4_Some) (simp add: decode_jkey_def OBJ_TYPE_SHIFT_def d_def)
  moreover have "unat (ucast (ucast d :: u8) :: u64) = unat d"
    using d by (simp add: unsigned_ucast_eq unsigned_take_bit_eq take_bit_nat_eq_self)
  ultimately have "d = type_code t" by (metis word_unat_eq_iff)
  moreover have "w = push_bit 60 d OR take_bit 60 w"
    by (rule bit_eqI) (auto simp: d_def bit_simps)
  moreover have "unat (take_bit 60 w) < 2 ^ 60" by (simp add: unsigned_take_bit_eq take_bit_nat_def)
  ultimately show ?thesis by (simp add: encode_jkey_def oid)
qed

section \<open>Extended fields\<close>

lemma xf_loop_Ok:
  assumes "\<forall>i \<in> set is. 4 + i * 4 < length data"
  shows "\<exists>out. xf_loop data is off = Ok out \<and> length out \<le> length is \<and>
    (\<forall>(t, v) \<in> set out. \<exists>a. off \<le> a \<and> get_range data a (a + length v) = Some v)"
  using assms
proof (induction "is" arbitrary: off)
  case (Cons i "is")
  let ?n = "unat (le_u16 data (4 + i * 4 + 2))"
  obtain out where out: "xf_loop data is (off + (?n + 7) div 8 * 8) = Ok out" "length out \<le> length is"
    "\<forall>(t, v) \<in> set out. \<exists>a. off + (?n + 7) div 8 * 8 \<le> a \<and> get_range data a (a + length v) = Some v"
    using Cons.IH [of "off + (?n + 7) div 8 * 8"] Cons.prems by auto
  have idx: "index data (4 + i * 4) = Ok (data ! (4 + i * 4))" using Cons.prems by (simp add: index_def)
  show ?case
  proof (cases "get_range data off (off + ?n)")
    case None
    then show ?thesis using idx by (simp add: XF_DESC_OFF_def XF_DESC_LEN_def)
  next
    case (Some v)
    then have v: "get_range data off (off + length v) = Some v" by (simp add: get_range_length)
    have "xf_loop data (i # is) off = Ok ((data ! (4 + i * 4), v) # out)"
      using idx Some out(1) by (simp add: XF_DESC_OFF_def XF_DESC_LEN_def)
    moreover have "\<forall>(t, v) \<in> set out. \<exists>a. off \<le> a \<and> get_range data a (a + length v) = Some v"
      using out(3) by (blast dest: add_leD1)
    ultimately show ?thesis using out(2) v by auto
  qed
qed simp

lemma parse_xfields_Ok:
  "\<exists>out. parse_xfields data = Ok out \<and> length out \<le> 4096 \<and>
     (\<forall>(t, v) \<in> set out. \<exists>a. get_range data a (a + length v) = Some v)"
proof (cases "length data < 4 \<or> min (unat (le_u16 data 0)) 4096 * 4 + 4 > length data")
  case True
  then show ?thesis
    by (auto simp: parse_xfields_def XF_DESC_OFF_def XF_DESC_LEN_def MAX_XF_NUM_EXTS_def)
next
  case False
  let ?n = "min (unat (le_u16 data 0)) 4096"
  have "\<forall>i \<in> set [0..<?n]. 4 + i * 4 < length data" using False by auto
  from xf_loop_Ok [OF this, of "?n * 4 + 4"] obtain out where
    "xf_loop data [0..<?n] (?n * 4 + 4) = Ok out" "length out \<le> ?n"
    "\<forall>(t, v) \<in> set out. \<exists>a. get_range data a (a + length v) = Some v"
    by fastforce
  then show ?thesis
    using False by (auto simp: parse_xfields_def XF_DESC_OFF_def XF_DESC_LEN_def MAX_XF_NUM_EXTS_def Let_def)
qed

text \<open>An extended-field area as documented: header, descriptors, 8-byte aligned values.\<close>

definition xf_desc :: "u8 \<times> bytes \<Rightarrow> bytes" where
  "xf_desc f = [fst f, 0] @ to_le_bytes (word_of_nat (length (snd f)) :: u16)"

definition xf_value :: "u8 \<times> bytes \<Rightarrow> bytes" where
  "xf_value f = snd f @ replicate ((length (snd f) + 7) div 8 * 8 - length (snd f)) 0"

definition xf_image :: "u16 \<Rightarrow> (u8 \<times> bytes) list \<Rightarrow> bytes \<Rightarrow> bytes" where
  "xf_image used fs rest = to_le_bytes (word_of_nat (length fs) :: u16) @ to_le_bytes used @
     concat (map xf_desc fs) @ concat (map xf_value fs) @ rest"

lemma length_xf_desc [simp]: "length (xf_desc f) = 4"
  by (simp add: xf_desc_def)

lemma length_xf_descs [simp]: "length (concat (map xf_desc fs)) = 4 * length fs"
  by (induction fs) auto

lemma length_xf_value [simp]: "length (xf_value f) = (length (snd f) + 7) div 8 * 8"
proof -
  have "length (snd f) \<le> (length (snd f) + 7) div 8 * 8" by presburger
  then show ?thesis by (simp add: xf_value_def)
qed

lemma xf_loop_image:
  assumes "data = xf_image used (as @ bs) rest" and "\<forall>f \<in> set bs. length (snd f) < 2 ^ 16"
  shows "xf_loop data [length as..<length as + length bs]
    (4 + 4 * length (as @ bs) + length (concat (map xf_value as))) = Ok bs"
  using assms
proof (induction bs arbitrary: "as")
  case (Cons f bs)
  obtain t v where f: "f = (t, v)" by (cases f)
  define pre where "pre = to_le_bytes (word_of_nat (length (as @ f # bs)) :: u16) @ to_le_bytes used @
    concat (map xf_desc as)"
  define mid where "mid = concat (map xf_desc bs) @ concat (map xf_value as)"
  define post where "post = replicate ((length v + 7) div 8 * 8 - length v) 0 @ concat (map xf_value bs) @ rest"
  have data: "data = pre @ [t, 0] @ to_le_bytes (word_of_nat (length v) :: u16) @ mid @ v @ post"
    by (simp add: Cons.prems(1) xf_image_def pre_def mid_def post_def f xf_desc_def xf_value_def)
  have pre: "length pre = 4 + 4 * length as" by (simp add: pre_def)
  have idx: "index data (4 + length as * 4) = Ok t"
    by (simp add: index_def data pre nth_append)
  have size: "unat (le_u16 data (4 + length as * 4 + 2)) = length v"
  proof -
    have "data = (pre @ [t, 0]) @ to_le_bytes (word_of_nat (length v) :: u16) @ (mid @ v @ post)"
      by (simp add: data)
    then have "le_u16 data (length (pre @ [t, 0])) = word_of_nat (length v)"
      by (simp only: le_append_right(1) [OF order_refl] diff_self_eq_0 le_to_le_bytes(1))
    moreover have "4 + length as * 4 + 2 = length (pre @ [t, 0])" by (simp add: pre)
    ultimately show ?thesis using Cons.prems(2) by (simp only: unat_of_nat) (simp add: f)
  qed
  define off where "off = 4 + 4 * length (as @ f # bs) + length (concat (map xf_value as))"
  have "off = length (pre @ [t, 0] @ to_le_bytes (word_of_nat (length v) :: u16) @ mid)"
    by (simp add: off_def pre mid_def)
  moreover have "data = (pre @ [t, 0] @ to_le_bytes (word_of_nat (length v) :: u16) @ mid) @ v @ post"
    by (simp add: data)
  ultimately have val: "get_range data off (off + length v) = Some v"
    by (simp only: get_range_prefix)
  have "xf_loop data [length (as @ [f])..<length (as @ [f]) + length bs]
      (4 + 4 * length ((as @ [f]) @ bs) + length (concat (map xf_value (as @ [f])))) = Ok bs"
    using Cons.prems by (intro Cons.IH) simp_all
  moreover have "4 + 4 * length ((as @ [f]) @ bs) + length (concat (map xf_value (as @ [f]))) =
      off + (length v + 7) div 8 * 8"
    by (simp add: off_def f)
  ultimately have later: "xf_loop data [Suc (length as)..<Suc (length as) + length bs]
      (off + (length v + 7) div 8 * 8) = Ok bs"
    by simp
  have upt: "[length as..<length as + length (f # bs)] = length as # [Suc (length as)..<Suc (length as) + length bs]"
    by (simp add: upt_conv_Cons del: upt_Suc)
  show ?case
    unfolding upt off_def [symmetric]
    using idx size val later by (simp add: XF_DESC_OFF_def XF_DESC_LEN_def Let_def f)
qed simp

lemma parse_xfields_image:
  assumes "length fs \<le> 4096" and "\<forall>f \<in> set fs. length (snd f) < 2 ^ 16"
  shows "parse_xfields (xf_image used fs rest) = Ok fs"
proof -
  have num: "unat (le_u16 (xf_image used fs rest) 0) = length fs"
    using assms(1) by (simp add: xf_image_def slice_simps unat_of_nat)
  have "xf_loop (xf_image used fs rest) [0..<length fs] (4 + 4 * length fs) = Ok fs"
    using xf_loop_image [of _ used "[]" fs rest] assms(2) by simp
  moreover have "4 + 4 * length fs \<le> length (xf_image used fs rest)" by (simp add: xf_image_def)
  ultimately show ?thesis
    using assms(1)
    by (simp add: parse_xfields_def num XF_DESC_OFF_def XF_DESC_LEN_def MAX_XF_NUM_EXTS_def Let_def
        mult.commute add.commute)
qed

section \<open>The key word is a bijection\<close>

text \<open>
  The packing of an object id and a record type in a key header is a bijection: a
  header word decodes to an id and a known type exactly when the id has 60 bits and the word is
  their encoding.
\<close>

lemma jkey_roundtrip: "decode_jkey w = (oid, Some t) \<longleftrightarrow> unat oid < 2 ^ 60 \<and> w = encode_jkey oid t"
  using decode_encode_jkey encode_decode_jkey by blast

end
