(* ===== verification/Inode.thy ===== *)
theory Inode
  imports Fsrecord Utf8
begin

text \<open>
  \<^verbatim>\<open>src/src/inode.rs\<close>: the inode record and its extended fields, and the split of APFS nanosecond
  timestamps. \<^verbatim>\<open>chrono::DateTime::from_timestamp\<close> is a parameter of the timestamp conversions.
\<close>

definition OFF_XFIELDS :: usize where "OFF_XFIELDS = 92"
definition INO_EXT_TYPE_NAME :: u8 where "INO_EXT_TYPE_NAME = 4"
definition INO_EXT_TYPE_DSTREAM :: u8 where "INO_EXT_TYPE_DSTREAM = 8"
definition NS_PER_SEC :: u64 where "NS_PER_SEC = 1000000000"

record Inode =
  ino_oid :: u64
  ino_parent_id :: u64
  ino_private_id :: u64
  ino_create_time :: u64
  ino_mod_time :: u64
  ino_change_time :: u64
  ino_access_time :: u64
  ino_internal_flags :: u64
  ino_nlink_or_nchildren :: u32 \<comment> \<open>the bits of an \<open>i32\<close>\<close>
  ino_bsd_flags :: u32
  ino_uid :: u32
  ino_gid :: u32
  ino_mode :: u16
  ino_name :: "rstring option"
  ino_size :: "u64 option"

text \<open>The match on one extended field: the last field of a type wins.\<close>

definition inode_xfield :: "u8 \<times> bytes \<Rightarrow> rstring option \<times> u64 option \<Rightarrow> rstring option \<times> u64 option" where
  "inode_xfield f s =
     (case f of (x_type, data) \<Rightarrow> case s of (name, sz) \<Rightarrow>
        if x_type = INO_EXT_TYPE_NAME then (Some (decode_cstr data), sz)
        else if x_type = INO_EXT_TYPE_DSTREAM then (name, Some (le_u64 data 0))
        else (name, sz))"

text \<open>Field offsets.\<close>

definition OFF_PARENT_ID :: usize where [simp]: "OFF_PARENT_ID = 0"
definition OFF_PRIVATE_ID :: usize where [simp]: "OFF_PRIVATE_ID = 8"
definition OFF_CREATE_TIME :: usize where [simp]: "OFF_CREATE_TIME = 16"
definition OFF_MOD_TIME :: usize where [simp]: "OFF_MOD_TIME = 24"
definition OFF_CHANGE_TIME :: usize where [simp]: "OFF_CHANGE_TIME = 32"
definition OFF_ACCESS_TIME :: usize where [simp]: "OFF_ACCESS_TIME = 40"
definition OFF_INTERNAL_FLAGS :: usize where [simp]: "OFF_INTERNAL_FLAGS = 48"
definition OFF_NCHILDREN :: usize where [simp]: "OFF_NCHILDREN = 56"
definition OFF_BSD_FLAGS :: usize where [simp]: "OFF_BSD_FLAGS = 68"
definition OFF_OWNER :: usize where [simp]: "OFF_OWNER = 72"
definition OFF_GROUP :: usize where [simp]: "OFF_GROUP = 76"
definition OFF_MODE :: usize where [simp]: "OFF_MODE = 80"

definition Inode_parse :: "u64 \<Rightarrow> bytes \<Rightarrow> Inode res" where
  "Inode_parse oid value =
     and_then
       (if length value > OFF_XFIELDS
        then and_then (index_from value OFF_XFIELDS) (\<lambda>area.
               and_then (parse_xfields area) (\<lambda>fs. Ok (fold inode_xfield fs (None, None))))
        else Ok (None, None))
       (\<lambda>(name, sz).
         Ok \<lparr>ino_oid = oid, ino_parent_id = le_u64 value OFF_PARENT_ID, ino_private_id = le_u64 value OFF_PRIVATE_ID,
             ino_create_time = le_u64 value OFF_CREATE_TIME, ino_mod_time = le_u64 value OFF_MOD_TIME,
             ino_change_time = le_u64 value OFF_CHANGE_TIME, ino_access_time = le_u64 value OFF_ACCESS_TIME,
             ino_internal_flags = le_u64 value OFF_INTERNAL_FLAGS, ino_nlink_or_nchildren = le_u32 value OFF_NCHILDREN,
             ino_bsd_flags = le_u32 value OFF_BSD_FLAGS, ino_uid = le_u32 value OFF_OWNER, ino_gid = le_u32 value OFF_GROUP,
             ino_mode = le_u16 value OFF_MODE, ino_name = name, ino_size = sz\<rparr>)"

text \<open>Seconds are handed to \<open>from_timestamp\<close> as an \<^verbatim>\<open>i64\<close> (the word is read as signed).\<close>

definition ns_to_datetime :: "(int \<Rightarrow> u32 \<Rightarrow> 'dt option) \<Rightarrow> u64 \<Rightarrow> 'dt option" where
  "ns_to_datetime from_timestamp ns =
     (let secs = sint (ns div NS_PER_SEC); nanos = ucast (ns mod NS_PER_SEC) in
      from_timestamp secs nanos)"

definition created :: "(int \<Rightarrow> u32 \<Rightarrow> 'dt option) \<Rightarrow> Inode \<Rightarrow> 'dt option" where
  "created from_timestamp i = ns_to_datetime from_timestamp (ino_create_time i)"

definition modified :: "(int \<Rightarrow> u32 \<Rightarrow> 'dt option) \<Rightarrow> Inode \<Rightarrow> 'dt option" where
  "modified from_timestamp i = ns_to_datetime from_timestamp (ino_mod_time i)"

definition changed :: "(int \<Rightarrow> u32 \<Rightarrow> 'dt option) \<Rightarrow> Inode \<Rightarrow> 'dt option" where
  "changed from_timestamp i = ns_to_datetime from_timestamp (ino_change_time i)"

definition accessed :: "(int \<Rightarrow> u32 \<Rightarrow> 'dt option) \<Rightarrow> Inode \<Rightarrow> 'dt option" where
  "accessed from_timestamp i = ns_to_datetime from_timestamp (ino_access_time i)"

section \<open>Parsing never fails\<close>

lemma Inode_parse_total: "\<exists>i. Inode_parse oid value = Ok i \<and> ino_oid i = oid"
proof -
  obtain out where "parse_xfields (drop OFF_XFIELDS value) = Ok out" using parse_xfields_Ok by blast
  then show ?thesis
    by (cases "fold inode_xfield out (None, None)") (simp add: Inode_parse_def index_from_def)
qed

lemma Inode_parse_fails [no_panic, simp]: "fails_only P (Inode_parse oid value)"
  using Inode_parse_total [of oid "value"] by auto

text \<open>The timestamp split loses nothing, and the seconds are never negative.\<close>

lemma ns_split:
  "0 \<le> sint (ns div NS_PER_SEC) \<and> unat (ucast (ns mod NS_PER_SEC) :: u32) < 10 ^ 9 \<and>
   nat (sint (ns div NS_PER_SEC)) * 10 ^ 9 + unat (ucast (ns mod NS_PER_SEC) :: u32) = unat ns"
proof -
  have m: "unat (ns mod NS_PER_SEC) = unat ns mod 10 ^ 9" "unat (ns div NS_PER_SEC) = unat ns div 10 ^ 9"
    by (simp_all add: unat_mod_distrib unat_div_distrib NS_PER_SEC_def)
  have "unat (ucast (ns mod NS_PER_SEC) :: u32) = unat ns mod 10 ^ 9"
    using m(1) mod_less_divisor [of "10 ^ 9" "unat ns"]
    by (simp add: unsigned_ucast_eq take_bit_nat_eq_self)
  moreover have "unat ns div 10 ^ 9 < 2 ^ 63"
    using unat_bound [of ns] by (simp add: div_less_iff_less_mult)
  then have "int (unat (ns div NS_PER_SEC)) < 2 ^ 63" unfolding m(2) by simp
  then have "sint (ns div NS_PER_SEC) = int (unat (ns div NS_PER_SEC))"
    by (simp add: sint_uint signed_take_bit_int_eq_self order_trans [OF _ uint_ge_0])
  then have "sint (ns div NS_PER_SEC) = int (unat ns div 10 ^ 9)" unfolding m(2) .
  ultimately show ?thesis by simp
qed

section \<open>Properties\<close>

text \<open>The last extended field of a type, as the parser keeps it.\<close>

definition last_field :: "u8 \<Rightarrow> (u8 \<times> bytes) list \<Rightarrow> bytes option" where
  "last_field t fs = map_option snd (List.find (\<lambda>f. fst f = t) (rev fs))"

lemma find_append: "List.find P (xs @ ys) = (case List.find P xs of None \<Rightarrow> List.find P ys | Some x \<Rightarrow> Some x)"
  by (induction xs) auto

lemma fold_inode_xfield:
  "fold inode_xfield fs (name, sz) =
     (case last_field 4 fs of None \<Rightarrow> name | Some d \<Rightarrow> Some (decode_cstr d),
      case last_field 8 fs of None \<Rightarrow> sz | Some d \<Rightarrow> Some (le_u64 d 0))"
proof (induction fs arbitrary: name sz)
  case (Cons f fs)
  then show ?case
    by (cases f)
      (auto simp: inode_xfield_def last_field_def find_append INO_EXT_TYPE_NAME_def INO_EXT_TYPE_DSTREAM_def
        split: option.splits)
qed (simp add: last_field_def)

text \<open>
  An inode record as the format lays it out: the fixed part with its two unused words and padding, then
  the extended fields, those the crate reads after any others.
\<close>

definition inode_fields :: "Inode \<Rightarrow> (u8 \<times> bytes) list" where
  "inode_fields i = (case ino_name i of None \<Rightarrow> [] | Some n \<Rightarrow> [(4, n @ [0])]) @
     (case ino_size i of None \<Rightarrow> [] | Some sz \<Rightarrow> [(8, to_le_bytes sz)])"

definition inode_image :: "(u8 \<times> bytes) list \<Rightarrow> Inode \<Rightarrow> bytes" where
  "inode_image others i = to_le_bytes (ino_parent_id i) @ to_le_bytes (ino_private_id i) @
     to_le_bytes (ino_create_time i) @ to_le_bytes (ino_mod_time i) @ to_le_bytes (ino_change_time i) @
     to_le_bytes (ino_access_time i) @ to_le_bytes (ino_internal_flags i) @ to_le_bytes (ino_nlink_or_nchildren i) @
     replicate 8 0 @ to_le_bytes (ino_bsd_flags i) @ to_le_bytes (ino_uid i) @ to_le_bytes (ino_gid i) @
     to_le_bytes (ino_mode i) @ replicate 10 0 @ xf_image 0 (others @ inode_fields i) []"

definition inode_ok :: "(u8 \<times> bytes) list \<Rightarrow> Inode \<Rightarrow> bool" where
  "inode_ok others i \<longleftrightarrow> length others \<le> 4094 \<and>
     list_all (\<lambda>f. fst f \<noteq> 4 \<and> fst f \<noteq> 8 \<and> length (snd f) < 2 ^ 16) others \<and>
     (case ino_name i of None \<Rightarrow> True | Some n \<Rightarrow> name_ok n \<and> length n < 2 ^ 16 - 1)"

lemma last_field_others:
  assumes "inode_ok others i"
  shows "last_field 4 (others @ inode_fields i) = map_option (\<lambda>n. n @ [0]) (ino_name i)"
    and "last_field 8 (others @ inode_fields i) = map_option to_le_bytes (ino_size i)"
proof -
  have "List.find (\<lambda>f. fst f = t) (rev others) = None" if "t \<in> {4, 8}" for t
    using assms that by (auto simp: find_None_iff inode_ok_def list_all_iff)
  then show "last_field 4 (others @ inode_fields i) = map_option (\<lambda>n. n @ [0]) (ino_name i)"
    "last_field 8 (others @ inode_fields i) = map_option to_le_bytes (ino_size i)"
    by (auto simp: last_field_def find_append inode_fields_def split: option.splits)
qed

lemma inode_image_xfields:
  assumes "inode_ok others i"
  shows "parse_xfields (drop 92 (inode_image others i)) = Ok (others @ inode_fields i)"
proof -
  have "drop 92 (inode_image others i) = xf_image 0 (others @ inode_fields i) []" by (simp add: inode_image_def)
  moreover have "length (inode_fields i) \<le> 2" "\<forall>f \<in> set (inode_fields i). length (snd f) < 2 ^ 16"
    using assms by (auto simp: inode_fields_def inode_ok_def split: option.splits)
  then have "parse_xfields (xf_image 0 (others @ inode_fields i) []) = Ok (others @ inode_fields i)"
    using assms by (intro parse_xfields_image) (auto simp: inode_ok_def list_all_iff)
  ultimately show ?thesis by simp
qed

lemma inode_image_parse:
  assumes "inode_ok others i"
  shows "Inode_parse (ino_oid i) (inode_image others i) = Ok i"
proof -
  have "decode_cstr (n @ [0]) = n" if "ino_name i = Some n" for n
    using assms that decode_cstr_terminated [of n "[]"] by (simp add: inode_ok_def name_ok_def)
  then have fs: "fold inode_xfield (others @ inode_fields i) (None, None) = (ino_name i, ino_size i)"
    unfolding fold_inode_xfield last_field_others [OF assms]
    using le_to_le_bytes(3) [of _ "[]"] by (auto split: option.split)
  have "92 < length (inode_image others i)" by (simp add: inode_image_def xf_image_def)
  then have "Inode_parse (ino_oid i) (inode_image others i) = Ok \<lparr>ino_oid = ino_oid i, ino_parent_id = ino_parent_id i,
      ino_private_id = ino_private_id i, ino_create_time = ino_create_time i, ino_mod_time = ino_mod_time i,
      ino_change_time = ino_change_time i, ino_access_time = ino_access_time i, ino_internal_flags = ino_internal_flags i,
      ino_nlink_or_nchildren = ino_nlink_or_nchildren i, ino_bsd_flags = ino_bsd_flags i, ino_uid = ino_uid i,
      ino_gid = ino_gid i, ino_mode = ino_mode i, ino_name = ino_name i, ino_size = ino_size i\<rparr>"
    using inode_image_xfields [OF assms] fs
    by (simp add: Inode_parse_def OFF_XFIELDS_def index_from_def) (simp add: inode_image_def slice_simps)
  then show ?thesis by simp
qed

text \<open>
  C31 (roundtrip): every inode whose name is valid UTF-8 without a zero byte is recovered, all fields, from
  its record as the format lays it out, with any extended fields of other types before its own.
\<close>

theorem inode_roundtrip:
  assumes "inode_ok others i"
  shows "Inode_parse (ino_oid i) (inode_image others i) = Ok i"
  using assms by (rule inode_image_parse)

definition demo_inode :: Inode where
  "demo_inode = \<lparr>ino_oid = 16, ino_parent_id = 2, ino_private_id = 20, ino_create_time = 1, ino_mod_time = 2,
     ino_change_time = 3, ino_access_time = 4, ino_internal_flags = 0x8000, ino_nlink_or_nchildren = 1, ino_bsd_flags = 0x20,
     ino_uid = 501, ino_gid = 20, ino_mode = 0x81a4, ino_name = Some [0x61], ino_size = Some 5\<rparr>"

theorem inode_roundtrip_witness: "Inode_parse 16 (inode_image [(13, replicate 8 7)] demo_inode) = Ok demo_inode"
proof -
  have "inode_ok [(13, replicate 8 7)] demo_inode"
    by (simp add: inode_ok_def demo_inode_def name_ok_def valid_utf8_ascii word_less_nat_alt)
  from inode_roundtrip [OF this] show ?thesis by (simp add: demo_inode_def)
qed

text \<open>
  Splitting an APFS nanosecond timestamp into the arguments of \<^verbatim>\<open>from_timestamp\<close> loses
  nothing for any 64-bit value: the seconds are not negative, the rest is below one second, and
  together they are the timestamp.
\<close>

lemma timestamp_split:
  "\<exists>secs nanos. ns_to_datetime from_timestamp ns = from_timestamp secs nanos \<and>
     0 \<le> secs \<and> unat nanos < 10 ^ 9 \<and> nat secs * 10 ^ 9 + unat nanos = unat ns"
  using ns_split [of ns] unfolding ns_to_datetime_def Let_def by blast

end
