(* ===== verification/Dir.thy ===== *)
theory Dir
  imports Omap Volume Fsrecord Inode
begin

text \<open>
  \<^verbatim>\<open>src/src/dir.rs\<close>: directory records, the keyed walk of the virtual file-system tree through the
  volume object map, and name-to-inode navigation. The walk is an instance of the shared recursion
  of \<^verbatim>\<open>Tree_Walk\<close>; the navigation operations are shown to compute, on a stored tree, what their
  specification asks of the list of all records.
\<close>

definition ROOT_DIR_INO_NUM :: u64 where "ROOT_DIR_INO_NUM = 2"
definition J_DREC_LEN_MASK :: u32 where "J_DREC_LEN_MASK = 0x3ff"
definition MAX_FSTREE_DEPTH :: usize where "MAX_FSTREE_DEPTH = 64"

record DirEntry =
  de_name :: rstring
  de_file_id :: u64
  de_date_added :: u64
  de_flags :: u16

definition decode_drec_name :: "bytes \<Rightarrow> rstring option" where
  "decode_drec_name key =
     (let hashed_len = unat (le_u32 key 8 AND J_DREC_LEN_MASK);
          hashed = (if hashed_len > 0 then get_range key 12 (12 + hashed_len) else None) in
      case hashed of
        Some name \<Rightarrow> Some (decode_cstr name)
      | None \<Rightarrow>
          (let unhashed_len = unat (le_u16 key 8);
               unhashed = (if unhashed_len > 0 then get_range key 10 (10 + unhashed_len) else None) in
           case unhashed of Some name \<Rightarrow> Some (decode_cstr name) | None \<Rightarrow> None))"

text \<open>Field offsets.\<close>

definition OFF_DREC_FILE_ID :: usize where [simp]: "OFF_DREC_FILE_ID = 0"
definition OFF_DREC_DATE_ADDED :: usize where [simp]: "OFF_DREC_DATE_ADDED = 8"
definition OFF_DREC_FLAGS :: usize where [simp]: "OFF_DREC_FLAGS = 16"

definition parse_dir_entry :: "bytes \<Rightarrow> bytes \<Rightarrow> DirEntry option" where
  "parse_dir_entry key value =
     (case decode_drec_name key of
        None \<Rightarrow> None
      | Some name \<Rightarrow> Some \<lparr>de_name = name, de_file_id = le_u64 value OFF_DREC_FILE_ID, de_date_added = le_u64 value OFF_DREC_DATE_ADDED,
                          de_flags = le_u16 value OFF_DREC_FLAGS\<rparr>)"

definition child_may_contain_oid :: "u64 \<Rightarrow> u64 option \<Rightarrow> u64 \<Rightarrow> bool" where
  "child_may_contain_oid sep_oid next_sep_oid target \<longleftrightarrow>
     sep_oid \<le> target \<and> (case next_sep_oid of None \<Rightarrow> True | Some nxt \<Rightarrow> nxt \<ge> target)"

text \<open>The object id of a record key.\<close>

definition key_oid :: "bytes \<Rightarrow> u64" where
  "key_oid key = fst (decode_jkey (le_u64 key 0))"

definition key_type :: "bytes \<Rightarrow> RecordType option" where
  "key_type key = snd (decode_jkey (le_u64 key 0))"

text \<open>The resolution, read and checksum gate at the head of \<^verbatim>\<open>descend_virtual\<close>.\<close>

definition read_virtual_node :: "device \<Rightarrow> ObjectMap \<Rightarrow> u64 \<Rightarrow> usize \<Rightarrow> u64 \<Rightarrow> bytes res" where
  "read_virtual_node dev omap xid block_size node_oid =
     and_then (resolve dev omap node_oid xid block_size) (\<lambda>entry.
       and_then (read_at dev (saturating_mul (oe_paddr entry) (word_of_nat block_size)) block_size) (\<lambda>buf.
         let stored = fletcher64_stored buf; computed = fletcher64_checksum buf in
         if stored \<noteq> computed
         then Err (ChecksumMismatch (case ObjPhys_parse buf of None \<Rightarrow> oe_paddr entry | Some h \<Rightarrow> o_oid h)
                     stored computed)
         else Ok buf))"

function descend_virtual ::
  "device \<Rightarrow> ObjectMap \<Rightarrow> u64 \<Rightarrow> usize \<Rightarrow> u64 option \<Rightarrow> (bytes \<Rightarrow> bytes \<Rightarrow> 's \<Rightarrow> 's) \<Rightarrow>
     nat \<Rightarrow> u64 \<Rightarrow> u64 set \<Rightarrow> 's \<Rightarrow> ('s \<times> u64 set) res"
and descend_entries ::
  "device \<Rightarrow> ObjectMap \<Rightarrow> u64 \<Rightarrow> usize \<Rightarrow> u64 option \<Rightarrow> (bytes \<Rightarrow> bytes \<Rightarrow> 's \<Rightarrow> 's) \<Rightarrow>
     nat \<Rightarrow> Entry list \<Rightarrow> u64 set \<Rightarrow> 's \<Rightarrow> ('s \<times> u64 set) res" where
  "descend_virtual dev omap xid block_size target_oid visit depth node_oid visited s =
     (if depth \<ge> MAX_FSTREE_DEPTH then Err (CycleGuard MAX_FSTREE_DEPTH)
      else if node_oid \<in> visited then Err (CycleGuard MAX_FSTREE_DEPTH)
      else and_then (read_virtual_node dev omap xid block_size node_oid) (\<lambda>buf.
        case parse_node_header buf of None \<Rightarrow> Ok (s, insert node_oid visited)
        | Some hdr \<Rightarrow>
            if is_leaf hdr
            then Ok (visit_all visit (node_entries buf FsTree) s, insert node_oid visited)
            else descend_entries dev omap xid block_size target_oid visit (depth + 1)
                   (node_entries buf FsTree) (insert node_oid visited) s))"
| "descend_entries dev omap xid block_size target_oid visit depth [] visited s = Ok (s, visited)"
| "descend_entries dev omap xid block_size target_oid visit depth ((key, val) # es) visited s =
     (if (case target_oid of None \<Rightarrow> True
          | Some target \<Rightarrow> child_may_contain_oid (key_oid key) (map_option key_oid (next_key es)) target)
      then and_then (descend_virtual dev omap xid block_size target_oid visit depth (le_u64 val 0) visited s)
             (\<lambda>(s', visited'). descend_entries dev omap xid block_size target_oid visit depth es visited' s')
      else descend_entries dev omap xid block_size target_oid visit depth es visited s)"
  by pat_completeness auto
termination
  by (relation "measures
        [case_sum (\<lambda>(dev, om, x, bs, t, v, d, a, V, s). 64 - d) (\<lambda>(dev, om, x, bs, t, v, d, es, V, s). 64 - d),
         case_sum (\<lambda>_. 0) (\<lambda>(dev, om, x, bs, t, v, d, es, V, s). length es)]")
    (auto simp: MAX_FSTREE_DEPTH_def)

declare descend_virtual.simps [simp del]

definition walk_fs_tree ::
  "device \<Rightarrow> ApfsVolume \<Rightarrow> usize \<Rightarrow> u64 option \<Rightarrow> (bytes \<Rightarrow> bytes \<Rightarrow> 's \<Rightarrow> 's) \<Rightarrow> 's \<Rightarrow> 's res" where
  "walk_fs_tree dev volume block_size target_oid visit s =
     and_then (read_at dev (saturating_mul (vol_omap_oid volume) (word_of_nat block_size)) block_size) (\<lambda>buf.
       and_then (ObjectMap_parse buf) (\<lambda>omap.
         and_then (descend_virtual dev omap (vol_xid volume) block_size target_oid visit 0
                     (vol_root_tree_oid volume) {} s)
           (\<lambda>(s', visited). Ok s')))"

definition for_each_fs_record_for_oid ::
  "device \<Rightarrow> ApfsVolume \<Rightarrow> usize \<Rightarrow> u64 \<Rightarrow> (bytes \<Rightarrow> bytes \<Rightarrow> 's \<Rightarrow> 's) \<Rightarrow> 's \<Rightarrow> 's res" where
  "for_each_fs_record_for_oid dev volume block_size target_oid visit s =
     walk_fs_tree dev volume block_size (Some target_oid) visit s"

definition list_dir_visit :: "u64 \<Rightarrow> bytes \<Rightarrow> bytes \<Rightarrow> DirEntry list \<Rightarrow> DirEntry list" where
  "list_dir_visit parent_oid key value out =
     (if key_type key \<noteq> Some RT_DirRec \<or> key_oid key \<noteq> parent_oid then out
      else case parse_dir_entry key value of None \<Rightarrow> out | Some entry \<Rightarrow> out @ [entry])"

definition list_dir :: "device \<Rightarrow> ApfsVolume \<Rightarrow> u64 \<Rightarrow> usize \<Rightarrow> DirEntry list res" where
  "list_dir dev volume parent_oid block_size =
     for_each_fs_record_for_oid dev volume block_size parent_oid (list_dir_visit parent_oid) []"

definition lookup_visit :: "u64 \<Rightarrow> rstring \<Rightarrow> bytes \<Rightarrow> bytes \<Rightarrow> u64 option \<Rightarrow> u64 option" where
  "lookup_visit parent_oid name key value found =
     (if found \<noteq> None then found
      else if key_type key \<noteq> Some RT_DirRec \<or> key_oid key \<noteq> parent_oid then found
      else case parse_dir_entry key value of None \<Rightarrow> found
        | Some entry \<Rightarrow> if de_name entry = name then Some (de_file_id entry) else found)"

definition lookup_child :: "device \<Rightarrow> ApfsVolume \<Rightarrow> u64 \<Rightarrow> rstring \<Rightarrow> usize \<Rightarrow> u64 option res" where
  "lookup_child dev volume parent_oid name block_size =
     for_each_fs_record_for_oid dev volume block_size parent_oid (lookup_visit parent_oid name) None"

definition inode_visit :: "u64 \<Rightarrow> bytes \<Rightarrow> bytes \<Rightarrow> bytes option \<Rightarrow> bytes option" where
  "inode_visit oid key val found =
     (if found \<noteq> None then found
      else if key_type key = Some RT_Inode \<and> key_oid key = oid then Some val else found)"

definition load_inode :: "device \<Rightarrow> ApfsVolume \<Rightarrow> u64 \<Rightarrow> usize \<Rightarrow> Inode res" where
  "load_inode dev volume oid block_size =
     and_then (for_each_fs_record_for_oid dev volume block_size oid (inode_visit oid) None) (\<lambda>found.
       and_then (ok_or found (OmapUnresolved oid (vol_xid volume))) (\<lambda>value. Inode_parse oid value))"

text \<open>\<^verbatim>\<open>path.split('/')\<close> on the bytes of the path; empty components are dropped by the caller.\<close>

fun split_on :: "u8 \<Rightarrow> bytes \<Rightarrow> bytes \<Rightarrow> bytes list" where
  "split_on c acc [] = [acc]"
| "split_on c acc (b # bs) = (if b = c then acc # split_on c [] bs else split_on c (acc @ [b]) bs)"

definition path_components :: "rstring \<Rightarrow> rstring list" where
  "path_components path = filter (\<lambda>c. c \<noteq> []) (split_on 0x2F [] path)"

fun open_path_loop :: "device \<Rightarrow> ApfsVolume \<Rightarrow> usize \<Rightarrow> u64 \<Rightarrow> rstring list \<Rightarrow> u64 res" where
  "open_path_loop dev volume block_size current [] = Ok current"
| "open_path_loop dev volume block_size current (component # cs) =
     and_then (lookup_child dev volume current component block_size) (\<lambda>child.
       case child of
         Some child \<Rightarrow> open_path_loop dev volume block_size child cs
       | None \<Rightarrow> Err (OmapUnresolved current (vol_xid volume)))"

definition open_path :: "device \<Rightarrow> ApfsVolume \<Rightarrow> rstring \<Rightarrow> usize \<Rightarrow> Inode res" where
  "open_path dev volume path block_size =
     and_then (open_path_loop dev volume block_size ROOT_DIR_INO_NUM (path_components path)) (\<lambda>current.
       load_inode dev volume current block_size)"

section \<open>The keyed walk as an instance of the shared recursion\<close>

definition keep_oid :: "u64 option \<Rightarrow> bytes \<Rightarrow> bytes option \<Rightarrow> bool" where
  "keep_oid target key nxt = (case target of None \<Rightarrow> True
     | Some t \<Rightarrow> child_may_contain_oid (key_oid key) (map_option key_oid nxt) t)"

definition virtual_node :: "device \<Rightarrow> ObjectMap \<Rightarrow> u64 \<Rightarrow> usize \<Rightarrow> u64 \<Rightarrow> bytes option res" where
  "virtual_node dev omap xid bs oid = and_then (read_virtual_node dev omap xid bs oid) (\<lambda>b. Ok (Some b))"

fun virtual_children ::
  "device \<Rightarrow> ObjectMap \<Rightarrow> u64 \<Rightarrow> usize \<Rightarrow> u64 option \<Rightarrow> (bytes \<Rightarrow> bytes \<Rightarrow> 's \<Rightarrow> 's) \<Rightarrow>
     nat \<Rightarrow> u64 list \<Rightarrow> u64 set \<Rightarrow> 's \<Rightarrow> ('s \<times> u64 set) res" where
  "virtual_children dev omap xid bs t visit d [] V s = Ok (s, V)"
| "virtual_children dev omap xid bs t visit d (c # cs) V s =
     and_then (descend_virtual dev omap xid bs t visit d c V s)
       (\<lambda>(s', V'). virtual_children dev omap xid bs t visit d cs V' s')"

lemma next_key_branches [simp]: "next_key (branches es) = next_key es"
  by (cases es) (auto simp: branches_def)

lemma branches_Cons: "branches ((k, v) # es) = (k, le_u64 v 0) # branches es"
  by (simp add: branches_def)

lemma descend_entries_kept:
  "descend_entries dev omap xid bs t visit d es V s =
     virtual_children dev omap xid bs t visit d (kept (keep_oid t) (branches es)) V s"
proof (induction es arbitrary: V s)
  case Nil
  then show ?case by (simp add: branches_def)
next
  case (Cons e es)
  obtain k v where e: "e = (k, v)" by (cases e)
  show ?case using Cons by (simp add: e branches_Cons keep_oid_def)
qed

interpretation virt: tree_walk "virtual_node dev omap xid bs" FsTree "keep_oid t" visit
  "descend_virtual dev omap xid bs t visit" "virtual_children dev omap xid bs t visit"
  for dev omap xid bs t visit
proof
  show "descend_virtual dev omap xid bs t visit d a V s = Err (CycleGuard 64)" if "64 \<le> d \<or> a \<in> V" for d a V s
    using that by (auto simp: descend_virtual.simps MAX_FSTREE_DEPTH_def)
next
  fix d :: nat and a :: u64 and V :: "u64 set" and s
  assume "d < 64" and "a \<notin> V"
  then show "descend_virtual dev omap xid bs t visit d a V s =
    and_then (virtual_node dev omap xid bs a) (\<lambda>node. case node of None \<Rightarrow> Ok (s, insert a V)
      | Some buf \<Rightarrow> (case parse_node_header buf of None \<Rightarrow> Ok (s, insert a V)
        | Some hdr \<Rightarrow> if is_leaf hdr then Ok (visit_all visit (node_entries buf FsTree) s, insert a V)
            else virtual_children dev omap xid bs t visit (Suc d)
                   (kept (keep_oid t) (branches (node_entries buf FsTree))) (insert a V) s))"
    by (subst descend_virtual.simps, unfold descend_entries_kept Suc_eq_plus1)
      (simp add: MAX_FSTREE_DEPTH_def virtual_node_def and_then_assoc)
qed simp_all

text \<open>The order of a file-system tree that the keyed walk relies on: by object id.\<close>

fun oid_ordered :: "ptree \<Rightarrow> bool" and oid_ordered_all :: "(bytes \<times> ptree) list \<Rightarrow> bool" where
  "oid_ordered (PLeaf a es) = True"
| "oid_ordered (PNode a cs) = oid_ordered_all cs"
| "oid_ordered_all [] = True"
| "oid_ordered_all ((k, t) # cs) =
     (oid_ordered t \<and> (\<forall>e \<in> set (all_entries t). key_oid k \<le> key_oid (fst e) \<and>
        (case next_key cs of None \<Rightarrow> True | Some k' \<Rightarrow> key_oid (fst e) \<le> key_oid k')) \<and>
      oid_ordered_all cs)"

text \<open>The subtrees that are skipped hold no record of the object.\<close>

lemma keyed_entries:
  "oid_ordered t \<Longrightarrow> filter (\<lambda>e. key_oid (fst e) = oid) (entries (keep_oid (Some oid)) t) =
     filter (\<lambda>e. key_oid (fst e) = oid) (all_entries t)"
  "oid_ordered_all cs \<Longrightarrow> filter (\<lambda>e. key_oid (fst e) = oid) (entries_of (keep_oid (Some oid)) cs) =
     filter (\<lambda>e. key_oid (fst e) = oid) (all_entries_of cs)"
proof (induction t and cs rule: oid_ordered_oid_ordered_all.induct)
  case (4 k t cs)
  have "filter (\<lambda>e. key_oid (fst e) = oid) (all_entries t) = []" if "\<not> keep_oid (Some oid) k (next_key cs)"
    using that "4.prems"
    by (fastforce simp: keep_oid_def child_may_contain_oid_def filter_empty_conv split: option.splits)
  then show ?case using 4 by auto
qed auto

definition fs_stored :: "device \<Rightarrow> ApfsVolume \<Rightarrow> usize \<Rightarrow> ptree \<Rightarrow> bool" where
  "fs_stored dev volume bs t \<longleftrightarrow>
     (\<exists>buf omap. read_at dev (saturating_mul (vol_omap_oid volume) (word_of_nat bs)) bs = Ok buf \<and>
        ObjectMap_parse buf = Ok omap \<and>
        stored (virtual_node dev omap (vol_xid volume) bs) FsTree t) \<and>
     root t = vol_root_tree_oid volume \<and> height t \<le> 64 \<and> distinct (addrs t) \<and> oid_ordered t"

lemma walk_fs_tree_stored:
  assumes "fs_stored dev volume bs t"
  shows "walk_fs_tree dev volume bs target visit s = Ok (visit_all visit (entries (keep_oid target) t) s)"
proof -
  obtain buf omap where *: "read_at dev (saturating_mul (vol_omap_oid volume) (word_of_nat bs)) bs = Ok buf"
    "ObjectMap_parse buf = Ok omap" "stored (virtual_node dev omap (vol_xid volume) bs) FsTree t"
    "root t = vol_root_tree_oid volume" "height t \<le> 64" "distinct (addrs t)"
    using assms by (auto simp: fs_stored_def)
  then have "descend_virtual dev omap (vol_xid volume) bs target visit 0 (vol_root_tree_oid volume) {} s =
      Ok (visit_all visit (entries (keep_oid target) t) s, set (met (keep_oid target) t))"
    using virt.walk_stored [of dev omap "vol_xid volume" bs t 0 "{}" target visit s] by auto
  with * show ?thesis by (simp add: walk_fs_tree_def)
qed

section \<open>How much of the tree a keyed walk reads\<close>

text \<open>The separators of every index node in object-id order.\<close>

fun separators_sorted :: "ptree \<Rightarrow> bool" and separators_sorted_all :: "(bytes \<times> ptree) list \<Rightarrow> bool" where
  "separators_sorted (PLeaf a es) = True"
| "separators_sorted (PNode a cs) = (sorted (map (\<lambda>c. key_oid (fst c)) cs) \<and> separators_sorted_all cs)"
| "separators_sorted_all [] = True"
| "separators_sorted_all ((k, t) # cs) = (separators_sorted t \<and> separators_sorted_all cs)"

text \<open>The separators of the object itself: its records run over that many node boundaries.\<close>

fun boundaries :: "u64 \<Rightarrow> ptree \<Rightarrow> nat" and boundaries_of :: "u64 \<Rightarrow> (bytes \<times> ptree) list \<Rightarrow> nat" where
  "boundaries oid (PLeaf a es) = 0"
| "boundaries oid (PNode a cs) = length (filter (\<lambda>c. key_oid (fst c) = oid) cs) + boundaries_of oid cs"
| "boundaries_of oid [] = 0"
| "boundaries_of oid ((k, t) # cs) = boundaries oid t + boundaries_of oid cs"

lemma kept_beyond:
  "sorted (map (\<lambda>c. key_oid (fst c)) cs) \<Longrightarrow> (\<forall>c \<in> set cs. oid \<le> key_oid (fst c)) \<Longrightarrow>
     length (kept (keep_oid (Some oid)) cs) \<le> length (filter (\<lambda>c. key_oid (fst c) = oid) cs)"
  by (induction cs) (auto simp: keep_oid_def child_may_contain_oid_def)

text \<open>Of a sorted node, the children below separators of the object are kept, and one more.\<close>

lemma kept_sorted:
  "sorted (map (\<lambda>c. key_oid (fst c)) cs) \<Longrightarrow>
     length (kept (keep_oid (Some oid)) cs) \<le> Suc (length (filter (\<lambda>c. key_oid (fst c) = oid) cs))"
proof (induction cs)
  case (Cons c cs)
  obtain k v where c: "c = (k, v)" by (cases c)
  show ?case
  proof (cases "oid \<le> key_oid k \<or> (\<exists>k' v' cs'. cs = (k', v') # cs' \<and> oid \<le> key_oid k')")
    case True
    then have "\<forall>c \<in> set cs. oid \<le> key_oid (fst c)" using Cons.prems by (fastforce simp: c)
    moreover have "sorted (map (\<lambda>c. key_oid (fst c)) cs)" using Cons.prems by simp
    ultimately have "length (kept (keep_oid (Some oid)) cs) \<le> length (filter (\<lambda>c. key_oid (fst c) = oid) cs)"
      using kept_beyond by blast
    then show ?thesis by (auto simp: c)
  next
    case False
    then have "cs = [] \<or> \<not> keep_oid (Some oid) k (next_key cs)"
      by (cases cs) (auto simp: keep_oid_def child_may_contain_oid_def)
    then show ?thesis using Cons by (auto simp: c)
  qed
qed simp

lemma met_bound:
  "separators_sorted t \<Longrightarrow> length (met (keep_oid (Some oid)) t) \<le> height t * Suc (boundaries oid t)"
  "separators_sorted_all cs \<Longrightarrow> length (met_of (keep_oid (Some oid)) cs) \<le>
     heights cs * (length (kept (keep_oid (Some oid)) cs) + boundaries_of oid cs)"
proof (induction t and cs rule: separators_sorted_separators_sorted_all.induct)
  case (2 a cs)
  have "length (met_of (keep_oid (Some oid)) cs) \<le>
      heights cs * (length (kept (keep_oid (Some oid)) cs) + boundaries_of oid cs)" using 2 by simp
  also have "\<dots> \<le> heights cs * Suc (boundaries oid (PNode a cs))"
    using kept_sorted [of cs oid] 2 by (intro mult_left_mono) auto
  finally show ?case by simp
next
  case (4 k t cs)
  let ?h = "heights ((k, t) # cs)"
  have t: "length (met (keep_oid (Some oid)) t) \<le> ?h * Suc (boundaries oid t)"
    using 4 by (intro order_trans [OF "4.IH"(1)] mult_right_mono) auto
  have cs: "length (met_of (keep_oid (Some oid)) cs) \<le>
      ?h * (length (kept (keep_oid (Some oid)) cs) + boundaries_of oid cs)"
    using 4 by (intro order_trans [OF "4.IH"(2)] mult_right_mono) auto
  show ?case
    using add_mono [OF t cs] cs by (auto simp: algebra_simps)
qed simp_all

lemma keyed_walk_reads:
  assumes "stored (virtual_node dev omap xid bs) FsTree t" and "height t \<le> 64" and "distinct (addrs t)"
    and "separators_sorted t"
  shows "\<exists>read. descend_virtual dev omap xid bs (Some oid) visit 0 (root t) {} s =
      Ok (visit_all visit (entries (keep_oid (Some oid)) t) s, read) \<and>
    read \<subseteq> set (addrs t) \<and> card read \<le> height t * Suc (boundaries oid t)"
  using virt.walk_stored [OF assms(1), of 0 "{}" "Some oid" visit s] assms(2,3) met_addrs(1) [of "keep_oid (Some oid)" t]
    order_trans [OF card_length met_bound(1) [OF assms(4)]]
  by auto

section \<open>Outcome on any source\<close>

text \<open>The errors of a walk of the file-system tree.\<close>

definition fs_error :: "ApfsError \<Rightarrow> bool" where
  "fs_error e \<longleftrightarrow> walk_error e \<or> (\<exists>oid xid. e = OmapUnresolved oid xid) \<or>
     (\<exists>s x y. e = UnexpectedObjectType s x y)"

lemma ObjectMap_parse_fails [no_panic, simp]: "fails_only fs_error (ObjectMap_parse block)"
  by (auto simp: ObjectMap_parse_def Let_def fs_error_def walk_error_def split: option.splits)

lemma read_at_fs_fails [no_panic, simp]: "fails_only fs_error (read_at dev off n)"
  by (rule read_at_fails) (simp add: fs_error_def walk_error_def)

lemma read_virtual_node_fails [no_panic, simp]: "fails_only fs_error (read_virtual_node dev omap xid bs oid)"
  unfolding read_virtual_node_def Let_def
  by (intro fails_only_and_then fails_only_mono [OF resolve_fails])
    (auto simp: fs_error_def walk_error_def)

lemma virtual_node_fails [no_panic, simp]: "fails_only fs_error (virtual_node dev omap xid bs oid)"
  unfolding virtual_node_def by (intro fails_only_and_then) simp_all

lemma walk_fs_tree_fails [no_panic, simp]: "fails_only fs_error (walk_fs_tree dev volume bs target visit s)"
proof -
  have "fails_only fs_error (descend_virtual dev omap xid bs target visit 0 a {} s)" for omap xid a
    unfolding fails_only_iff
    using virt.walk_outcome [of dev omap xid bs target visit 0 a "{}" s]
      virtual_node_fails [of dev omap xid bs, unfolded fails_only_iff]
    by (auto simp: fs_error_def walk_error_def) metis+
  then show ?thesis
    unfolding walk_fs_tree_def by (intro fails_only_and_then) (auto split: prod.splits)
qed

lemma for_each_fs_record_fails [no_panic, simp]:
  "fails_only fs_error (for_each_fs_record_for_oid dev volume bs oid visit s)"
  by (simp add: for_each_fs_record_for_oid_def)

lemma list_dir_fails [no_panic, simp]: "fails_only fs_error (list_dir dev volume parent bs)"
  by (simp add: list_dir_def)

lemma lookup_child_fails [no_panic, simp]: "fails_only fs_error (lookup_child dev volume parent name bs)"
  by (simp add: lookup_child_def)

lemma load_inode_fails [no_panic, simp]: "fails_only fs_error (load_inode dev volume oid bs)"
  unfolding load_inode_def by (intro fails_only_and_then) (auto simp: fs_error_def)

lemma open_path_fails [no_panic, simp]: "fails_only fs_error (open_path dev volume path bs)"
proof -
  have "fails_only fs_error (open_path_loop dev volume bs cur cs)" for cur cs
    by (induction cs arbitrary: cur)
      (auto intro!: fails_only_and_then simp: fs_error_def [of "OmapUnresolved _ _"] split: option.splits)
  then show ?thesis unfolding open_path_def by (intro fails_only_and_then) simp_all
qed

section \<open>The interface of the record scan\<close>

text \<open>
  What the navigation operations, \<^verbatim>\<open>list_extents\<close> and \<^verbatim>\<open>list_xattrs\<close> rely on: a scan for one object
  id runs a visitor that ignores the records of other objects as if over all records in order.
\<close>

locale record_scan =
  fixes scan :: "u64 \<Rightarrow> (bytes \<Rightarrow> bytes \<Rightarrow> 's \<Rightarrow> 's) \<Rightarrow> 's \<Rightarrow> 's res"
    and holds :: "ptree \<Rightarrow> bool"
  assumes scan_all: "holds t \<Longrightarrow> (\<And>k v s. key_oid k \<noteq> oid \<Longrightarrow> visit k v s = s) \<Longrightarrow>
    scan oid visit s = Ok (visit_all visit (all_entries t) s)"
begin

text \<open>A visitor that puts what it decodes from the records of the object into its state.\<close>

lemma scan_fold:
  assumes "holds t"
    and "\<And>k v s. visit k v s = (if key_oid k = oid then (case f k v of None \<Rightarrow> s | Some x \<Rightarrow> put x s) else s)"
  shows "scan oid visit s = Ok (fold put (List.map_filter
    (\<lambda>(k, v). if key_oid k = oid then f k v else None) (all_entries t)) s)"
proof -
  have "visit_all visit es s = fold put (List.map_filter
      (\<lambda>(k, v). if key_oid k = oid then f k v else None) es) s" for es
    by (induction es arbitrary: s) (auto simp: map_filter_simps assms(2) split: option.splits if_splits)
  then show ?thesis using scan_all [OF assms(1), of oid visit s] assms(2) by simp
qed

end

interpretation fs: record_scan "for_each_fs_record_for_oid dev volume bs" "fs_stored dev volume bs"
  for dev volume bs
proof
  fix t oid and visit :: "bytes \<Rightarrow> bytes \<Rightarrow> 's \<Rightarrow> 's" and s
  assume t: "fs_stored dev volume bs t" and ignore: "\<And>k v s. key_oid k \<noteq> oid \<Longrightarrow> visit k v s = s"
  let ?f = "filter (\<lambda>e. key_oid (fst e) = oid)"
  have "visit_all visit (entries (keep_oid (Some oid)) t) s = visit_all visit (?f (entries (keep_oid (Some oid)) t)) s"
    using visit_all_filter [of "\<lambda>k. key_oid k = oid" visit, OF ignore] by simp
  also have "\<dots> = visit_all visit (?f (all_entries t)) s"
    using keyed_entries(1) t by (simp add: fs_stored_def)
  also have "\<dots> = visit_all visit (all_entries t) s"
    using visit_all_filter [of "\<lambda>k. key_oid k = oid" visit, OF ignore] by simp
  finally show "for_each_fs_record_for_oid dev volume bs oid visit s = Ok (visit_all visit (all_entries t) s)"
    using walk_fs_tree_stored [OF t, of "Some oid" visit s] by (simp add: for_each_fs_record_for_oid_def)
qed

lemma fold_push: "fold (\<lambda>x out. out @ [x]) xs out = out @ xs"
  by (induction xs arbitrary: out) auto

definition keep_first :: "'a \<Rightarrow> 'a option \<Rightarrow> 'a option" where
  "keep_first x found = (case found of None \<Rightarrow> Some x | Some y \<Rightarrow> Some y)"

lemma fold_keep: "fold keep_first xs None = (case xs of [] \<Rightarrow> None | x # _ \<Rightarrow> Some x)"
proof -
  have "fold keep_first xs (Some y) = Some y" for y
    by (induction xs) (auto simp: keep_first_def)
  then show ?thesis by (cases xs) (auto simp: keep_first_def)
qed

section \<open>Navigation over the list of all records\<close>

definition fs_records :: "ptree \<Rightarrow> u64 \<Rightarrow> RecordType \<Rightarrow> Entry list" where
  "fs_records t oid ty = filter (\<lambda>e. key_oid (fst e) = oid \<and> key_type (fst e) = Some ty) (all_entries t)"

definition spec_dir :: "ptree \<Rightarrow> u64 \<Rightarrow> DirEntry list" where
  "spec_dir t parent = List.map_filter (\<lambda>(k, v). parse_dir_entry k v) (fs_records t parent RT_DirRec)"

definition spec_child :: "ptree \<Rightarrow> u64 \<Rightarrow> rstring \<Rightarrow> u64 option" where
  "spec_child t parent name = map_option de_file_id (List.find (\<lambda>d. de_name d = name) (spec_dir t parent))"

definition spec_inode :: "ptree \<Rightarrow> u64 \<Rightarrow> bytes option" where
  "spec_inode t oid = (case fs_records t oid RT_Inode of [] \<Rightarrow> None | (k, v) # _ \<Rightarrow> Some v)"

fun spec_path :: "ptree \<Rightarrow> u64 \<Rightarrow> u64 \<Rightarrow> rstring list \<Rightarrow> u64 res" where
  "spec_path t xid cur [] = Ok cur"
| "spec_path t xid cur (c # cs) = (case spec_child t cur c of
     Some child \<Rightarrow> spec_path t xid child cs | None \<Rightarrow> Err (OmapUnresolved cur xid))"

lemma map_filter_filter:
  "List.map_filter f (filter P xs) = List.map_filter (\<lambda>x. if P x then f x else None) xs"
  by (induction xs) (auto simp: map_filter_simps split: option.splits)

lemma list_dir_stored:
  assumes "fs_stored dev volume bs t"
  shows "list_dir dev volume parent bs = Ok (spec_dir t parent)"
proof -
  let ?f = "\<lambda>k v. if key_type k = Some RT_DirRec then parse_dir_entry k v else None"
  have "list_dir dev volume parent bs = Ok (fold (\<lambda>x out. out @ [x]) (List.map_filter
      (\<lambda>(k, v). if key_oid k = parent then ?f k v else None) (all_entries t)) [])"
    unfolding list_dir_def
    by (rule fs.scan_fold [OF assms]) (auto simp: list_dir_visit_def split: option.splits)
  moreover have "(\<lambda>(k, v). if key_oid k = parent then ?f k v else None) =
      (\<lambda>e. if key_oid (fst e) = parent \<and> key_type (fst e) = Some RT_DirRec
           then (case e of (k, v) \<Rightarrow> parse_dir_entry k v) else None)"
    by auto
  ultimately show ?thesis
    by (simp add: spec_dir_def fs_records_def map_filter_filter fold_push)
qed

lemma map_filter_find:
  "(case List.map_filter (\<lambda>x. case f x of None \<Rightarrow> None | Some y \<Rightarrow> if P y then Some (g y) else None) xs of
      [] \<Rightarrow> None | z # _ \<Rightarrow> Some z) = map_option g (List.find P (List.map_filter f xs))"
  by (induction xs) (auto simp: map_filter_simps split: option.splits)

lemma lookup_child_stored:
  assumes "fs_stored dev volume bs t"
  shows "lookup_child dev volume parent name bs = Ok (spec_child t parent name)"
proof -
  let ?g = "\<lambda>k v. case parse_dir_entry k v of None \<Rightarrow> None
    | Some d \<Rightarrow> if de_name d = name then Some (de_file_id d) else None"
  let ?f = "\<lambda>k v. if key_type k = Some RT_DirRec then ?g k v else None"
  have "lookup_child dev volume parent name bs = Ok (fold keep_first
      (List.map_filter (\<lambda>(k, v). if key_oid k = parent then ?f k v else None) (all_entries t)) None)"
    unfolding lookup_child_def
    by (rule fs.scan_fold [OF assms]) (auto simp: lookup_visit_def keep_first_def split: option.splits)
  moreover have "(\<lambda>(k, v). if key_oid k = parent then ?f k v else None) =
      (\<lambda>e. if key_oid (fst e) = parent \<and> key_type (fst e) = Some RT_DirRec
           then (\<lambda>(k, v). ?g k v) e else None)"
    by auto
  moreover have "(\<lambda>(k, v). ?g k v) = (\<lambda>e. case (\<lambda>(k, v). parse_dir_entry k v) e of None \<Rightarrow> None
      | Some d \<Rightarrow> if de_name d = name then Some (de_file_id d) else None)"
    by auto
  ultimately show ?thesis
    by (simp add: spec_child_def spec_dir_def fs_records_def fold_keep map_filter_find flip: map_filter_filter)
qed

lemma load_inode_stored:
  assumes "fs_stored dev volume bs t"
  shows "load_inode dev volume oid bs =
    and_then (ok_or (spec_inode t oid) (OmapUnresolved oid (vol_xid volume))) (Inode_parse oid)"
proof -
  let ?f = "\<lambda>k v. if key_type k = Some RT_Inode then Some v else None"
  have "for_each_fs_record_for_oid dev volume bs oid (inode_visit oid) None =
      Ok (fold keep_first
        (List.map_filter (\<lambda>(k, v). if key_oid k = oid then ?f k v else None) (all_entries t)) None)"
    by (rule fs.scan_fold [OF assms]) (auto simp: inode_visit_def keep_first_def split: option.splits)
  moreover have "List.map_filter (\<lambda>(k, v). if key_oid k = oid then ?f k v else None) es =
      map snd (filter (\<lambda>e. key_oid (fst e) = oid \<and> key_type (fst e) = Some RT_Inode) es)" for es :: "Entry list"
    by (induction es) (auto simp: map_filter_simps)
  ultimately have "for_each_fs_record_for_oid dev volume bs oid (inode_visit oid) None =
      Ok (case map snd (fs_records t oid RT_Inode) of [] \<Rightarrow> None | x # _ \<Rightarrow> Some x)"
    by (simp add: fs_records_def fold_keep)
  also have "\<dots> = Ok (spec_inode t oid)"
    by (simp add: spec_inode_def split: list.split)
  finally have "for_each_fs_record_for_oid dev volume bs oid (inode_visit oid) None = Ok (spec_inode t oid)" .
  then show ?thesis by (simp add: load_inode_def)
qed

lemma open_path_stored:
  assumes "fs_stored dev volume bs t"
  shows "open_path dev volume path bs =
    and_then (spec_path t (vol_xid volume) 2 (path_components path)) (\<lambda>oid.
      and_then (ok_or (spec_inode t oid) (OmapUnresolved oid (vol_xid volume))) (Inode_parse oid))"
proof -
  have "open_path_loop dev volume bs cur cs = spec_path t (vol_xid volume) cur cs" for cur cs
    by (induction cs arbitrary: cur) (auto simp: lookup_child_stored [OF assms] split: option.splits)
  then show ?thesis
    by (simp add: open_path_def ROOT_DIR_INO_NUM_def load_inode_stored [OF assms])
qed

section \<open>Two walks with related visitors\<close>

text \<open>
  The nodes a walk reads do not depend on the visitor: two walks whose visitors keep their states
  related end alike, on any source. So lookups by name agree with the listing even where the tree
  is damaged.
\<close>

lemma rel_and_then:
  "rel_res R x y \<Longrightarrow> (\<And>a b. x = Ok a \<Longrightarrow> R a b \<Longrightarrow> rel_res S (f a) (g b)) \<Longrightarrow>
     rel_res S (and_then x f) (and_then y g)"
  by (cases x; cases y) auto

lemma rel_and_then_same:
  "(\<And>v. x = Ok v \<Longrightarrow> rel_res S (f v) (g v)) \<Longrightarrow> rel_res S (and_then x f) (and_then x g)"
  by (cases x) auto

lemma visit_all_rel:
  "(\<And>k v a b. R a b \<Longrightarrow> R (f k v a) (g k v b)) \<Longrightarrow> R a b \<Longrightarrow> R (visit_all f es a) (visit_all g es b)"
  by (induction es arbitrary: a b) (auto simp: visit_all_def)

lemma descend_virtual_rel:
  "(\<And>k v a b. R a b \<Longrightarrow> R (f k v a) (g k v b)) \<Longrightarrow> R s s' \<Longrightarrow>
     rel_res (rel_prod R (=)) (descend_virtual dev omap xid bs t f d a V s)
       (descend_virtual dev omap xid bs t g d a V s')"
  "(\<And>k v a b. R a b \<Longrightarrow> R (f k v a) (g k v b)) \<Longrightarrow> R s s' \<Longrightarrow>
     rel_res (rel_prod R (=)) (descend_entries dev omap xid bs t f d es V s)
       (descend_entries dev omap xid bs t g d es V s')"
proof (induction dev omap xid bs t f d a V s and dev omap xid bs t f d es V s arbitrary: s' and s'
    rule: descend_virtual_descend_entries.induct [case_names node nil cons])
  case (node dev omap xid bs t f d a V s)
  have "R (visit_all f es s) (visit_all g es s')" for es
    using visit_all_rel [of R f g] node.prems by blast
  then show ?case
    unfolding descend_virtual.simps [of dev omap xid bs t _ d a V]
    using node by (auto intro!: rel_and_then_same simp: not_le simp flip: Suc_eq_plus1 split: option.split)
next
  case (nil dev omap xid bs t f d V s)
  then show ?case by simp
next
  case (cons dev omap xid bs t f d key val es V s)
  then show ?case by (auto intro!: rel_and_then [where R = "rel_prod R (=)"])
qed

lemma for_each_fs_record_rel:
  assumes "\<And>k v a b. R a b \<Longrightarrow> R (f k v a) (g k v b)" and "R s s'"
  shows "rel_res R (for_each_fs_record_for_oid dev volume bs oid f s)
    (for_each_fs_record_for_oid dev volume bs oid g s')"
  unfolding for_each_fs_record_for_oid_def walk_fs_tree_def
  by (intro rel_and_then_same rel_and_then [where R = "rel_prod R (=)"])
    (auto intro!: descend_virtual_rel(1) assms)

lemma rel_res_function: "rel_res (\<lambda>a b. b = h a) x y \<Longrightarrow> y = and_then x (\<lambda>a. Ok (h a))"
  by (cases x; cases y) auto

lemma find_snoc: "List.find P (xs @ [x]) = (case List.find P xs of None \<Rightarrow> if P x then Some x else None | Some y \<Rightarrow> Some y)"
  by (induction xs) auto

lemma lookup_child_list_dir:
  "lookup_child dev volume parent name bs = and_then (list_dir dev volume parent bs) (\<lambda>ds.
     Ok (map_option de_file_id (List.find (\<lambda>d. de_name d = name) ds)))"
  unfolding lookup_child_def list_dir_def
  by (intro rel_res_function for_each_fs_record_rel)
    (auto simp: list_dir_visit_def lookup_visit_def find_snoc split: option.split)

section \<open>What every listing satisfies\<close>

text \<open>What the visitor keeps true of its state holds of the result, on any source.\<close>

lemma for_each_fs_record_invariant:
  assumes "for_each_fs_record_for_oid dev volume bs oid visit s = Ok s'" and "P s"
    and "\<And>k v s. P s \<Longrightarrow> P (visit k v s)"
  shows "P s'"
proof -
  obtain omap V where "descend_virtual dev omap (vol_xid volume) bs (Some oid) visit 0
      (vol_root_tree_oid volume) {} s = Ok (s', V)"
    using assms(1) by (auto simp: for_each_fs_record_for_oid_def walk_fs_tree_def res_simps)
  with assms(3,2) show ?thesis by (rule virt.walk_invariant(1))
qed

lemma parse_dir_entry_name: "parse_dir_entry key val = Some d \<Longrightarrow> name_ok (de_name d)"
  by (auto simp: parse_dir_entry_def decode_drec_name_def Let_def split: option.splits if_splits)

lemma list_dir_names: "list_dir dev volume parent bs = Ok ds \<Longrightarrow> list_all (\<lambda>d. name_ok (de_name d)) ds"
  unfolding list_dir_def
  by (erule for_each_fs_record_invariant) (auto simp: list_dir_visit_def parse_dir_entry_name split: option.split)

section \<open>Names in record keys\<close>

lemma unat_len_mask: "unat (w AND J_DREC_LEN_MASK) = unat w mod 1024"
proof -
  have "w AND J_DREC_LEN_MASK = take_bit 10 w"
    by (simp add: J_DREC_LEN_MASK_def take_bit_eq_mask mask_eq_exp_minus_1)
  then show ?thesis by (simp add: unsigned_take_bit_eq take_bit_nat_def)
qed

lemma le_nat_append: "le_nat (xs @ ys) = le_nat xs + 256 ^ length xs * le_nat ys"
  by (induction xs) (simp_all add: algebra_simps)

lemma le_u32_over_u16:
  "unat (le_u32 (to_le_bytes (n :: u16) @ ys) 0) \<in> {0} \<union> {m. m mod 65536 = unat n}"
proof (cases "2 \<le> length ys")
  case True
  have digits: "le_nat (to_le_bytes n) = unat n"
    using unat_bound [of n] by (simp add: to_le_bytes_def le_nat_digits)
  have "le_u32 (to_le_bytes n @ ys) 0 = from_le_bytes (to_le_bytes n @ take 2 ys)"
    using True by (simp add: le_u32_def get_range_def)
  then have "unat (le_u32 (to_le_bytes n @ ys) 0) = unat n + 65536 * le_nat (take 2 ys)"
    using True by (simp add: unat_from_le_bytes le_nat_append digits)
  then show ?thesis using unat_bound [of n] by simp
next
  case False
  then show ?thesis by (simp add: le_out_of_range)
qed

text \<open>A plain key: 16-bit length including the terminator, then the terminated name.\<close>

definition drec_key_plain :: "bytes \<Rightarrow> rstring \<Rightarrow> bytes" where
  "drec_key_plain hdr name = hdr @ to_le_bytes (word_of_nat (Suc (length name)) :: u16) @ name @ [0]"

text \<open>A hashed key: a 22-bit hash over the 10-bit length, then the terminated name.\<close>

definition drec_key_hashed :: "bytes \<Rightarrow> u32 \<Rightarrow> rstring \<Rightarrow> bytes" where
  "drec_key_hashed hdr hash name =
     hdr @ to_le_bytes (push_bit 10 hash OR word_of_nat (Suc (length name)) :: u32) @ name @ [0]"

lemma decode_drec_name_hashed:
  assumes "length hdr = 8" and "Suc (length name) < 1024" and "valid_utf8 name" and "0 \<notin> set name"
  shows "decode_drec_name (drec_key_hashed hdr hash name) = Some name"
proof -
  have "le_u32 (drec_key_hashed hdr hash name) 8 = push_bit 10 hash OR word_of_nat (Suc (length name))"
    using assms(1) by (simp add: drec_key_hashed_def slice_simps)
  moreover have "take_bit 10 (push_bit 10 hash OR word_of_nat (Suc (length name)) :: u32) =
      take_bit 10 (word_of_nat (Suc (length name)))"
    by (simp add: take_bit_push_bit)
  moreover have "(w :: u32) AND J_DREC_LEN_MASK = take_bit 10 w" for w
    by (simp add: J_DREC_LEN_MASK_def take_bit_eq_mask mask_eq_exp_minus_1)
  ultimately have len: "unat (le_u32 (drec_key_hashed hdr hash name) 8 AND J_DREC_LEN_MASK) = Suc (length name)"
    using assms(2) by (simp add: unsigned_take_bit_eq take_bit_nat_eq_self unat_of_nat del: of_nat_Suc)
  have "get_range (drec_key_hashed hdr hash name) 12 (12 + Suc (length name)) = Some (name @ [0])"
    using assms(1) by (simp add: drec_key_hashed_def get_range_def)
  then show ?thesis
    using assms(3,4) decode_cstr_terminated [of name "[]"] by (simp add: decode_drec_name_def len Let_def)
qed

lemma mod_low: "m mod 65536 = k \<Longrightarrow> k < 1024 \<Longrightarrow> m mod 1024 = (k :: nat)"
  using mod_mod_cancel [of 1024 65536 m] by simp

text \<open>A plain key is never mistaken for a hashed one: its hashed reading would overrun the key.\<close>

lemma decode_drec_name_plain:
  assumes "length hdr = 8" and "Suc (length name) < 1024" and "valid_utf8 name" and "0 \<notin> set name"
  shows "decode_drec_name (drec_key_plain hdr name) = Some name"
proof -
  let ?n = "word_of_nat (Suc (length name)) :: u16"
  let ?key = "drec_key_plain hdr name"
  have n: "unat ?n = Suc (length name)" using assms(2) by (simp add: unat_of_nat del: of_nat_Suc)
  have "unat (le_u32 ?key 8) \<in> {0} \<union> {m. m mod 65536 = unat ?n}"
    using le_u32_over_u16 [of ?n "name @ [0]"] assms(1)
    by (simp add: drec_key_plain_def slice_simps del: of_nat_Suc)
  then have "unat (le_u32 ?key 8) = 0 \<or> unat (le_u32 ?key 8) mod 65536 = Suc (length name)"
    unfolding n by blast
  then have "unat (le_u32 ?key 8) mod 1024 \<in> {0, Suc (length name)}"
    using mod_low [OF _ assms(2)] by (elim disjE) simp_all
  then have hashed: "unat (le_u32 ?key 8 AND J_DREC_LEN_MASK) > 0 \<Longrightarrow>
      get_range ?key 12 (12 + unat (le_u32 ?key 8 AND J_DREC_LEN_MASK)) = None"
    using assms(1) by (auto simp: unat_len_mask get_range_def drec_key_plain_def)
  have "le_u16 ?key 8 = ?n"
    using assms(1) by (simp add: drec_key_plain_def slice_simps del: of_nat_Suc)
  then have len: "unat (le_u16 ?key 8) = Suc (length name)" using n by simp
  have "get_range ?key 10 (10 + Suc (length name)) = Some (name @ [0])"
    using assms(1) by (simp add: drec_key_plain_def get_range_def)
  then show ?thesis
    using hashed assms(3,4) decode_cstr_terminated [of name "[]"]
    by (simp add: decode_drec_name_def len Let_def)
qed

section \<open>Properties\<close>

text \<open>
  C35 (termination, error): on any source and volume whatever, listing, lookup, inode loading and
  path resolution return: they never panic, and fail only with an I/O, checksum or cycle error of a
  walk, an unresolved object or an object of the wrong type.
\<close>

theorem navigation_total:
  "fails_only fs_error (list_dir dev volume parent bs) \<and>
   fails_only fs_error (lookup_child dev volume parent name bs) \<and>
   fails_only fs_error (load_inode dev volume oid bs) \<and>
   fails_only fs_error (open_path dev volume path bs)"
  by simp

end
