(* ===== verification/Extent.thy ===== *)
theory Extent
  imports Dir
begin

text \<open>
  \<^verbatim>\<open>src/src/extent.rs\<close>, the physical read: the extent records of a data stream and the assembly of
  their bytes. The main lemma says byte by byte what the assembled stream holds: the image byte
  the covering extent names, zero in a hole or past the extents.
\<close>

definition J_FILE_EXTENT_LEN_MASK :: u64 where "J_FILE_EXTENT_LEN_MASK = 0x00ffffffffffffff"
definition MAX_FILE_BYTES :: u64 where "MAX_FILE_BYTES = 0x400000000"

record FileExtent =
  logical_offset :: u64
  ext_len :: u64
  phys_block_num :: u64

text \<open>Field offsets.\<close>

definition OFF_FEXT_KEY_LOGICAL :: usize where [simp]: "OFF_FEXT_KEY_LOGICAL = 8"
definition OFF_FEXT_LEN_AND_FLAGS :: usize where [simp]: "OFF_FEXT_LEN_AND_FLAGS = 0"
definition OFF_FEXT_PHYS_BLOCK :: usize where [simp]: "OFF_FEXT_PHYS_BLOCK = 8"

definition parse_extent :: "bytes \<Rightarrow> bytes \<Rightarrow> FileExtent" where
  "parse_extent key value =
     \<lparr>logical_offset = le_u64 key OFF_FEXT_KEY_LOGICAL, ext_len = le_u64 value OFF_FEXT_LEN_AND_FLAGS AND J_FILE_EXTENT_LEN_MASK,
      phys_block_num = le_u64 value OFF_FEXT_PHYS_BLOCK\<rparr>"

definition extent_visit :: "u64 \<Rightarrow> bytes \<Rightarrow> bytes \<Rightarrow> FileExtent list \<Rightarrow> FileExtent list" where
  "extent_visit stream_oid key value out =
     (if key_type key \<noteq> Some RT_FileExtent \<or> key_oid key \<noteq> stream_oid then out
      else out @ [parse_extent key value])"

definition list_extents :: "device \<Rightarrow> ApfsVolume \<Rightarrow> u64 \<Rightarrow> usize \<Rightarrow> FileExtent list res" where
  "list_extents dev volume stream_oid block_size =
     and_then (for_each_fs_record_for_oid dev volume block_size stream_oid (extent_visit stream_oid) [])
       (\<lambda>out. Ok (sort_key logical_offset out))"

text \<open>
  One extent copied into the buffer. The error value is built before the overflow test, so its
  division by the block size is evaluated in every case.
\<close>

definition copy_extent :: "device \<Rightarrow> usize \<Rightarrow> usize \<Rightarrow> FileExtent \<Rightarrow> bytes \<Rightarrow> bytes res" where
  "copy_extent dev block_size sz ext out =
     (let start = unat (logical_offset ext) in
      if start \<ge> sz \<or> phys_block_num ext = 0 then Ok out
      else let avail = sz - start; copy_len = min (unat (ext_len ext)) avail in
        and_then (div_u64 0xffffffffffffffff (word_of_nat block_size)) (\<lambda>cap.
          and_then (ok_or (checked_mul (phys_block_num ext) (word_of_nat block_size))
                     (FieldOutOfRange ''j_file_extent'' ''phys_block_num'' (phys_block_num ext) cap)) (\<lambda>byte_off.
            and_then (read_at dev byte_off copy_len) (\<lambda>b.
              Ok (take start out @ b @ drop (start + copy_len) out)))))"

fun copy_extents :: "device \<Rightarrow> usize \<Rightarrow> usize \<Rightarrow> FileExtent list \<Rightarrow> bytes \<Rightarrow> bytes res" where
  "copy_extents dev block_size sz [] out = Ok out"
| "copy_extents dev block_size sz (ext # es) out =
     and_then (copy_extent dev block_size sz ext out) (copy_extents dev block_size sz es)"

definition read_stream :: "device \<Rightarrow> ApfsVolume \<Rightarrow> u64 \<Rightarrow> u64 \<Rightarrow> usize \<Rightarrow> bytes res" where
  "read_stream dev volume stream_oid logical_size block_size =
     (if logical_size > MAX_FILE_BYTES
      then Err (FieldOutOfRange ''j_dstream'' ''size'' logical_size MAX_FILE_BYTES)
      else and_then (list_extents dev volume stream_oid block_size) (\<lambda>extents.
        copy_extents dev block_size (unat logical_size) extents (replicate (unat logical_size) 0)))"

section \<open>The extents of a stream\<close>

definition spec_extents :: "ptree \<Rightarrow> u64 \<Rightarrow> FileExtent list" where
  "spec_extents t oid = sort_key logical_offset
     (map (\<lambda>(k, v). parse_extent k v) (fs_records t oid RT_FileExtent))"

lemma list_extents_stored:
  assumes "fs_stored dev volume bs t"
  shows "list_extents dev volume oid bs = Ok (spec_extents t oid)"
proof -
  let ?f = "\<lambda>k v. if key_type k = Some RT_FileExtent then Some (parse_extent k v) else None"
  have "for_each_fs_record_for_oid dev volume bs oid (extent_visit oid) [] =
      Ok (fold (\<lambda>x out. out @ [x])
        (List.map_filter (\<lambda>(k, v). if key_oid k = oid then ?f k v else None) (all_entries t)) [])"
    by (rule fs.scan_fold [OF assms]) (auto simp: extent_visit_def)
  moreover have "List.map_filter (\<lambda>(k, v). if key_oid k = oid then ?f k v else None) es =
      map (\<lambda>(k, v). parse_extent k v)
        (filter (\<lambda>e. key_oid (fst e) = oid \<and> key_type (fst e) = Some RT_FileExtent) es)"
    for es :: "Entry list"
    by (induction es) (auto simp: map_filter_simps)
  ultimately show ?thesis
    by (simp add: list_extents_def spec_extents_def fs_records_def fold_push)
qed

lemma list_extents_fails [no_panic, simp]: "fails_only fs_error (list_extents dev volume oid bs)"
  unfolding list_extents_def by (intro fails_only_and_then) simp_all

text \<open>On any source the extents come sorted, and their lengths fit the 56-bit field.\<close>

lemma list_extents_sorted:
  assumes "list_extents dev volume oid bs = Ok es"
  shows "sorted (map logical_offset es) \<and> list_all (\<lambda>e. unat (ext_len e) < 2 ^ 56) es"
proof -
  have "w AND J_FILE_EXTENT_LEN_MASK = take_bit 56 w" for w :: u64
    by (simp add: J_FILE_EXTENT_LEN_MASK_def take_bit_eq_mask mask_eq_exp_minus_1)
  then have len: "unat (ext_len (parse_extent k v)) < 2 ^ 56" for k v
    by (simp add: parse_extent_def unsigned_take_bit_eq take_bit_nat_def)
  have keeps: "list_all (\<lambda>e. unat (ext_len e) < 2 ^ 56) (extent_visit oid k v out)"
    if "list_all (\<lambda>e. unat (ext_len e) < 2 ^ 56) out" for k v out
    using that len [of k v] by (simp add: extent_visit_def)
  obtain out where out: "for_each_fs_record_for_oid dev volume bs oid (extent_visit oid) [] = Ok out"
    and es: "es = sort_key logical_offset out"
    using assms by (auto simp: list_extents_def res_simps)
  have "list_all (\<lambda>e. unat (ext_len e) < 2 ^ 56) out"
    using out by (rule for_each_fs_record_invariant) (simp, rule keeps)
  then show ?thesis by (simp add: es list_all_iff)
qed

section \<open>The bytes of a stream\<close>

text \<open>Extent \<open>e\<close> holds byte \<open>i\<close> of the stream; a hole holds none.\<close>

definition covers :: "nat \<Rightarrow> FileExtent \<Rightarrow> bool" where
  "covers i e \<longleftrightarrow> phys_block_num e \<noteq> 0 \<and> unat (logical_offset e) \<le> i \<and>
     i < unat (logical_offset e) + unat (ext_len e)"

definition extent_byte :: "bytes \<Rightarrow> usize \<Rightarrow> nat \<Rightarrow> FileExtent \<Rightarrow> u8" where
  "extent_byte img bs i e = img ! (unat (phys_block_num e) * bs + (i - unat (logical_offset e)))"

text \<open>Byte \<open>i\<close> of a stream: from the last extent that covers it, zero when none does.\<close>

definition stream_byte :: "bytes \<Rightarrow> usize \<Rightarrow> FileExtent list \<Rightarrow> nat \<Rightarrow> u8" where
  "stream_byte img bs es i = (case List.find (covers i) (rev es) of None \<Rightarrow> 0 | Some e \<Rightarrow> extent_byte img bs i e)"

text \<open>The part of the extent below the logical size lies in the image.\<close>

definition extent_in_image :: "bytes \<Rightarrow> usize \<Rightarrow> nat \<Rightarrow> FileExtent \<Rightarrow> bool" where
  "extent_in_image img bs sz e \<longleftrightarrow> phys_block_num e = 0 \<or> sz \<le> unat (logical_offset e) \<or>
     unat (phys_block_num e) * bs + min (unat (ext_len e)) (sz - unat (logical_offset e)) \<le> length img"

lemma copy_extent_cursor:
  assumes "extent_in_image img bs sz e" and "0 < bs" and "bs < 2 ^ 64" and "length img < 2 ^ 64"
    and "length out = sz"
  shows "copy_extent (cursor img) bs sz e out =
    Ok (map (\<lambda>i. if covers i e then extent_byte img bs i e else out ! i) [0..<sz])"
proof (cases "sz \<le> unat (logical_offset e) \<or> phys_block_num e = 0")
  case True
  then have "map (\<lambda>i. if covers i e then extent_byte img bs i e else out ! i) [0..<sz] = map (\<lambda>i. out ! i) [0..<sz]"
    by (intro map_cong) (auto simp: covers_def)
  also have "\<dots> = out" using assms(5) map_nth [of out] by simp
  finally show ?thesis using True by (auto simp: copy_extent_def)
next
  case False
  define start where "start = unat (logical_offset e)"
  define n where "n = min (unat (ext_len e)) (sz - start)"
  define off where "off = unat (phys_block_num e) * bs"
  have fits: "off + n \<le> length img"
    using False assms(1) by (auto simp: extent_in_image_def start_def n_def off_def)
  have bs: "unat (word_of_nat bs :: u64) = bs" using assms(3) by (simp add: unat_of_nat)
  have mul: "checked_mul (phys_block_num e) (word_of_nat bs) = Some (phys_block_num e * word_of_nat bs)"
    using fits assms(4) by (simp add: checked_mul_def bs off_def)
  have uoff: "unat (phys_block_num e * word_of_nat bs) = off"
    using unat_checked_mul [OF mul] bs by (simp add: off_def)
  have rd: "read_at (cursor img) (phys_block_num e * word_of_nat bs) n = Ok (take n (drop off img))"
    using fits by (simp add: read_at_def cursor_def uoff)
  have "(word_of_nat bs :: u64) \<noteq> 0" using bs assms(2) by (metis neq0_conv unsigned_0)
  then have "copy_extent (cursor img) bs sz e out = Ok (take start out @ take n (drop off img) @ drop (start + n) out)"
    using False mul rd by (simp add: copy_extent_def Let_def div_u64_def flip: start_def n_def)
  moreover have "take start out @ take n (drop off img) @ drop (start + n) out =
      map (\<lambda>i. if covers i e then extent_byte img bs i e else out ! i) [0..<sz]"
  proof (rule nth_equalityI)
    show "length (take start out @ take n (drop off img) @ drop (start + n) out) =
        length (map (\<lambda>i. if covers i e then extent_byte img bs i e else out ! i) [0..<sz])"
      using False fits assms(5) by (auto simp: start_def n_def)
    fix i
    assume "i < length (take start out @ take n (drop off img) @ drop (start + n) out)"
    then have i: "i < sz" using False fits assms(5) by (auto simp: start_def n_def)
    show "(take start out @ take n (drop off img) @ drop (start + n) out) ! i =
        map (\<lambda>i. if covers i e then extent_byte img bs i e else out ! i) [0..<sz] ! i"
      using i False fits assms(5)
      by (auto simp: nth_append covers_def extent_byte_def start_def [symmetric] n_def off_def)
  qed
  ultimately show ?thesis by simp
qed

lemma copy_extents_cursor:
  assumes "\<forall>e \<in> set es. extent_in_image img bs sz e" and "0 < bs" and "bs < 2 ^ 64" and "length img < 2 ^ 64"
    and "length out = sz"
  shows "copy_extents (cursor img) bs sz es out =
    Ok (map (\<lambda>i. case List.find (covers i) (rev es) of None \<Rightarrow> out ! i | Some e \<Rightarrow> extent_byte img bs i e) [0..<sz])"
  using assms(1,5)
proof (induction es arbitrary: out)
  case Nil
  then show ?case using map_nth [of out] by simp
next
  case (Cons e es)
  let ?out = "map (\<lambda>i. if covers i e then extent_byte img bs i e else out ! i) [0..<sz]"
  have "copy_extent (cursor img) bs sz e out = Ok ?out"
    using Cons.prems assms(2-4) by (intro copy_extent_cursor) auto
  moreover have "copy_extents (cursor img) bs sz es ?out = Ok (map (\<lambda>i. case List.find (covers i) (rev es) of
      None \<Rightarrow> ?out ! i | Some e \<Rightarrow> extent_byte img bs i e) [0..<sz])"
    using Cons.prems by (intro Cons.IH) auto
  ultimately show ?case by (auto simp: find_snoc split: option.splits)
qed

lemma read_stream_cursor:
  assumes "fs_stored (cursor img) volume bs t" and "logical_size \<le> MAX_FILE_BYTES" and "0 < bs"
    and "bs < 2 ^ 64" and "length img < 2 ^ 64"
    and "\<forall>e \<in> set (spec_extents t oid). extent_in_image img bs (unat logical_size) e"
  shows "read_stream (cursor img) volume oid logical_size bs =
    Ok (map (stream_byte img bs (spec_extents t oid)) [0..<unat logical_size])"
  using assms(2) copy_extents_cursor [OF assms(6,3-5), of "replicate (unat logical_size) 0"]
  by (auto simp: read_stream_def list_extents_stored [OF assms(1)] stream_byte_def not_less
      intro!: map_cong split: option.splits)

section \<open>On any source\<close>

definition stream_error :: "ApfsError \<Rightarrow> bool" where
  "stream_error e \<longleftrightarrow> fs_error e \<or> (\<exists>s f v c. e = FieldOutOfRange s f v c)"

lemma stream_error_simps [simp]: "fs_error e \<Longrightarrow> stream_error e" "stream_error (FieldOutOfRange s f v c)"
  by (auto simp: stream_error_def)

lemma copy_extent_fails:
  assumes "0 < bs" and "bs < 2 ^ 64"
  shows "fails_only stream_error (copy_extent dev bs sz e out)"
proof -
  have "unat (word_of_nat bs :: u64) = bs" using assms(2) by (simp add: unat_of_nat)
  then have "(word_of_nat bs :: u64) \<noteq> 0" using assms(1) by (metis neq0_conv unsigned_0)
  then show ?thesis
    unfolding copy_extent_def Let_def
    by (auto simp: div_u64_def intro!: fails_only_and_then fails_only_mono [OF read_at_fs_fails])
qed

lemma read_stream_fails:
  assumes "0 < bs" and "bs < 2 ^ 64"
  shows "fails_only stream_error (read_stream dev volume oid size' bs)"
proof -
  have "fails_only stream_error (copy_extents dev bs sz es out)" for sz es out
    by (induction es arbitrary: out) (auto intro!: fails_only_and_then copy_extent_fails assms)
  then show ?thesis
    unfolding read_stream_def
    by (auto intro!: fails_only_and_then fails_only_mono [OF list_extents_fails])
qed

context exact_source
begin

text \<open>Whatever the image says, the assembled stream has exactly the requested size.\<close>

lemma copy_extents_length:
  "copy_extents dev bs sz es out = Ok out' \<Longrightarrow> length out = sz \<Longrightarrow> length out' = sz"
proof (induction es arbitrary: out)
  case (Cons e es)
  then obtain mid where mid: "copy_extent dev bs sz e out = Ok mid" "copy_extents dev bs sz es mid = Ok out'"
    by (auto simp: res_simps)
  have "length mid = sz"
    using mid(1) Cons.prems(2) by (auto simp: copy_extent_def Let_def res_simps dest: length_read_at split: if_splits)
  then show ?case using Cons.IH mid(2) by blast
qed simp

lemma read_stream_length:
  "read_stream dev volume oid sz bs = Ok out \<Longrightarrow> length out = unat sz"
  by (auto simp: read_stream_def res_simps dest: copy_extents_length split: if_splits)

end

end
