(* ===== verification/Xattr.thy ===== *)
theory Xattr
  imports Extent
begin

text \<open>
  \<^verbatim>\<open>src/src/xattr.rs\<close>: extended attributes, embedded or in a data stream, and the three attributes
  the crate interprets (the decmpfs header, the resource fork, the symlink target).
\<close>

definition XATTR_DATA_STREAM :: u16 where "XATTR_DATA_STREAM = 0x0001"

definition ascii :: "string \<Rightarrow> rstring" where
  "ascii s = map (\<lambda>c. word_of_nat (of_char c)) s"

definition XATTR_NAME_DECMPFS :: rstring where "XATTR_NAME_DECMPFS = ascii ''com.apple.decmpfs''"
definition XATTR_NAME_RESOURCE_FORK :: rstring where "XATTR_NAME_RESOURCE_FORK = ascii ''com.apple.ResourceFork''"
definition XATTR_NAME_SYMLINK :: rstring where "XATTR_NAME_SYMLINK = ascii ''com.apple.fs.symlink''"
definition MAX_DECMPFS_XATTR_BYTES :: u64 where "MAX_DECMPFS_XATTR_BYTES = 0x100000"

datatype XattrValue = Embedded bytes | Stream (dstream_oid: u64) (dstream_size: u64)

record Xattr =
  xa_name :: rstring
  xa_flags :: u16
  xa_value :: XattrValue

text \<open>Field offsets.\<close>

definition OFF_XATTR_KEY_NAME_LEN :: usize where [simp]: "OFF_XATTR_KEY_NAME_LEN = 8"
definition OFF_XATTR_KEY_NAME :: usize where [simp]: "OFF_XATTR_KEY_NAME = 10"
definition OFF_XATTR_VAL_FLAGS :: usize where [simp]: "OFF_XATTR_VAL_FLAGS = 0"
definition OFF_XATTR_VAL_XDATA_LEN :: usize where [simp]: "OFF_XATTR_VAL_XDATA_LEN = 2"
definition OFF_XATTR_VAL_XDATA :: usize where [simp]: "OFF_XATTR_VAL_XDATA = 4"
definition OFF_XDSTREAM_OBJ_ID :: usize where [simp]: "OFF_XDSTREAM_OBJ_ID = 0"
definition OFF_XDSTREAM_SIZE :: usize where [simp]: "OFF_XDSTREAM_SIZE = 8"

definition parse_xattr :: "bytes \<Rightarrow> bytes \<Rightarrow> Xattr option" where
  "parse_xattr key value =
     (let name_len = unat (le_u16 key OFF_XATTR_KEY_NAME_LEN) in
      if name_len = 0 then None
      else case get_range key OFF_XATTR_KEY_NAME (OFF_XATTR_KEY_NAME + name_len) of
        None \<Rightarrow> None
      | Some name_bytes \<Rightarrow>
          let flags = le_u16 value OFF_XATTR_VAL_FLAGS;
              xdata_len = unat (le_u16 value OFF_XATTR_VAL_XDATA_LEN);
              xdata = (case get_range value OFF_XATTR_VAL_XDATA (OFF_XATTR_VAL_XDATA + xdata_len) of Some x \<Rightarrow> x | None \<Rightarrow> []) in
          Some \<lparr>xa_name = decode_cstr name_bytes, xa_flags = flags,
                xa_value = (if flags AND XATTR_DATA_STREAM \<noteq> 0
                            then Stream (le_u64 xdata OFF_XDSTREAM_OBJ_ID) (le_u64 xdata OFF_XDSTREAM_SIZE) else Embedded xdata)\<rparr>)"

definition xattr_visit :: "u64 \<Rightarrow> bytes \<Rightarrow> bytes \<Rightarrow> Xattr list \<Rightarrow> Xattr list" where
  "xattr_visit inode_oid key value out =
     (if key_type key \<noteq> Some RT_Xattr \<or> key_oid key \<noteq> inode_oid then out
      else case parse_xattr key value of None \<Rightarrow> out | Some x \<Rightarrow> out @ [x])"

definition list_xattrs :: "device \<Rightarrow> ApfsVolume \<Rightarrow> u64 \<Rightarrow> usize \<Rightarrow> Xattr list res" where
  "list_xattrs dev volume inode_oid block_size =
     for_each_fs_record_for_oid dev volume block_size inode_oid (xattr_visit inode_oid) []"

definition get_xattr :: "device \<Rightarrow> ApfsVolume \<Rightarrow> u64 \<Rightarrow> rstring \<Rightarrow> usize \<Rightarrow> XattrValue option res" where
  "get_xattr dev volume inode_oid name block_size =
     and_then (list_xattrs dev volume inode_oid block_size) (\<lambda>xattrs.
       Ok (map_option xa_value (List.find (\<lambda>x. xa_name x = name) xattrs)))"

definition decmpfs_header :: "device \<Rightarrow> ApfsVolume \<Rightarrow> u64 \<Rightarrow> usize \<Rightarrow> bytes option res" where
  "decmpfs_header dev volume inode_oid block_size =
     and_then (get_xattr dev volume inode_oid XATTR_NAME_DECMPFS block_size) (\<lambda>x.
       case x of
         Some (Embedded bytes) \<Rightarrow> Ok (Some bytes)
       | Some (Stream oid sz) \<Rightarrow>
           if sz > MAX_DECMPFS_XATTR_BYTES
           then Err (FieldOutOfRange ''com.apple.decmpfs j_xattr_dstream'' ''size'' sz MAX_DECMPFS_XATTR_BYTES)
           else and_then (read_stream dev volume oid sz block_size) (\<lambda>bytes. Ok (Some bytes))
       | None \<Rightarrow> Ok None)"

definition resource_fork :: "device \<Rightarrow> ApfsVolume \<Rightarrow> u64 \<Rightarrow> usize \<Rightarrow> bytes option res" where
  "resource_fork dev volume inode_oid block_size =
     and_then (get_xattr dev volume inode_oid XATTR_NAME_RESOURCE_FORK block_size) (\<lambda>x.
       case x of
         Some (Embedded bytes) \<Rightarrow> Ok (Some bytes)
       | Some (Stream oid sz) \<Rightarrow>
           and_then (read_stream dev volume oid sz block_size) (\<lambda>bytes. Ok (Some bytes))
       | None \<Rightarrow> Ok None)"

definition symlink_target :: "device \<Rightarrow> ApfsVolume \<Rightarrow> u64 \<Rightarrow> usize \<Rightarrow> rstring option res" where
  "symlink_target dev volume inode_oid block_size =
     and_then (get_xattr dev volume inode_oid XATTR_NAME_SYMLINK block_size) (\<lambda>x.
       case x of
         Some (Embedded bytes) \<Rightarrow> Ok (Some (decode_cstr bytes))
       | Some (Stream oid sz) \<Rightarrow> Ok None
       | None \<Rightarrow> Ok None)"

section \<open>Attributes over the list of all records\<close>

definition spec_xattrs :: "ptree \<Rightarrow> u64 \<Rightarrow> Xattr list" where
  "spec_xattrs t oid = List.map_filter (\<lambda>(k, v). parse_xattr k v) (fs_records t oid RT_Xattr)"

definition spec_xattr :: "ptree \<Rightarrow> u64 \<Rightarrow> rstring \<Rightarrow> XattrValue option" where
  "spec_xattr t oid name = map_option xa_value (List.find (\<lambda>x. xa_name x = name) (spec_xattrs t oid))"

lemma list_xattrs_stored:
  assumes "fs_stored dev volume bs t"
  shows "list_xattrs dev volume oid bs = Ok (spec_xattrs t oid)"
proof -
  let ?f = "\<lambda>k v. if key_type k = Some RT_Xattr then parse_xattr k v else None"
  have "list_xattrs dev volume oid bs = Ok (fold (\<lambda>x out. out @ [x])
      (List.map_filter (\<lambda>(k, v). if key_oid k = oid then ?f k v else None) (all_entries t)) [])"
    unfolding list_xattrs_def
    by (rule fs.scan_fold [OF assms]) (auto simp: xattr_visit_def split: option.splits)
  moreover have "List.map_filter (\<lambda>(k, v). if key_oid k = oid then ?f k v else None) es =
      List.map_filter (\<lambda>(k, v). parse_xattr k v)
        (filter (\<lambda>e. key_oid (fst e) = oid \<and> key_type (fst e) = Some RT_Xattr) es)" for es :: "Entry list"
    by (induction es) (auto simp: map_filter_simps split: option.splits if_splits)
  ultimately show ?thesis by (simp add: spec_xattrs_def fs_records_def fold_push)
qed

lemma get_xattr_stored:
  assumes "fs_stored dev volume bs t"
  shows "get_xattr dev volume oid name bs = Ok (spec_xattr t oid name)"
  by (simp add: get_xattr_def spec_xattr_def list_xattrs_stored [OF assms])

text \<open>On any source: an attribute's name is a decoded name, its embedded value fits the 16-bit length.\<close>

definition xattr_ok :: "Xattr \<Rightarrow> bool" where
  "xattr_ok x \<longleftrightarrow> name_ok (xa_name x) \<and>
     (case xa_value x of Embedded d \<Rightarrow> length d < 2 ^ 16 | Stream oid sz \<Rightarrow> True)"

lemma parse_xattr_ok: "parse_xattr key val = Some x \<Longrightarrow> xattr_ok x"
  using unat_bound [of "le_u16 val 2"]
  by (auto simp: parse_xattr_def Let_def xattr_ok_def get_range_def split: if_splits)

lemma list_xattrs_ok: "list_xattrs dev volume oid bs = Ok xs \<Longrightarrow> list_all xattr_ok xs"
  unfolding list_xattrs_def
  by (erule for_each_fs_record_invariant) (auto simp: xattr_visit_def parse_xattr_ok split: option.split)

lemma get_xattr_fails [no_panic, simp]: "fails_only fs_error (get_xattr dev volume oid name bs)"
  unfolding get_xattr_def list_xattrs_def by (intro fails_only_and_then) simp_all

lemma symlink_target_fails [no_panic, simp]: "fails_only fs_error (symlink_target dev volume oid bs)"
  unfolding symlink_target_def
  by (intro fails_only_and_then) (auto split: option.splits XattrValue.splits)

lemma xattr_bytes_fails:
  assumes "0 < bs" and "bs < 2 ^ 64"
  shows "fails_only stream_error (decmpfs_header dev volume oid bs)"
    and "fails_only stream_error (resource_fork dev volume oid bs)"
  unfolding decmpfs_header_def resource_fork_def
  by (auto intro!: fails_only_and_then fails_only_mono [OF get_xattr_fails] read_stream_fails assms
      split: option.splits XattrValue.splits)

text \<open>A record laid out as documented gives back its name and embedded value.\<close>

definition xattr_key :: "bytes \<Rightarrow> rstring \<Rightarrow> bytes" where
  "xattr_key hdr name = hdr @ to_le_bytes (word_of_nat (Suc (length name)) :: u16) @ name @ [0]"

definition xattr_val :: "u16 \<Rightarrow> bytes \<Rightarrow> bytes" where
  "xattr_val flags data = to_le_bytes flags @ to_le_bytes (word_of_nat (length data) :: u16) @ data"

lemma parse_xattr_image:
  assumes "length hdr = 8" and "Suc (length name) < 2 ^ 16" and "valid_utf8 name" and "0 \<notin> set name"
    and "length data < 2 ^ 16"
  shows "parse_xattr (xattr_key hdr name) (xattr_val flags data) = Some \<lparr>xa_name = name, xa_flags = flags,
    xa_value = (if flags AND XATTR_DATA_STREAM \<noteq> 0 then Stream (le_u64 data 0) (le_u64 data 8)
                else Embedded data)\<rparr>"
proof -
  have n: "unat (le_u16 (xattr_key hdr name) 8) = Suc (length name)"
    using assms(1,2) by (simp add: xattr_key_def slice_simps unat_of_nat del: of_nat_Suc)
  have "get_range (xattr_key hdr name) 10 (10 + Suc (length name)) = Some (name @ [0])"
    using assms(1) by (simp add: xattr_key_def get_range_def)
  moreover have "unat (le_u16 (xattr_val flags data) 2) = length data" "le_u16 (xattr_val flags data) 0 = flags"
    using assms(5) by (simp_all add: xattr_val_def slice_simps unat_of_nat)
  moreover have "get_range (xattr_val flags data) 4 (4 + length data) = Some data"
    by (simp add: xattr_val_def get_range_def)
  ultimately show ?thesis
    using decode_cstr_terminated [OF assms(3,4), of "[]"] by (simp add: parse_xattr_def n Let_def)
qed

end
