(* ===== verification/Compression.thy ===== *)
theory Compression
  imports Xattr
begin

text \<open>
  \<^verbatim>\<open>src/src/decmpfs.rs\<close> and \<^verbatim>\<open>src/src/compression.rs\<close>: classification of the compression types and
  the decoding of inline and resource-fork payloads. The three codecs are third-party crates
  (\<^verbatim>\<open>flate2\<close>, \<^verbatim>\<open>lzvn\<close>, \<^verbatim>\<open>lzfse_rust\<close>): they are the fields of the \<open>Codecs\<close> parameter, \<open>None\<close> for a
  rejected stream.
\<close>

section \<open>\<^verbatim>\<open>decmpfs.rs\<close>\<close>

definition DECMPFS_MAGIC :: u32 where "DECMPFS_MAGIC = 0x636d7066"
definition HEADER_LEN :: usize where "HEADER_LEN = 16"
definition COMPRESSION_TYPE_OFFSET :: usize where "COMPRESSION_TYPE_OFFSET = 4"
definition UNCOMPRESSED_SIZE_OFFSET :: usize where "UNCOMPRESSED_SIZE_OFFSET = 8"
definition CHUNK_SIZE :: usize where "CHUNK_SIZE = 65536"

datatype Storage = Inline | ResourceFork
datatype Algorithm = Uncompressed | Zlib | Lzvn | Lzfse | LzBitmap

record Compression =
  algorithm :: Algorithm
  storage :: Storage

definition classify :: "u32 \<Rightarrow> Compression option" where
  "classify ty =
     (if ty = 1 \<or> ty = 9 then Some \<lparr>algorithm = Uncompressed, storage = Inline\<rparr>
      else if ty = 10 then Some \<lparr>algorithm = Uncompressed, storage = ResourceFork\<rparr>
      else if ty = 3 then Some \<lparr>algorithm = Zlib, storage = Inline\<rparr>
      else if ty = 4 then Some \<lparr>algorithm = Zlib, storage = ResourceFork\<rparr>
      else if ty = 7 then Some \<lparr>algorithm = Lzvn, storage = Inline\<rparr>
      else if ty = 8 then Some \<lparr>algorithm = Lzvn, storage = ResourceFork\<rparr>
      else if ty = 11 then Some \<lparr>algorithm = Lzfse, storage = Inline\<rparr>
      else if ty = 12 then Some \<lparr>algorithm = Lzfse, storage = ResourceFork\<rparr>
      else if ty = 13 then Some \<lparr>algorithm = LzBitmap, storage = Inline\<rparr>
      else if ty = 14 then Some \<lparr>algorithm = LzBitmap, storage = ResourceFork\<rparr>
      else None)"

section \<open>\<^verbatim>\<open>compression.rs\<close>\<close>

record Codecs =
  zlib_read_to_end :: "bytes \<Rightarrow> bytes option"
  lzvn_codec :: "bytes \<Rightarrow> usize \<Rightarrow> bytes option"
  lzfse_codec :: "bytes \<Rightarrow> bytes option"

definition decmpfs_slice :: "bytes \<Rightarrow> usize \<Rightarrow> usize \<Rightarrow> bytes res" where
  "decmpfs_slice data offset n =
     and_then (ok_or (checked_add_usize offset n) (Decmpfs ''decmpfs read offset overflow'')) (\<lambda>e.
       ok_or (get_range data offset e) (Decmpfs ''decmpfs read out of bounds''))"

definition decmpfs_le_u32 :: "bytes \<Rightarrow> usize \<Rightarrow> u32 res" where
  "decmpfs_le_u32 data offset = and_then (decmpfs_slice data offset 4) (\<lambda>b. Ok (from_le_bytes b))"

definition decmpfs_be_u32 :: "bytes \<Rightarrow> usize \<Rightarrow> u32 res" where
  "decmpfs_be_u32 data offset = and_then (decmpfs_slice data offset 4) (\<lambda>b. Ok (from_le_bytes (rev b)))"

definition decmpfs_le_u64 :: "bytes \<Rightarrow> usize \<Rightarrow> u64 res" where
  "decmpfs_le_u64 data offset = and_then (decmpfs_slice data offset 8) (\<lambda>b. Ok (from_le_bytes b))"

definition inflate :: "Codecs \<Rightarrow> bytes \<Rightarrow> bytes res" where
  "inflate cs data = ok_or (zlib_read_to_end cs data) (Decmpfs ''decmpfs zlib codec error'')"

definition lzvn_decode :: "Codecs \<Rightarrow> bytes \<Rightarrow> usize \<Rightarrow> bytes res" where
  "lzvn_decode cs chunk n = ok_or (lzvn_codec cs chunk n) (Decmpfs ''decmpfs lzvn codec error'')"

definition lzfse_decode :: "Codecs \<Rightarrow> bytes \<Rightarrow> bytes res" where
  "lzfse_decode cs stream = ok_or (lzfse_codec cs stream) (Decmpfs ''decmpfs lzfse codec error'')"

definition unreachable_algorithm :: "bytes res" where
  "unreachable_algorithm = Err (Decmpfs ''decmpfs unsupported algorithm'')"

definition uncompressed_size :: "bytes \<Rightarrow> u64 res" where
  "uncompressed_size header =
     (if length header < HEADER_LEN then Err (Decmpfs ''decmpfs xattr shorter than 16-byte header'')
      else and_then (decmpfs_le_u32 header 0) (\<lambda>magic.
        if magic \<noteq> DECMPFS_MAGIC then Err (Decmpfs (''decmpfs bad magic (expected '' @ CHR 0x27 # ''cmpf'' @ [CHR 0x27, CHR 0x29]))
        else decmpfs_le_u64 header UNCOMPRESSED_SIZE_OFFSET))"

definition decode_inline :: "Codecs \<Rightarrow> Algorithm \<Rightarrow> bytes \<Rightarrow> usize \<Rightarrow> u32 \<Rightarrow> bytes res" where
  "decode_inline cs alg payload usz compression_type =
     (case alg of
        Uncompressed \<Rightarrow> if compression_type = 9 then Ok (drop 1 payload) else Ok payload
      | Zlib \<Rightarrow> (case payload of b # rest \<Rightarrow> if b = 0xFF then Ok rest else inflate cs payload
                 | [] \<Rightarrow> inflate cs payload)
      | Lzvn \<Rightarrow> (case payload of b # rest \<Rightarrow> if b = 0x06 then Ok rest else lzvn_decode cs payload usz
                 | [] \<Rightarrow> lzvn_decode cs payload usz)
      | Lzfse \<Rightarrow> lzfse_decode cs payload
      | LzBitmap \<Rightarrow> unreachable_algorithm)"

text \<open>The block loop of a zlib resource fork; \<open>table\<close> is where the block table starts.\<close>

fun zlib_blocks :: "Codecs \<Rightarrow> bytes \<Rightarrow> usize \<Rightarrow> usize list \<Rightarrow> bytes \<Rightarrow> bytes res" where
  "zlib_blocks cs fork table [] out = Ok out"
| "zlib_blocks cs fork table (i # is) out =
     and_then (ok_or (Option.bind (checked_add_usize table 4) (\<lambda>b.
                 Option.bind (checked_mul_usize i 8) (\<lambda>m. checked_add_usize b m)))
               (Decmpfs ''decmpfs zlib fork entry offset overflow'')) (\<lambda>entry.
       and_then (decmpfs_le_u32 fork entry) (\<lambda>offset.
         and_then (decmpfs_le_u32 fork (entry + 4)) (\<lambda>sz.
           and_then (ok_or (checked_add_usize table (unat offset)) (Decmpfs ''decmpfs zlib fork block start overflow'')) (\<lambda>start.
             and_then (ok_or (checked_add_usize start (unat sz)) (Decmpfs ''decmpfs zlib fork block end overflow'')) (\<lambda>e.
               and_then (ok_or (get_range fork start e) (Decmpfs ''decmpfs zlib fork block out of bounds'')) (\<lambda>block.
                 and_then (inflate cs block) (\<lambda>plain.
                   zlib_blocks cs fork table is (out @ plain))))))))"

definition decode_zlib_resource_fork :: "Codecs \<Rightarrow> bytes \<Rightarrow> usize \<Rightarrow> bytes res" where
  "decode_zlib_resource_fork cs fork usz =
     and_then (decmpfs_be_u32 fork 0) (\<lambda>header_size.
       and_then (ok_or (checked_add_usize (unat header_size) 4)
                  (Decmpfs ''decmpfs zlib fork table offset overflow'')) (\<lambda>table.
         and_then (decmpfs_le_u32 fork table) (\<lambda>num_blocks.
           zlib_blocks cs fork table [0..<unat num_blocks] [])))"

definition decode_chunk :: "Codecs \<Rightarrow> Algorithm \<Rightarrow> bytes \<Rightarrow> usize \<Rightarrow> bytes res" where
  "decode_chunk cs alg chunk n =
     (case alg of Lzvn \<Rightarrow> lzvn_decode cs chunk n | Lzfse \<Rightarrow> lzfse_decode cs chunk
      | Uncompressed \<Rightarrow> Ok chunk | _ \<Rightarrow> unreachable_algorithm)"

fun chunk_loop :: "Codecs \<Rightarrow> Algorithm \<Rightarrow> bytes \<Rightarrow> usize \<Rightarrow> usize list \<Rightarrow> usize \<Rightarrow> bytes \<Rightarrow> bytes res" where
  "chunk_loop cs alg fork usz [] src out = Ok out"
| "chunk_loop cs alg fork usz (i # is) src out =
     (if length out \<ge> usz then Ok out
      else and_then (decmpfs_le_u32 fork (4 + i * 4)) (\<lambda>e.
        if unat e < src then Err (Decmpfs ''decmpfs chunked fork end-offset goes backward'')
        else and_then (ok_or (get_range fork src (unat e)) (Decmpfs ''decmpfs chunked fork chunk out of bounds'')) (\<lambda>chunk.
          let chunk_uncompressed = min (usz - length out) CHUNK_SIZE in
          and_then (decode_chunk cs alg chunk chunk_uncompressed) (\<lambda>decoded.
            chunk_loop cs alg fork usz is (unat e) (out @ decoded)))))"

definition decode_chunked_resource_fork :: "Codecs \<Rightarrow> Algorithm \<Rightarrow> bytes \<Rightarrow> usize \<Rightarrow> bytes res" where
  "decode_chunked_resource_fork cs alg fork usz =
     and_then (decmpfs_le_u32 fork 0) (\<lambda>header_size.
       if unat header_size div 4 < 1 then Err (Decmpfs ''decmpfs chunked fork header too small'')
       else chunk_loop cs alg fork usz [0..<unat header_size div 4 - 1] (unat header_size) [])"

definition decode_resource_fork :: "Codecs \<Rightarrow> Algorithm \<Rightarrow> bytes \<Rightarrow> usize \<Rightarrow> bytes res" where
  "decode_resource_fork cs alg fork usz =
     (case alg of
        Zlib \<Rightarrow> decode_zlib_resource_fork cs fork usz
      | LzBitmap \<Rightarrow> unreachable_algorithm
      | _ \<Rightarrow> decode_chunked_resource_fork cs alg fork usz)"

definition decompress_decmpfs :: "Codecs \<Rightarrow> bytes \<Rightarrow> bytes option \<Rightarrow> bytes res" where
  "decompress_decmpfs cs header fork_opt =
     and_then (uncompressed_size header) (\<lambda>sz64.
       let sz = unat sz64 in
       and_then (decmpfs_le_u32 header COMPRESSION_TYPE_OFFSET) (\<lambda>ty.
         case classify ty of
           None \<Rightarrow> Err (if ty = 5 then Decmpfs ''decmpfs type 5 (de-dup generation store, no payload)''
                        else Decmpfs ''decmpfs unknown compression_type'')
         | Some kind \<Rightarrow>
             if algorithm kind = LzBitmap then Err (Decmpfs ''decmpfs LZBitmap (no public spec)'')
             else and_then
               (case storage kind of
                  Inline \<Rightarrow>
                    and_then (ok_or (get_range header HEADER_LEN (length header))
                                (Decmpfs ''decmpfs inline payload truncated'')) (\<lambda>payload.
                      decode_inline cs (algorithm kind) payload sz ty)
                | ResourceFork \<Rightarrow>
                    and_then (ok_or fork_opt (Decmpfs ''decmpfs resource-fork type but no fork present'')) (\<lambda>fork.
                      decode_resource_fork cs (algorithm kind) fork sz))
               (\<lambda>out. if length out \<noteq> sz then Err (Decmpfs ''decmpfs decoded length != uncompressed_size'')
                      else Ok out)))"

definition read_compressed :: "Codecs \<Rightarrow> device \<Rightarrow> ApfsVolume \<Rightarrow> Inode \<Rightarrow> bytes \<Rightarrow> usize \<Rightarrow> bytes res" where
  "read_compressed cs dev volume inode header block_size =
     and_then (decmpfs_le_u32 header COMPRESSION_TYPE_OFFSET) (\<lambda>ty.
       let needs_fork = (case classify ty of None \<Rightarrow> False | Some c \<Rightarrow> storage c = ResourceFork) in
       and_then (if needs_fork then resource_fork dev volume (ino_oid inode) block_size else Ok None) (\<lambda>fork.
         decompress_decmpfs cs header fork))"

section \<open>\<^verbatim>\<open>extent.rs\<close>: the contents and the size of a file\<close>

definition read_data :: "Codecs \<Rightarrow> device \<Rightarrow> ApfsVolume \<Rightarrow> Inode \<Rightarrow> usize \<Rightarrow> bytes res" where
  "read_data cs dev volume inode block_size =
     and_then (decmpfs_header dev volume (ino_oid inode) block_size) (\<lambda>h.
       case h of
         Some header \<Rightarrow> read_compressed cs dev volume inode header block_size
       | None \<Rightarrow>
           read_stream dev volume (ino_private_id inode)
             (case ino_size inode of Some sz \<Rightarrow> sz | None \<Rightarrow> 0) block_size)"

definition data_size :: "device \<Rightarrow> ApfsVolume \<Rightarrow> Inode \<Rightarrow> usize \<Rightarrow> u64 res" where
  "data_size dev volume inode block_size =
     and_then (decmpfs_header dev volume (ino_oid inode) block_size) (\<lambda>h.
       case h of Some header \<Rightarrow> uncompressed_size header
       | None \<Rightarrow> Ok (case ino_size inode of Some sz \<Rightarrow> sz | None \<Rightarrow> 0))"

section \<open>A decoded file has the size its header declares\<close>

lemma decompress_length:
  assumes "decompress_decmpfs cs header fork = Ok out"
  shows "\<exists>sz. uncompressed_size header = Ok sz \<and> unat sz = length out"
proof -
  obtain sz where "uncompressed_size header = Ok sz" "length out = unat sz"
    using assms by (auto simp: decompress_decmpfs_def Let_def res_simps split: option.splits if_splits prod.splits)
  then show ?thesis by simp
qed

text \<open>The size reported for a file is the number of bytes its contents have.\<close>

context exact_source
begin

lemma read_data_length:
  assumes "read_data cs dev volume inode bs = Ok out"
  shows "\<exists>sz. data_size dev volume inode bs = Ok sz \<and> unat sz = length out"
proof -
  obtain h where h: "decmpfs_header dev volume (ino_oid inode) bs = Ok h"
    and body: "(case h of Some header \<Rightarrow> read_compressed cs dev volume inode header bs
      | None \<Rightarrow> read_stream dev volume (ino_private_id inode)
          (case ino_size inode of Some sz \<Rightarrow> sz | None \<Rightarrow> 0) bs) = Ok out"
    using assms by (auto simp: read_data_def res_simps)
  show ?thesis
  proof (cases h)
    case None
    then show ?thesis using h body read_stream_length by (auto simp: data_size_def split: option.splits)
  next
    case (Some header)
    then obtain fork where "decompress_decmpfs cs header fork = Ok out"
      using body by (auto simp: read_compressed_def Let_def res_simps)
    then show ?thesis using h Some decompress_length by (fastforce simp: data_size_def)
  qed
qed

end

section \<open>No panic\<close>

definition data_error :: "ApfsError \<Rightarrow> bool" where
  "data_error e \<longleftrightarrow> stream_error e \<or> (\<exists>m. e = Decmpfs m)"

lemma data_error_simps [simp]: "stream_error e \<Longrightarrow> data_error e" "data_error (Decmpfs m)"
  by (auto simp: data_error_def)

lemma decmpfs_readers_fail [simp]:
  "fails_only data_error (decmpfs_slice d off n)" "fails_only data_error (decmpfs_le_u32 d off)"
  "fails_only data_error (decmpfs_be_u32 d off)" "fails_only data_error (decmpfs_le_u64 d off)"
  by (auto simp: decmpfs_slice_def decmpfs_le_u32_def decmpfs_be_u32_def decmpfs_le_u64_def
      intro!: fails_only_and_then)

lemma codecs_fail [simp]:
  "fails_only data_error (inflate cs d)" "fails_only data_error (lzvn_decode cs d n)"
  "fails_only data_error (lzfse_decode cs d)" "fails_only data_error unreachable_algorithm"
  by (simp_all add: inflate_def lzvn_decode_def lzfse_decode_def unreachable_algorithm_def)

lemma zlib_blocks_fail [simp]: "fails_only data_error (zlib_blocks cs fork table is out)"
  by (induction "is" arbitrary: out) (auto intro!: fails_only_and_then)

lemma chunk_loop_fail [simp]: "fails_only data_error (chunk_loop cs a fork sz is src out)"
proof (induction "is" arbitrary: src out)
  case (Cons i "is")
  have "fails_only data_error (decode_chunk cs a c n)" for c n
    by (simp add: decode_chunk_def split: Algorithm.split)
  then show ?case using Cons by (auto simp: Let_def intro!: fails_only_and_then)
qed simp

lemma uncompressed_size_fail [simp]: "fails_only data_error (uncompressed_size h)"
  by (auto simp: uncompressed_size_def intro!: fails_only_and_then)

lemma decompress_fail [simp]: "fails_only data_error (decompress_decmpfs cs h f)"
proof -
  have "fails_only data_error (decode_inline cs a p n ty)" for a p n ty
    by (simp add: decode_inline_def split: Algorithm.split list.split)
  moreover have "fails_only data_error (decode_resource_fork cs a p n)" for a p n
    by (auto simp: decode_resource_fork_def decode_zlib_resource_fork_def decode_chunked_resource_fork_def
        intro!: fails_only_and_then split: Algorithm.split)
  ultimately show ?thesis
    unfolding decompress_decmpfs_def Let_def
    by (auto intro!: fails_only_and_then split: option.split Storage.split)
qed

lemma read_data_fails:
  assumes "0 < bs" and "bs < 2 ^ 64"
  shows "fails_only data_error (read_data cs dev volume inode bs)"
    and "fails_only data_error (data_size dev volume inode bs)"
proof -
  note src = xattr_bytes_fails [OF assms] read_stream_fails [OF assms]
  have comp: "fails_only data_error (read_compressed cs dev volume inode h bs)" for h
    unfolding read_compressed_def Let_def
    by (auto intro!: fails_only_and_then fails_only_mono [OF src(2)])
  show "fails_only data_error (read_data cs dev volume inode bs)"
    unfolding read_data_def
    by (auto intro!: fails_only_and_then fails_only_mono [OF src(1)] fails_only_mono [OF src(3)] comp split: option.split)
  show "fails_only data_error (data_size dev volume inode bs)"
    unfolding data_size_def
    by (auto intro!: fails_only_and_then fails_only_mono [OF src(1)] split: option.split)
qed

text \<open>A stand-in for the codecs: zlib and LZFSE store their input, LZVN puts one byte in front.\<close>

definition tag_codecs :: Codecs where
  "tag_codecs = \<lparr>zlib_read_to_end = (\<lambda>d. Some d), lzvn_codec = (\<lambda>d n. Some (take n (drop 1 d))),
     lzfse_codec = (\<lambda>d. Some d)\<rparr>"

end
