(* ===== verification/Decmpfs_Image.thy ===== *)
theory Decmpfs_Image
  imports Compression
begin

text \<open>
  Compressed files as the format lays them out: the 16-byte decmpfs header with an inline payload,
  the zlib resource fork (block table of offsets and sizes) and the chunked resource forks (end
  offsets). The lemmas show that the decoders of \<^verbatim>\<open>compression.rs\<close> invert these layouts, for every
  codec that inverts its compressor on the stored pieces.
\<close>

section \<open>Chunked resource forks\<close>

text \<open>
  A chunked fork as documented: the header length, the end offset of every chunk, unused slots
  zeroed, then the chunks.
\<close>

fun end_offsets :: "nat \<Rightarrow> bytes list \<Rightarrow> bytes" where
  "end_offsets pos [] = []"
| "end_offsets pos (c # cs) = to_le_bytes (word_of_nat (pos + length c) :: u32) @ end_offsets (pos + length c) cs"

definition fork_header_len :: "nat \<Rightarrow> bytes list \<Rightarrow> nat" where
  "fork_header_len pad chunks = 4 + 4 * (length chunks + pad)"

definition chunked_fork :: "nat \<Rightarrow> bytes list \<Rightarrow> bytes" where
  "chunked_fork pad chunks = to_le_bytes (word_of_nat (fork_header_len pad chunks) :: u32) @
     end_offsets (fork_header_len pad chunks) chunks @ replicate (4 * pad) 0 @ concat chunks"

text \<open>The plain chunks are full but for the last, and each is what its stored chunk decodes to.\<close>

fun chunks_decode :: "Codecs \<Rightarrow> Algorithm \<Rightarrow> (bytes \<times> bytes) list \<Rightarrow> bool" where
  "chunks_decode cs a [] = True"
| "chunks_decode cs a ((packed, plain) # ps) =
     (decode_chunk cs a packed (length plain) = Ok plain \<and> plain \<noteq> [] \<and>
      (if ps = [] then length plain \<le> CHUNK_SIZE else length plain = CHUNK_SIZE) \<and> chunks_decode cs a ps)"

lemma length_end_offsets [simp]: "length (end_offsets pos cs) = 4 * length cs"
  by (induction cs arbitrary: pos) auto

lemma end_offsets_append:
  "end_offsets pos (as @ bs) = end_offsets pos as @ end_offsets (pos + length (concat as)) bs"
  by (induction as arbitrary: pos) (auto simp: add.assoc)

lemma decmpfs_le_u32_at:
  assumes "length pre + 4 < 2 ^ 64"
  shows "decmpfs_le_u32 (pre @ to_le_bytes w @ post) (length pre) = Ok (w :: u32)"
  using assms
  by (simp add: decmpfs_le_u32_def decmpfs_slice_def checked_add_usize_def get_range_def from_to_le_bytes)

lemma min_chunk:
  assumes "chunks_decode cs a ((c, p) # bs)"
  shows "min (length p + length (concat (map snd bs))) CHUNK_SIZE = length p"
  using assms by (cases "bs = []") (auto split: if_splits)

lemma chunk_loop_fork:
  assumes fork: "fork = chunked_fork pad (map fst (as @ bs))"
    and ok: "chunks_decode cs a bs"
    and small: "fork_header_len pad (map fst (as @ bs)) + length (concat (map fst (as @ bs))) < 2 ^ 32"
  shows "chunk_loop cs a fork (length (concat (map snd (as @ bs)))) [length as..<length as + length bs + pad]
      (fork_header_len pad (map fst (as @ bs)) + length (concat (map fst as))) (concat (map snd as)) =
    Ok (concat (map snd (as @ bs)))"
  using assms
proof (induction bs arbitrary: "as")
  case Nil
  then show ?case by (cases pad) (simp_all add: upt_conv_Cons del: upt_Suc)
next
  case (Cons b bs)
  obtain c p where b: "b = (c, p)" by (cases b)
  define hl where "hl = fork_header_len pad (map fst (as @ b # bs))"
  define src where "src = hl + length (concat (map fst as))"
  define usz where "usz = length (concat (map snd (as @ b # bs)))"
  have p: "decode_chunk cs a c (length p) = Ok p" "p \<noteq> []"
    using Cons.prems(2) by (simp_all add: b)
  define pre where "pre = to_le_bytes (word_of_nat hl :: u32) @ end_offsets hl (map fst as)"
  define post where "post = end_offsets (src + length c) (map fst bs) @ replicate (4 * pad) 0 @ concat (map fst as)"
  define w :: u32 where "w = word_of_nat (src + length c)"
  have fk: "fork = pre @ to_le_bytes w @ post @ c @ concat (map fst bs)"
    unfolding Cons.prems(1) chunked_fork_def hl_def [symmetric]
    by (simp add: end_offsets_append pre_def post_def w_def src_def b add.assoc)
  have lpre: "length pre = 4 + 4 * length as" by (simp add: pre_def)
  have sum: "src + length c < 2 ^ 32"
    using Cons.prems(3) by (simp add: src_def hl_def b)
  have w: "unat w = src + length c" using sum by (simp add: w_def unat_of_nat del: of_nat_add)
  have "length as < 2 ^ 32" using Cons.prems(3) by (simp add: fork_header_len_def)
  then have e: "decmpfs_le_u32 fork (4 + length as * 4) = Ok w"
    unfolding fk using decmpfs_le_u32_at [of pre w] lpre by (simp add: mult.commute)
  have "src = length (pre @ to_le_bytes w @ post)"
    by (simp add: lpre post_def src_def hl_def fork_header_len_def)
  then have chunk: "get_range fork src (src + length c) = Some c"
    using get_range_prefix [of "pre @ to_le_bytes w @ post" c "concat (map fst bs)"] by (simp add: fk)
  have more: "length (concat (map snd as)) < usz"
    using p(2) by (simp add: usz_def b)
  have take: "min (usz - length (concat (map snd as))) CHUNK_SIZE = length p"
    using min_chunk [of cs a c p bs] Cons.prems(2) by (simp add: usz_def b)
  have "chunk_loop cs a fork (length (concat (map snd ((as @ [b]) @ bs))))
      [length (as @ [b])..<length (as @ [b]) + length bs + pad]
      (fork_header_len pad (map fst ((as @ [b]) @ bs)) + length (concat (map fst (as @ [b]))))
      (concat (map snd (as @ [b]))) = Ok (concat (map snd ((as @ [b]) @ bs)))"
    using Cons.prems by (intro Cons.IH) (simp_all add: b)
  then have later: "chunk_loop cs a fork usz [Suc (length as)..<Suc (length as) + length bs + pad]
      (src + length c) (concat (map snd as) @ p) = Ok (concat (map snd (as @ b # bs)))"
    by (simp add: usz_def src_def hl_def b add.assoc)
  have upt: "[length as..<length as + length (b # bs) + pad] =
      length as # [Suc (length as)..<Suc (length as) + length bs + pad]"
    by (simp add: upt_conv_Cons del: upt_Suc)
  show ?case
    unfolding upt usz_def [symmetric] hl_def [symmetric] src_def [symmetric] chunk_loop.simps
    using more e chunk p(1) later by (simp add: w take Let_def del: concat_append map_append)
qed

lemma decode_chunked_fork:
  assumes "chunks_decode cs a ps" and "fork_header_len pad (map fst ps) + length (concat (map fst ps)) < 2 ^ 32"
  shows "decode_chunked_resource_fork cs a (chunked_fork pad (map fst ps)) (length (concat (map snd ps))) =
    Ok (concat (map snd ps))"
proof -
  let ?hl = "fork_header_len pad (map fst ps)"
  have "decmpfs_le_u32 (chunked_fork pad (map fst ps)) 0 = Ok (word_of_nat ?hl)"
    using decmpfs_le_u32_at [of "[]" "word_of_nat ?hl"] by (simp add: chunked_fork_def)
  moreover have "unat (word_of_nat ?hl :: u32) = ?hl" using assms(2) by (simp add: unat_of_nat)
  moreover have "?hl div 4 - 1 = length ps + pad" "\<not> ?hl div 4 < 1" by (simp_all add: fork_header_len_def)
  ultimately show ?thesis
    using chunk_loop_fork [of _ pad "[]" ps cs a] assms by (simp add: decode_chunked_resource_fork_def)
qed

section \<open>Zlib resource forks\<close>

text \<open>
  The block table: for each block its offset from the table and its size. In front of the table the
  big-endian header size and that many bytes; behind the blocks anything.
\<close>

fun block_entries :: "nat \<Rightarrow> bytes list \<Rightarrow> bytes" where
  "block_entries pos [] = []"
| "block_entries pos (b # bs) = to_le_bytes (word_of_nat pos :: u32) @ to_le_bytes (word_of_nat (length b) :: u32) @
     block_entries (pos + length b) bs"

definition zlib_fork :: "bytes \<Rightarrow> bytes list \<Rightarrow> bytes \<Rightarrow> bytes" where
  "zlib_fork gap blocks tail = rev (to_le_bytes (word_of_nat (length gap) :: u32)) @ gap @
     to_le_bytes (word_of_nat (length blocks) :: u32) @ block_entries (4 + 8 * length blocks) blocks @
     concat blocks @ tail"

lemma length_block_entries [simp]: "length (block_entries pos bs) = 8 * length bs"
  by (induction bs arbitrary: pos) auto

lemma block_entries_append:
  "block_entries pos (as @ bs) = block_entries pos as @ block_entries (pos + length (concat as)) bs"
  by (induction as arbitrary: pos) (auto simp: add.assoc)

lemma zlib_blocks_fork:
  assumes fork: "fork = zlib_fork gap (map fst (as @ bs)) tail"
    and ok: "\<forall>(packed, plain) \<in> set bs. zlib_read_to_end cs packed = Some plain"
    and small: "length gap + 4 + 4 + 8 * length (as @ bs) + length (concat (map fst (as @ bs))) < 2 ^ 32"
  shows "zlib_blocks cs fork (length gap + 4) [length as..<length as + length bs] (concat (map snd as)) =
    Ok (concat (map snd (as @ bs)))"
  using assms
proof (induction bs arbitrary: "as")
  case (Cons b bs)
  obtain c p where b: "b = (c, p)" by (cases b)
  define n where "n = length (as @ b # bs)"
  define pos where "pos = 4 + 8 * n + length (concat (map fst as))"
  define hdr where "hdr = rev (to_le_bytes (word_of_nat (length gap) :: u32)) @ gap @ to_le_bytes (word_of_nat n :: u32)"
  define pre where "pre = hdr @ block_entries (4 + 8 * n) (map fst as)"
  define post where "post = block_entries (pos + length c) (map fst bs) @ concat (map fst as)"
  define w v :: u32 where "w = word_of_nat pos" and "v = word_of_nat (length c)"
  have fk: "fork = pre @ to_le_bytes w @ to_le_bytes v @ post @ c @ concat (map fst bs) @ tail"
    unfolding Cons.prems(1) zlib_fork_def
    by (simp add: block_entries_append pre_def hdr_def post_def w_def v_def pos_def n_def b add.assoc)
  have lpre: "length pre = length gap + 4 + 4 + 8 * length as" by (simp add: pre_def hdr_def)
  have bound: "length gap + 4 + pos + length c < 2 ^ 32" "length pre + 8 < 2 ^ 64"
    using Cons.prems(3) by (simp_all add: pos_def n_def b lpre)
  have wv: "unat w = pos" "unat v = length c"
    using bound(1) by (simp_all add: w_def v_def unat_of_nat)
  have e1: "decmpfs_le_u32 fork (length pre) = Ok w"
    unfolding fk using bound(2) by (intro decmpfs_le_u32_at) simp
  have "decmpfs_le_u32 ((pre @ to_le_bytes w) @ to_le_bytes v @ post @ c @ concat (map fst bs) @ tail)
      (length (pre @ to_le_bytes w)) = Ok v"
    using bound(2) by (intro decmpfs_le_u32_at) simp
  then have e2: "decmpfs_le_u32 fork (length pre + 4) = Ok v" by (simp add: fk)
  have at: "length gap + 4 + pos = length (pre @ to_le_bytes w @ to_le_bytes v @ post)"
    by (simp add: lpre post_def pos_def n_def)
  have block: "get_range fork (length gap + 4 + pos) (length gap + 4 + pos + length c) = Some c"
    unfolding at fk
    using get_range_prefix [of "pre @ to_le_bytes w @ to_le_bytes v @ post" c "concat (map fst bs) @ tail"] by simp
  have inf: "inflate cs c = Ok p" using Cons.prems(2) by (simp add: b inflate_def)
  have "zlib_blocks cs fork (length gap + 4) [length (as @ [b])..<length (as @ [b]) + length bs]
      (concat (map snd (as @ [b]))) = Ok (concat (map snd ((as @ [b]) @ bs)))"
    using Cons.prems by (intro Cons.IH) (simp_all add: b)
  then have later: "zlib_blocks cs fork (length gap + 4) [Suc (length as)..<Suc (length as) + length bs]
      (concat (map snd as) @ p) = Ok (concat (map snd (as @ b # bs)))"
    by (simp add: b)
  have upt: "[length as..<length as + length (b # bs)] = length as # [Suc (length as)..<Suc (length as) + length bs]"
    by (simp add: upt_conv_Cons del: upt_Suc)
  have entry: "Option.bind (checked_add_usize (length gap + 4) 4) (\<lambda>b.
      Option.bind (checked_mul_usize (length as) 8) (\<lambda>m. checked_add_usize b m)) = Some (length pre)"
    using bound(2) by (simp add: checked_add_usize_def checked_mul_usize_def lpre)
  show ?case
    unfolding upt zlib_blocks.simps entry
    using e1 e2 block inf later bound(1)
    by (simp add: wv checked_add_usize_def del: concat_append map_append)
qed simp

lemma decode_zlib_fork:
  assumes "\<forall>(packed, plain) \<in> set ps. zlib_read_to_end cs packed = Some plain"
    and "length gap + 8 + 8 * length ps + length (concat (map fst ps)) < 2 ^ 32"
  shows "decode_zlib_resource_fork cs (zlib_fork gap (map fst ps) tail) sz = Ok (concat (map snd ps))"
proof -
  let ?fork = "zlib_fork gap (map fst ps) tail"
  have gap: "unat (word_of_nat (length gap) :: u32) = length gap" "unat (word_of_nat (length ps) :: u32) = length ps"
    using assms(2) by (simp_all add: unat_of_nat)
  have "decmpfs_be_u32 ?fork 0 = Ok (word_of_nat (length gap))"
    by (simp add: decmpfs_be_u32_def decmpfs_slice_def checked_add_usize_def get_range_def zlib_fork_def from_to_le_bytes)
  moreover have "decmpfs_le_u32 ?fork (length gap + 4) = Ok (word_of_nat (length ps))"
    using decmpfs_le_u32_at [of "rev (to_le_bytes (word_of_nat (length gap) :: u32)) @ gap" "word_of_nat (length ps)"
        "block_entries (4 + 8 * length ps) (map fst ps) @ concat (map fst ps) @ tail"] assms(2)
    by (simp add: zlib_fork_def add.commute)
  ultimately show ?thesis
    using zlib_blocks_fork [of ?fork gap "[]" ps tail cs] assms gap
    by (simp add: decode_zlib_resource_fork_def checked_add_usize_def)
qed

section \<open>Compressed files\<close>

definition decmpfs_attr :: "u32 \<Rightarrow> nat \<Rightarrow> bytes \<Rightarrow> bytes" where
  "decmpfs_attr ty n payload =
     to_le_bytes DECMPFS_MAGIC @ to_le_bytes ty @ to_le_bytes (word_of_nat n :: u64) @ payload"

text \<open>
  The decmpfs attribute and the resource fork of a file with the given contents, for every
  supported type: 1 and 9 plain, 3 zlib, 7 LZVN, 11 LZFSE in the attribute, with the one-byte markers
  of data that does not compress; 4 zlib, 8 LZVN, 10 plain, 12 LZFSE in the resource fork. What lies
  in the fork of an inline type does not matter, nor what follows the 16 bytes of a fork type.
\<close>

inductive decmpfs_file :: "Codecs \<Rightarrow> bytes \<Rightarrow> bytes option \<Rightarrow> bytes \<Rightarrow> bool" for cs :: Codecs where
  plain_1: "decmpfs_file cs (decmpfs_attr 1 (length plain) plain) fork plain"
| plain_9: "decmpfs_file cs (decmpfs_attr 9 (length plain) (marker # plain)) fork plain"
| zlib_raw: "decmpfs_file cs (decmpfs_attr 3 (length plain) (0xFF # plain)) fork plain"
| zlib: "zlib_read_to_end cs packed = Some plain \<Longrightarrow> take 1 packed \<noteq> [0xFF] \<Longrightarrow>
    decmpfs_file cs (decmpfs_attr 3 (length plain) packed) fork plain"
| lzvn_raw: "decmpfs_file cs (decmpfs_attr 7 (length plain) (0x06 # plain)) fork plain"
| lzvn: "lzvn_codec cs packed (length plain) = Some plain \<Longrightarrow> take 1 packed \<noteq> [0x06] \<Longrightarrow>
    decmpfs_file cs (decmpfs_attr 7 (length plain) packed) fork plain"
| lzfse: "lzfse_codec cs packed = Some plain \<Longrightarrow> decmpfs_file cs (decmpfs_attr 11 (length plain) packed) fork plain"
| zlib_in_fork: "list_all (\<lambda>(packed, plain). zlib_read_to_end cs packed = Some plain) ps \<Longrightarrow>
    length gap + 8 + 8 * length ps + length (concat (map fst ps)) < 2 ^ 32 \<Longrightarrow>
    decmpfs_file cs (decmpfs_attr 4 (length (concat (map snd ps))) rest)
      (Some (zlib_fork gap (map fst ps) tail)) (concat (map snd ps))"
| chunks_in_fork: "classify ty = Some \<lparr>algorithm = a, storage = ResourceFork\<rparr> \<Longrightarrow> a \<in> {Uncompressed, Lzvn, Lzfse} \<Longrightarrow> chunks_decode cs a ps \<Longrightarrow>
    fork_header_len pad (map fst ps) + length (concat (map fst ps)) < 2 ^ 32 \<Longrightarrow>
    decmpfs_file cs (decmpfs_attr ty (length (concat (map snd ps))) rest)
      (Some (chunked_fork pad (map fst ps))) (concat (map snd ps))"

lemma decmpfs_attr_fields:
  assumes "n < 2 ^ 64"
  shows "uncompressed_size (decmpfs_attr ty n payload) = Ok (word_of_nat n)"
    and "decmpfs_le_u32 (decmpfs_attr ty n payload) COMPRESSION_TYPE_OFFSET = Ok ty"
    and "get_range (decmpfs_attr ty n payload) HEADER_LEN (length (decmpfs_attr ty n payload)) = Some payload"
    and "unat (word_of_nat n :: u64) = n"
  using assms
  by (simp_all add: decmpfs_attr_def uncompressed_size_def HEADER_LEN_def decmpfs_le_u32_def decmpfs_le_u64_def
      decmpfs_slice_def checked_add_usize_def get_range_def from_to_le_bytes COMPRESSION_TYPE_OFFSET_def
      UNCOMPRESSED_SIZE_OFFSET_def unat_of_nat)

lemma decompress_inline:
  assumes "classify ty = Some \<lparr>algorithm = a, storage = Inline\<rparr>" and "a \<noteq> LzBitmap" and "length plain < 2 ^ 64"
    and "decode_inline cs a payload (length plain) ty = Ok plain"
  shows "decompress_decmpfs cs (decmpfs_attr ty (length plain) payload) fork = Ok plain"
  using assms by (simp add: decompress_decmpfs_def decmpfs_attr_fields [OF assms(3)])

lemma decompress_fork:
  assumes "classify ty = Some \<lparr>algorithm = a, storage = ResourceFork\<rparr>" and "a \<noteq> LzBitmap" and "length plain < 2 ^ 64"
    and "decode_resource_fork cs a fork (length plain) = Ok plain"
  shows "decompress_decmpfs cs (decmpfs_attr ty (length plain) rest) (Some fork) = Ok plain"
  using assms by (simp add: decompress_decmpfs_def decmpfs_attr_fields [OF assms(3)])

lemma decompress_file:
  assumes "decmpfs_file cs header fork plain" and "length plain < 2 ^ 64"
  shows "decompress_decmpfs cs header fork = Ok plain"
  using assms
proof (cases rule: decmpfs_file.cases)
  case (zlib packed)
  then have "decode_inline cs Zlib packed (length plain) 3 = Ok plain"
    by (cases packed) (simp_all add: decode_inline_def inflate_def)
  with zlib assms(2) show ?thesis by (auto intro!: decompress_inline simp: classify_def)
next
  case (lzvn packed)
  then have "decode_inline cs Lzvn packed (length plain) 7 = Ok plain"
    by (cases packed) (simp_all add: decode_inline_def lzvn_decode_def)
  with lzvn assms(2) show ?thesis by (auto intro!: decompress_inline simp: classify_def)
next
  case (zlib_in_fork ps gap rest tail)
  then show ?thesis
    using assms(2) decode_zlib_fork [of ps cs gap tail]
    by (auto intro!: decompress_fork simp: classify_def decode_resource_fork_def list_all_iff)
next
  case (chunks_in_fork ty a ps pad rest)
  then show ?thesis
    using assms(2) decode_chunked_fork [of cs a ps pad]
    by (auto intro!: decompress_fork [of ty a] simp: decode_resource_fork_def)
qed (auto intro!: decompress_inline simp: classify_def decode_inline_def lzfse_decode_def)

section \<open>Properties\<close>

text \<open>
  C18 (round trip): a compressed file laid out as the format defines decodes to its contents, for each of
  the nine supported types, whatever the number of blocks, chunks and unused slots, provided the codec
  gives back the plain bytes of every stored piece.
\<close>

theorem decmpfs_roundtrip:
  assumes "decmpfs_file cs header fork plain" and "length plain < 2 ^ 64"
  shows "decompress_decmpfs cs header fork = Ok plain"
  using assms by (rule decompress_file)

theorem decmpfs_roundtrip_witness:
  "decompress_decmpfs tag_codecs (decmpfs_attr 8 (CHUNK_SIZE + 2) [])
     (Some (chunked_fork 2 [6 # replicate CHUNK_SIZE 7, [6, 1, 2]])) = Ok (replicate CHUNK_SIZE 7 @ [1, 2]) \<and>
   decompress_decmpfs tag_codecs (decmpfs_attr 4 3 []) (Some (zlib_fork [0, 0, 0, 0] [[1], [2, 3]] [])) = Ok [1, 2, 3]"
proof -
  let ?ps = "[(6 # replicate CHUNK_SIZE 7, replicate CHUNK_SIZE 7), ([6, 1, 2], [1, 2])] :: (bytes \<times> bytes) list"
  have "chunks_decode tag_codecs Lzvn ?ps"
    by (simp add: decode_chunk_def lzvn_decode_def tag_codecs_def CHUNK_SIZE_def)
  then have c: "decmpfs_file tag_codecs (decmpfs_attr 8 (length (concat (map snd ?ps))) [])
      (Some (chunked_fork 2 (map fst ?ps))) (concat (map snd ?ps))"
    by (intro chunks_in_fork [of _ Lzvn]) (simp_all add: classify_def fork_header_len_def CHUNK_SIZE_def)
  let ?qs = "[([1], [1]), ([2, 3], [2, 3])] :: (bytes \<times> bytes) list"
  have z: "decmpfs_file tag_codecs (decmpfs_attr 4 (length (concat (map snd ?qs))) [])
      (Some (zlib_fork [0, 0, 0, 0] (map fst ?qs) [])) (concat (map snd ?qs))"
    by (intro zlib_in_fork) (simp_all add: tag_codecs_def)
  show ?thesis using decmpfs_roundtrip [OF c] decmpfs_roundtrip [OF z] by (simp add: CHUNK_SIZE_def flip: numeral_3_eq_3)
qed

end
