(* ===== verification/Snapshot.thy ===== *)
theory Snapshot
  imports Dir
begin

text \<open>
  \<^verbatim>\<open>src/src/snapshot.rs\<close>: the snapshot-metadata tree, whose root is a physical block and whose other
  nodes are virtual oids, the listing and naming of snapshots, and the mount of a snapshot on the
  live volume's object map.
\<close>

definition OBJECT_SUBTYPE_SNAPMETATREE :: u32 where "OBJECT_SUBTYPE_SNAPMETATREE = 0x10"
definition MAX_SNAP_TREE_DEPTH :: usize where "MAX_SNAP_TREE_DEPTH = 64"
definition MAX_SNAP_NAME_LEN :: usize where "MAX_SNAP_NAME_LEN = 4096"

record Snapshot =
  sn_xid :: u64
  sn_name :: rstring
  sn_create_time :: u64
  sn_change_time :: u64
  sn_sblock_oid :: u64
  sn_extentref_tree_oid :: u64
  sn_inum :: u64
  sn_flags :: u32

text \<open>Field offsets.\<close>

definition OFF_SNAP_NAME_KEY_LEN :: usize where [simp]: "OFF_SNAP_NAME_KEY_LEN = 8"
definition OFF_SNAP_NAME_KEY_NAME :: usize where [simp]: "OFF_SNAP_NAME_KEY_NAME = 10"
definition OFF_SNAP_EXTENTREF_TREE_OID :: usize where [simp]: "OFF_SNAP_EXTENTREF_TREE_OID = 0"
definition OFF_SNAP_SBLOCK_OID :: usize where [simp]: "OFF_SNAP_SBLOCK_OID = 8"
definition OFF_SNAP_CREATE_TIME :: usize where [simp]: "OFF_SNAP_CREATE_TIME = 16"
definition OFF_SNAP_CHANGE_TIME :: usize where [simp]: "OFF_SNAP_CHANGE_TIME = 24"
definition OFF_SNAP_INUM :: usize where [simp]: "OFF_SNAP_INUM = 32"
definition OFF_SNAP_FLAGS :: usize where [simp]: "OFF_SNAP_FLAGS = 44"
definition OFF_SNAP_NAME_LEN :: usize where [simp]: "OFF_SNAP_NAME_LEN = 48"
definition OFF_SNAP_NAME :: usize where [simp]: "OFF_SNAP_NAME = 50"

definition parse_snap_metadata :: "u64 \<Rightarrow> bytes \<Rightarrow> Snapshot" where
  "parse_snap_metadata xid value =
     (let name_len = min (unat (le_u16 value OFF_SNAP_NAME_LEN)) MAX_SNAP_NAME_LEN in
      \<lparr>sn_xid = xid,
       sn_name = (case get_range value OFF_SNAP_NAME (OFF_SNAP_NAME + name_len) of None \<Rightarrow> [] | Some b \<Rightarrow> decode_cstr b),
       sn_create_time = le_u64 value OFF_SNAP_CREATE_TIME, sn_change_time = le_u64 value OFF_SNAP_CHANGE_TIME, sn_sblock_oid = le_u64 value OFF_SNAP_SBLOCK_OID,
       sn_extentref_tree_oid = le_u64 value OFF_SNAP_EXTENTREF_TREE_OID, sn_inum = le_u64 value OFF_SNAP_INUM, sn_flags = le_u32 value OFF_SNAP_FLAGS\<rparr>)"

definition decode_snap_name_key :: "bytes \<Rightarrow> rstring option" where
  "decode_snap_name_key key =
     (let name_len = min (unat (le_u16 key OFF_SNAP_NAME_KEY_LEN)) MAX_SNAP_NAME_LEN in
      if name_len = 0 then None else map_option decode_cstr (get_range key OFF_SNAP_NAME_KEY_NAME (OFF_SNAP_NAME_KEY_NAME + name_len)))"

text \<open>The address, read and checksum gate at the head of \<^verbatim>\<open>descend_snap\<close>.\<close>

definition read_snap_node :: "device \<Rightarrow> ObjectMap \<Rightarrow> u64 \<Rightarrow> usize \<Rightarrow> bool \<Rightarrow> u64 \<Rightarrow> bytes res" where
  "read_snap_node dev omap xid block_size at_root node_oid =
     and_then (if at_root then Ok node_oid
               else and_then (resolve dev omap node_oid xid block_size) (\<lambda>entry. Ok (oe_paddr entry))) (\<lambda>paddr.
       and_then (read_at dev (saturating_mul paddr (word_of_nat block_size)) block_size) (\<lambda>buf.
         let stored = fletcher64_stored buf; computed = fletcher64_checksum buf in
         if stored \<noteq> computed
         then Err (ChecksumMismatch (case ObjPhys_parse buf of None \<Rightarrow> paddr | Some h \<Rightarrow> o_oid h) stored computed)
         else Ok buf))"

function descend_snap ::
  "device \<Rightarrow> ObjectMap \<Rightarrow> u64 \<Rightarrow> usize \<Rightarrow> (bytes \<Rightarrow> bytes \<Rightarrow> 's \<Rightarrow> 's) \<Rightarrow>
     bool \<Rightarrow> nat \<Rightarrow> u64 \<Rightarrow> u64 set \<Rightarrow> 's \<Rightarrow> ('s \<times> u64 set) res"
and descend_snap_children ::
  "device \<Rightarrow> ObjectMap \<Rightarrow> u64 \<Rightarrow> usize \<Rightarrow> (bytes \<Rightarrow> bytes \<Rightarrow> 's \<Rightarrow> 's) \<Rightarrow>
     nat \<Rightarrow> u64 list \<Rightarrow> u64 set \<Rightarrow> 's \<Rightarrow> ('s \<times> u64 set) res" where
  "descend_snap dev omap xid block_size visit at_root depth node_oid visited s =
     (if depth \<ge> MAX_SNAP_TREE_DEPTH then Err (CycleGuard MAX_SNAP_TREE_DEPTH)
      else if node_oid \<in> visited then Err (CycleGuard MAX_SNAP_TREE_DEPTH)
      else and_then (read_snap_node dev omap xid block_size at_root node_oid) (\<lambda>buf.
        case parse_node_header buf of None \<Rightarrow> Ok (s, insert node_oid visited)
        | Some hdr \<Rightarrow>
            if is_leaf hdr
            then Ok (visit_all visit (node_entries buf FsTree) s, insert node_oid visited)
            else descend_snap_children dev omap xid block_size visit (depth + 1)
                   (map (\<lambda>e. le_u64 (snd e) 0) (node_entries buf FsTree)) (insert node_oid visited) s))"
| "descend_snap_children dev omap xid block_size visit depth [] visited s = Ok (s, visited)"
| "descend_snap_children dev omap xid block_size visit depth (child # cs) visited s =
     and_then (descend_snap dev omap xid block_size visit False depth child visited s)
       (\<lambda>(s', visited'). descend_snap_children dev omap xid block_size visit depth cs visited' s')"
  by pat_completeness auto
termination
  by (relation "measures
        [case_sum (\<lambda>(dev, om, x, bs, v, r, d, a, V, s). 64 - d) (\<lambda>(dev, om, x, bs, v, d, cs, V, s). 64 - d),
         case_sum (\<lambda>_. 0) (\<lambda>(dev, om, x, bs, v, d, cs, V, s). length cs)]")
    (auto simp: MAX_SNAP_TREE_DEPTH_def)

declare descend_snap.simps [simp del]

definition for_each_snap_record ::
  "device \<Rightarrow> ApfsVolume \<Rightarrow> usize \<Rightarrow> (bytes \<Rightarrow> bytes \<Rightarrow> 's \<Rightarrow> 's) \<Rightarrow> 's \<Rightarrow> 's res" where
  "for_each_snap_record dev volume block_size visit s =
     and_then (read_at dev (saturating_mul (vol_omap_oid volume) (word_of_nat block_size)) block_size) (\<lambda>buf.
       and_then (ObjectMap_parse buf) (\<lambda>omap.
         and_then (descend_snap dev omap (vol_xid volume) block_size visit True 0
                     (vol_snap_meta_tree_oid volume) {} s)
           (\<lambda>(s', visited). Ok s')))"

definition snapshot_visit :: "bytes \<Rightarrow> bytes \<Rightarrow> Snapshot list \<Rightarrow> Snapshot list" where
  "snapshot_visit key value out =
     (case decode_jkey (le_u64 key 0) of (xid, ty) \<Rightarrow>
        if ty = Some RT_SnapMetadata then out @ [parse_snap_metadata xid value] else out)"

definition list_snapshots :: "device \<Rightarrow> ApfsVolume \<Rightarrow> usize \<Rightarrow> Snapshot list res" where
  "list_snapshots dev volume block_size =
     and_then (for_each_snap_record dev volume block_size snapshot_visit []) (\<lambda>out. Ok (sort_key sn_xid out))"

definition snap_name_visit :: "rstring \<Rightarrow> bytes \<Rightarrow> bytes \<Rightarrow> u64 option \<Rightarrow> u64 option" where
  "snap_name_visit name key value found =
     (if found \<noteq> None then found
      else if snd (decode_jkey (le_u64 key 0)) \<noteq> Some RT_SnapName then found
      else if decode_snap_name_key key = Some name then Some (le_u64 value 0) else found)"

definition resolve_snapshot_xid :: "device \<Rightarrow> ApfsVolume \<Rightarrow> rstring \<Rightarrow> usize \<Rightarrow> u64 option res" where
  "resolve_snapshot_xid dev volume name block_size =
     for_each_snap_record dev volume block_size (snap_name_visit name) None"

definition mount_snapshot :: "device \<Rightarrow> ApfsVolume \<Rightarrow> Snapshot \<Rightarrow> usize \<Rightarrow> ApfsVolume res" where
  "mount_snapshot dev live_volume snapshot block_size =
     and_then (read_at dev (saturating_mul (sn_sblock_oid snapshot) (word_of_nat block_size)) block_size) (\<lambda>buf.
       and_then (ApfsVolume_parse buf) (\<lambda>v. Ok (with_omap_oid v (vol_omap_oid live_volume))))"

definition snap_meta_tree_subtype :: u32 where
  "snap_meta_tree_subtype = OBJECT_SUBTYPE_SNAPMETATREE"

section \<open>The walk below the root\<close>

lemma read_snap_node_virtual:
  "read_snap_node dev omap xid bs False oid = read_virtual_node dev omap xid bs oid"
  by (simp add: read_snap_node_def read_virtual_node_def and_then_assoc)

interpretation snap: tree_walk "virtual_node dev omap xid bs" FsTree "\<lambda>_ _. True" visit
  "descend_snap dev omap xid bs visit False" "descend_snap_children dev omap xid bs visit"
  for dev omap xid bs visit
proof
  show "descend_snap dev omap xid bs visit False d a V s = Err (CycleGuard 64)" if "64 \<le> d \<or> a \<in> V" for d a V s
    using that by (auto simp: descend_snap.simps MAX_SNAP_TREE_DEPTH_def)
next
  fix d :: nat and a :: u64 and V :: "u64 set" and s
  assume "d < 64" and "a \<notin> V"
  then show "descend_snap dev omap xid bs visit False d a V s =
    and_then (virtual_node dev omap xid bs a) (\<lambda>node. case node of None \<Rightarrow> Ok (s, insert a V)
      | Some buf \<Rightarrow> (case parse_node_header buf of None \<Rightarrow> Ok (s, insert a V)
        | Some hdr \<Rightarrow> if is_leaf hdr then Ok (visit_all visit (node_entries buf FsTree) s, insert a V)
            else descend_snap_children dev omap xid bs visit (Suc d)
                   (kept (\<lambda>_ _. True) (branches (node_entries buf FsTree))) (insert a V) s))"
    by (subst descend_snap.simps, unfold kept_branches Suc_eq_plus1)
      (simp add: MAX_SNAP_TREE_DEPTH_def virtual_node_def and_then_assoc read_snap_node_virtual)
qed simp_all

text \<open>The root, read by block number, leads into that walk.\<close>

lemma descend_snap_root:
  "descend_snap dev omap xid bs visit True 0 r {} s =
     and_then (read_snap_node dev omap xid bs True r) (\<lambda>buf.
       case parse_node_header buf of None \<Rightarrow> Ok (s, {r})
       | Some hdr \<Rightarrow> if is_leaf hdr then Ok (visit_all visit (node_entries buf FsTree) s, {r})
           else descend_snap_children dev omap xid bs visit 1
                  (map (\<lambda>e. le_u64 (snd e) 0) (node_entries buf FsTree)) {r} s)"
  by (subst descend_snap.simps, unfold add_0) (simp add: MAX_SNAP_TREE_DEPTH_def)

lemma for_each_snap_record_invariant:
  assumes "for_each_snap_record dev volume bs visit s = Ok s'" and "P s"
    and visit: "\<And>k v s. P s \<Longrightarrow> P (visit k v s)"
  shows "P s'"
proof -
  have "P (visit_all visit es s)" for es
    using assms(2) visit by (induction es arbitrary: s) (auto simp: visit_all_def)
  moreover have "P s'" if "descend_snap_children dev omap xid bs visit 1 cs V s = Ok (s', V')" for omap xid cs V V'
    using visit assms(2) that by (rule snap.walk_invariant(2))
  ultimately show ?thesis
    using assms(1,2)
    by (auto simp: for_each_snap_record_def descend_snap_root res_simps split: option.split_asm if_split_asm)
qed

text \<open>On any source the snapshots come sorted, with decoded names and 60-bit transaction ids.\<close>

definition snapshot_ok :: "Snapshot \<Rightarrow> bool" where
  "snapshot_ok s \<longleftrightarrow> name_ok (sn_name s) \<and> unat (sn_xid s) < 2 ^ 60"

lemma list_snapshots_sorted:
  assumes "list_snapshots dev volume bs = Ok ss"
  shows "sorted (map sn_xid ss) \<and> list_all snapshot_ok ss"
proof -
  have name: "name_ok (sn_name (parse_snap_metadata xid v))" for xid v
    by (simp add: parse_snap_metadata_def Let_def name_ok_def [of "[]"] split: option.split)
  obtain out where out: "for_each_snap_record dev volume bs snapshot_visit [] = Ok out"
    and ss: "ss = sort_key sn_xid out"
    using assms by (auto simp: list_snapshots_def res_simps)
  have "list_all snapshot_ok out"
    using out
  proof (rule for_each_snap_record_invariant)
    show "list_all snapshot_ok (snapshot_visit k v s)" if "list_all snapshot_ok s" for k v s
      using that name encode_decode_jkey [of "le_u64 k 0"]
      by (auto simp: snapshot_visit_def snapshot_ok_def parse_snap_metadata_def [THEN arg_cong [of _ _ sn_xid]] split: prod.split)
  qed simp
  then show ?thesis by (simp add: ss list_all_iff)
qed

section \<open>A stored snapshot tree\<close>

text \<open>
  The root block, and below it a tree of virtual nodes. The block number of the root enters the
  same visited set as the virtual oids, so the walk needs it to differ from all of them.
\<close>

definition snap_stored :: "device \<Rightarrow> ApfsVolume \<Rightarrow> usize \<Rightarrow> ptree \<Rightarrow> bool" where
  "snap_stored dev volume bs t \<longleftrightarrow>
     (\<exists>buf omap. read_at dev (saturating_mul (vol_omap_oid volume) (word_of_nat bs)) bs = Ok buf \<and>
        ObjectMap_parse buf = Ok omap \<and>
        stored (\<lambda>a. if a = root t then and_then (read_snap_node dev omap (vol_xid volume) bs True a) (\<lambda>b. Ok (Some b))
                    else virtual_node dev omap (vol_xid volume) bs a) FsTree t) \<and>
     root t = vol_snap_meta_tree_oid volume \<and> height t \<le> 64 \<and> distinct (addrs t)"

lemma descend_snap_stored:
  assumes "stored (\<lambda>a. if a = root t then and_then (read_snap_node dev omap xid bs True a) (\<lambda>b. Ok (Some b))
                    else virtual_node dev omap xid bs a) FsTree t"
    and "height t \<le> 64" and "distinct (addrs t)"
  shows "\<exists>V. descend_snap dev omap xid bs visit True 0 (root t) {} s = Ok (visit_all visit (all_entries t) s, V)"
proof (cases t)
  case (PLeaf a es)
  then show ?thesis
    using assms(1) by (auto simp: descend_snap_root res_simps)
next
  case (PNode a cs)
  obtain buf hdr where node: "read_snap_node dev omap xid bs True a = Ok buf" "parse_node_header buf = Some hdr"
    "\<not> is_leaf hdr" "branches (node_entries buf FsTree) = map (\<lambda>(k, t). (k, root t)) cs"
    using assms(1) by (auto simp: PNode res_simps)
  let ?f = "\<lambda>a'. if a' = a then and_then (read_snap_node dev omap xid bs True a') (\<lambda>b. Ok (Some b))
    else virtual_node dev omap xid bs a'"
  have "stored_all ?f FsTree cs" using assms(1) by (simp add: PNode)
  moreover have "?f a' = virtual_node dev omap xid bs a'" if "a' \<in> set (addrs_of cs)" for a'
    using that assms(3) by (auto simp: PNode)
  ultimately have below: "stored_all (virtual_node dev omap xid bs) FsTree cs"
    using stored_cong(2) [of cs ?f "virtual_node dev omap xid bs" FsTree] by blast
  have "descend_snap_children dev omap xid bs visit 1
      (kept (\<lambda>_ _. True) (map (\<lambda>(k, t). (k, root t)) cs)) {a} s = Ok (visit_all visit (all_entries_of cs) s, {a} \<union> set (met_of (\<lambda>_ _. True) cs))"
    using snap.walks_stored [OF below, of 1 "{a}" visit s] assms(2,3) by (auto simp: PNode)
  then show ?thesis
    using node
    by (simp add: PNode descend_snap_root flip: kept_branches One_nat_def)
qed

lemma for_each_snap_record_stored:
  assumes "snap_stored dev volume bs t"
  shows "for_each_snap_record dev volume bs visit s = Ok (visit_all visit (all_entries t) s)"
proof -
  obtain buf omap where *: "read_at dev (saturating_mul (vol_omap_oid volume) (word_of_nat bs)) bs = Ok buf"
    "ObjectMap_parse buf = Ok omap"
    "stored (\<lambda>a. if a = root t then and_then (read_snap_node dev omap (vol_xid volume) bs True a) (\<lambda>b. Ok (Some b))
       else virtual_node dev omap (vol_xid volume) bs a) FsTree t"
    "root t = vol_snap_meta_tree_oid volume" "height t \<le> 64" "distinct (addrs t)"
    using assms by (auto simp: snap_stored_def)
  from descend_snap_stored [OF *(3,5,6), of visit s] show ?thesis
    using *(1,2,4) by (auto simp: for_each_snap_record_def)
qed

section \<open>Snapshots over the list of all records\<close>

definition spec_snapshots :: "ptree \<Rightarrow> Snapshot list" where
  "spec_snapshots t = sort_key sn_xid (map (\<lambda>(k, v). parse_snap_metadata (key_oid k) v)
     (filter (\<lambda>e. key_type (fst e) = Some RT_SnapMetadata) (all_entries t)))"

definition spec_snap_xid :: "ptree \<Rightarrow> rstring \<Rightarrow> u64 option" where
  "spec_snap_xid t name = map_option (\<lambda>e. le_u64 (snd e) 0) (List.find (\<lambda>e. key_type (fst e) = Some RT_SnapName \<and>
     decode_snap_name_key (fst e) = Some name) (all_entries t))"

lemma list_snapshots_stored:
  assumes "snap_stored dev volume bs t"
  shows "list_snapshots dev volume bs = Ok (spec_snapshots t)"
proof -
  have "visit_all snapshot_visit es out = out @ map (\<lambda>(k, v). parse_snap_metadata (key_oid k) v)
      (filter (\<lambda>e. key_type (fst e) = Some RT_SnapMetadata) es)" for es out
    by (induction es arbitrary: out)
      (auto simp: snapshot_visit_def key_oid_def key_type_def split: prod.splits)
  then show ?thesis
    by (simp add: list_snapshots_def for_each_snap_record_stored [OF assms] spec_snapshots_def)
qed

lemma resolve_snapshot_xid_stored:
  assumes "snap_stored dev volume bs t"
  shows "resolve_snapshot_xid dev volume name bs = Ok (spec_snap_xid t name)"
proof -
  have keep: "visit_all (snap_name_visit name) es (Some x) = Some x" for es x
    by (induction es) (auto simp: snap_name_visit_def)
  have "visit_all (snap_name_visit name) es None = map_option (\<lambda>e. le_u64 (snd e) 0)
      (List.find (\<lambda>e. key_type (fst e) = Some RT_SnapName \<and> decode_snap_name_key (fst e) = Some name) es)" for es
  proof (induction es)
    case (Cons e es)
    obtain k v where e: "e = (k, v)" by (cases e)
    show ?case
    proof (cases "key_type k = Some RT_SnapName \<and> decode_snap_name_key k = Some name")
      case True
      then have "snap_name_visit name k v None = Some (le_u64 v 0)" by (simp add: snap_name_visit_def key_type_def)
      then show ?thesis using True keep by (simp add: e)
    next
      case False
      then have "snap_name_visit name k v None = None" by (auto simp: snap_name_visit_def key_type_def)
      then show ?thesis using False Cons by (auto simp: e)
    qed
  qed simp
  then show ?thesis
    by (simp add: resolve_snapshot_xid_def for_each_snap_record_stored [OF assms] spec_snap_xid_def)
qed

section \<open>The visited set mixes block numbers and oids\<close>

text \<open>
  A child whose virtual oid happens to be the block number of the root is reported as a cycle,
  whatever it holds.
\<close>

lemma snap_root_collision:
  assumes "read_snap_node dev omap xid bs True r = Ok buf" and "parse_node_header buf = Some hdr"
    and "\<not> is_leaf hdr" and "node_entries buf FsTree = (k, v) # es" and "le_u64 v 0 = r"
  shows "descend_snap dev omap xid bs visit True 0 r {} s = Err (CycleGuard 64)"
  using assms by (simp add: descend_snap_root snap.walk_guard)

end
