(* ===== verification/Error_Text.thy ===== *)
theory Error_Text
  imports Prelude
begin

text \<open>
  The \<^verbatim>\<open>Display\<close> texts of \<^verbatim>\<open>ApfsError\<close> (the \<^verbatim>\<open>#[error]\<close> attributes of \<^verbatim>\<open>src/src/lib.rs\<close>) with what they
  use of Rust's formatting: decimal, \<^verbatim>\<open>{:#x}\<close> and its zero-padded forms. An I/O error
  carries its own text. The lemmas read the fields back out of a text: every error shows its values.
\<close>

section \<open>Numbers\<close>

definition digit :: "nat \<Rightarrow> char" where
  "digit n = ''0123456789abcdef'' ! n"

fun radix :: "nat \<Rightarrow> nat \<Rightarrow> string" where
  "radix b n = (if n < b \<or> b < 2 then [digit n] else radix b (n div b) @ [digit (n mod b)])"

declare radix.simps [simp del]

definition dec :: "nat \<Rightarrow> string" where "dec n = radix 10 n"
definition hex :: "nat \<Rightarrow> string" where "hex n = ''0x'' @ radix 16 n"

text \<open>\<^verbatim>\<open>{:#0wx}\<close>: the width counts the prefix, the zeros come after it.\<close>

definition zero_padded :: "nat \<Rightarrow> string \<Rightarrow> string" where
  "zero_padded w s = replicate (w - length s) (CHR ''0'') @ s"

definition hex_padded :: "nat \<Rightarrow> nat \<Rightarrow> string" where
  "hex_padded w n = ''0x'' @ zero_padded (w - 2) (radix 16 n)"

section \<open>Error texts\<close>

fun error_text :: "ApfsError \<Rightarrow> string" where
  "error_text (Io k) = ''i/o error: '' @ io_text k"
| "error_text (NoValidSuperblock checked last_magic) =
     ''no valid NXSB superblock found (checked '' @ dec checked @ '' checkpoint slots; last magic seen: '' @
     hex_padded 10 (unat last_magic) @ '')''"
| "error_text (ChecksumMismatch block stored computed) =
     ''object checksum mismatch at block '' @ dec (unat block) @ '': stored '' @ hex_padded 18 (unat stored) @
     '', computed '' @ hex_padded 18 (unat computed)"
| "error_text (OmapUnresolved oid xid) =
     ''omap could not resolve virtual oid '' @ hex (unat oid) @ '' at xid '' @ dec (unat xid)"
| "error_text (UnexpectedObjectType structure expected found) =
     ''unexpected object type in '' @ structure @ '': expected '' @ hex_padded 6 (unat expected) @
     '', found '' @ hex_padded 10 (unat found)"
| "error_text UnsupportedFusion =
     ''unsupported Fusion container (tier-2 device present); Fusion addressing not yet implemented''"
| "error_text (UnsupportedSpacemanCab count) =
     ''unsupported space-manager CAB tier (sm_cab_count = '' @ dec (unat count) @
     ''); only inline CIB layout is implemented''"
| "error_text (FieldOutOfRange structure field val cap) =
     ''structural field out of range in '' @ structure @ '': '' @ field @ '' = '' @ dec (unat val) @
     '' (cap '' @ dec (unat cap) @ '')''"
| "error_text (CycleGuard cap) =
     ''tree walk exceeded depth cap '' @ dec cap @ '' (possible cyclic object graph)''"
| "error_text (CheckpointTreeUnsupported area) =
     ''checkpoint '' @ area @ '' area is tree-backed; B-tree resolution not yet implemented''"
| "error_text (SnapshotNotFound xid) =
     ''no snapshot with transaction id '' @ dec (unat xid) @ '' (and it is not the live volume'' @ CHR 0x27 # ''s xid)''"
| "error_text (Decmpfs reason) = ''decmpfs decode failure: '' @ reason"

section \<open>Reading numbers back\<close>

definition digit_val :: "char \<Rightarrow> nat" where
  "digit_val c = (if of_char c < (58 :: nat) then of_char c - 48 else of_char c - 87)"

definition radix_val :: "nat \<Rightarrow> string \<Rightarrow> nat" where
  "radix_val b s = foldl (\<lambda>acc c. acc * b + digit_val c) 0 s"

lemma nat_below_16:
  "n < 16 \<Longrightarrow> n \<in> {0, 1, 2, 3, 4, 5, 6, 7, 8, 9, 10, 11, 12, 13, 14, 15 :: nat}"
  by (simp add: eval_nat_numeral) arith

lemma digit_val_digit: "n < 16 \<Longrightarrow> digit_val (digit n) = n"
  using nat_below_16 [of n] by (auto simp: digit_def digit_val_def)

lemma digit_in: "n < 10 \<Longrightarrow> digit n \<in> set ''0123456789''" "n < 16 \<Longrightarrow> digit n \<in> set ''0123456789abcdef''"
  using nat_below_16 [of n] by (auto simp: digit_def)

lemma radix_val_radix: "2 \<le> b \<Longrightarrow> b \<le> 16 \<Longrightarrow> radix_val b (radix b n) = n"
proof (induction b n rule: radix.induct)
  case (1 b n)
  show ?case
  proof (cases "n < b")
    case True
    then show ?thesis using 1 by (subst radix.simps) (simp add: radix_val_def digit_val_digit)
  next
    case False
    have "n mod b < 16" using 1 by (intro less_le_trans [OF mod_less_divisor]) simp_all
    then show ?thesis
      using 1 False by (subst radix.simps) (simp add: radix_val_def digit_val_digit)
  qed
qed

lemma radix_inject: "2 \<le> b \<Longrightarrow> b \<le> 16 \<Longrightarrow> radix b m = radix b n \<Longrightarrow> m = n"
  by (metis radix_val_radix)

lemma radix_val_zeros: "radix_val b (replicate k (CHR ''0'') @ s) = radix_val b s"
proof -
  have "foldl (\<lambda>acc c. acc * b + digit_val c) 0 (replicate k (CHR ''0'')) = 0"
    by (induction k) (simp_all add: digit_val_def)
  then show ?thesis by (simp add: radix_val_def)
qed

lemma dec_inject [simp]: "dec m = dec n \<longleftrightarrow> m = n"
  unfolding dec_def using radix_inject [of 10 m n] by force

lemma hex_inject [simp]: "hex m = hex n \<longleftrightarrow> m = n"
  unfolding hex_def using radix_inject [of 16 m n] by force

lemma hex_padded_inject [simp]: "hex_padded w m = hex_padded w n \<longleftrightarrow> m = n"
proof
  assume "hex_padded w m = hex_padded w n"
  then have "radix_val 16 (drop 2 (hex_padded w m)) = radix_val 16 (drop 2 (hex_padded w n))" by simp
  then show "m = n" by (simp add: hex_padded_def zero_padded_def radix_val_zeros radix_val_radix)
qed simp

text \<open>The characters of numbers.\<close>

definition is_dec :: "char \<Rightarrow> bool" where "is_dec c \<longleftrightarrow> c \<in> set ''0123456789''"
definition is_hex :: "char \<Rightarrow> bool" where "is_hex c \<longleftrightarrow> c \<in> set ''0123456789abcdef''"

lemma radix_chars:
  assumes "2 \<le> b" and "\<And>d. d < b \<Longrightarrow> P (digit d)"
  shows "list_all P (radix b n)"
  using assms
proof (induction b n rule: radix.induct)
  case (1 b n)
  then show ?case by (subst radix.simps) (auto simp: not_less)
qed

lemma dec_chars: "list_all is_dec (dec n)"
  unfolding dec_def is_dec_def using digit_in(1) by (intro radix_chars) auto

lemma hex_chars: "list_all is_hex (radix 16 n)"
  unfolding is_hex_def using digit_in(2) by (intro radix_chars) auto

text \<open>A number ends at the first character that is not one of its digits.\<close>

lemma split_at:
  assumes "a @ c # x = b @ d # y" and "list_all P a" and "list_all P b" and "\<not> P c" and "\<not> P d"
  shows "a = b \<and> c = d \<and> x = y"
  using assms
proof (induction a arbitrary: b)
  case Nil
  then show ?case by (cases b) auto
next
  case (Cons e a)
  then show ?case by (cases b) auto
qed

lemma split_last:
  assumes "x @ p @ a @ q = y @ p @ b @ q" and "list_all P a" and "list_all P b" and "p \<noteq> []" and "\<not> P (last p)"
  shows "x = y \<and> a = b"
proof -
  have p: "p = butlast p @ [last p]" using assms(4) by simp
  have "(x @ p @ a) @ q = (y @ p @ b) @ q" using assms(1) by simp
  then have "rev (x @ p @ a) = rev (y @ p @ b)" by (simp only: append_same_eq)
  then have "rev a @ last p # rev (x @ butlast p) = rev b @ last p # rev (y @ butlast p)" by (subst (asm) (1 2) p) simp
  from split_at [OF this, of P] assms(2,3,5) show ?thesis by simp
qed

lemma split_first:
  assumes "a @ p @ x = b @ p @ y" and "list_all P a" and "list_all P b" and "p \<noteq> []" and "\<not> P (hd p)"
  shows "a = b \<and> x = y"
proof -
  have "a @ hd p # tl p @ x = b @ hd p # tl p @ y" using assms(1,4) by (cases p) simp_all
  from split_at [OF this, of P] assms(2,3,5) show ?thesis by simp
qed

lemma dec_then:
  assumes "dec m @ p @ x = dec n @ p @ y" and "p \<noteq> []" and "\<not> is_dec (hd p)"
  shows "m = n \<and> x = y"
  using split_first [OF assms(1) dec_chars dec_chars assms(2,3)] by simp

lemma hex_then:
  assumes "hex m @ p @ x = hex n @ p @ y" and "p \<noteq> []" and "\<not> is_hex (hd p)"
  shows "m = n \<and> x = y"
proof -
  have "radix 16 m @ p @ x = radix 16 n @ p @ y" using assms(1) by (simp add: hex_def)
  then have *: "radix 16 m = radix 16 n \<and> x = y" using hex_chars hex_chars assms(2,3) by (rule split_first)
  then have "m = n" by (intro radix_inject [of 16]) simp_all
  then show ?thesis using * by blast
qed

lemma zero_padded_chars: "list_all is_hex (zero_padded w (radix 16 n))"
proof -
  have "is_hex (CHR ''0'')" by (simp add: is_hex_def)
  then have "list_all is_hex (replicate k (CHR ''0''))" for k by (induction k) simp_all
  then show ?thesis using hex_chars [of n] by (simp add: zero_padded_def)
qed

lemma hex_padded_then:
  assumes "hex_padded w m @ p @ x = hex_padded w n @ p @ y" and "p \<noteq> []" and "\<not> is_hex (hd p)"
  shows "m = n \<and> x = y"
proof -
  have "zero_padded (w - 2) (radix 16 m) @ p @ x = zero_padded (w - 2) (radix 16 n) @ p @ y"
    using assms(1) by (simp add: hex_padded_def)
  then have "zero_padded (w - 2) (radix 16 m) = zero_padded (w - 2) (radix 16 n) \<and> x = y"
    using zero_padded_chars zero_padded_chars assms(2,3) by (rule split_first)
  then have "hex_padded w m = hex_padded w n" "x = y" by (simp_all add: hex_padded_def)
  then show ?thesis by simp
qed

section \<open>Reading errors back\<close>

lemma length_radix: "0 < k \<Longrightarrow> n < 16 ^ k \<Longrightarrow> length (radix 16 n) \<le> k"
proof (induction k arbitrary: n)
  case (Suc k)
  then have "length (radix 16 (n div 16)) \<le> k" if "16 \<le> n"
    using that by (cases k) (auto intro!: Suc.IH simp: less_mult_imp_div_less mult.commute)
  then show ?case by (subst radix.simps) auto
qed simp

lemma length_hex_padded: "length (hex_padded 10 (unat (w :: u32))) = 10"
  using length_radix [of 8 "unat w"] unat_bound [of w] by (simp add: hex_padded_def zero_padded_def)

lemma append_same_length: "a @ x = b @ y \<Longrightarrow> length x = length y \<Longrightarrow> a = b \<and> x = y"
  by simp

lemma object_type_text:
  assumes "s @ '': expected '' @ hex_padded 6 m @ '', found '' @ hex_padded 10 (unat (w :: u32)) =
    s' @ '': expected '' @ hex_padded 6 m' @ '', found '' @ hex_padded 10 (unat (w' :: u32))"
  shows "s = s' \<and> m = m' \<and> w = w'"
proof -
  let ?h = "\<lambda>k. zero_padded 4 (radix 16 k)"
  have "(s @ '': expected 0x'' @ ?h m @ '', found '') @ hex_padded 10 (unat w) =
      (s' @ '': expected 0x'' @ ?h m' @ '', found '') @ hex_padded 10 (unat w')"
    using assms by (simp add: hex_padded_def [of 6])
  moreover have "length (hex_padded 10 (unat w)) = length (hex_padded 10 (unat w'))"
    by (simp only: length_hex_padded)
  ultimately have front: "s @ '': expected 0x'' @ ?h m @ '', found '' = s' @ '': expected 0x'' @ ?h m' @ '', found '' \<and>
      hex_padded 10 (unat w) = hex_padded 10 (unat w')"
    by (rule append_same_length)
  then have w: "hex_padded 10 (unat w) = hex_padded 10 (unat w')" by (rule conjunct2)
  have "s = s' \<and> ?h m = ?h m'"
    by (rule split_last [OF conjunct1 [OF front] zero_padded_chars zero_padded_chars]) (simp_all add: is_hex_def)
  moreover from this have "hex_padded 6 m = hex_padded 6 m'" by (simp add: hex_padded_def)
  ultimately show ?thesis using w by (simp add: word_unat_eq_iff)
qed

lemma field_text:
  assumes "f @ '' = '' @ dec v @ '' (cap '' @ dec c @ '')'' = f' @ '' = '' @ dec v' @ '' (cap '' @ dec c' @ '')''"
  shows "f = f' \<and> v = v' \<and> c = c'"
proof -
  have "(f @ '' = '' @ dec v) @ '' (cap '' @ dec c @ '')'' = (f' @ '' = '' @ dec v') @ '' (cap '' @ dec c' @ '')''"
    using assms by (simp only: append_assoc)
  then have c: "f @ '' = '' @ dec v = f' @ '' = '' @ dec v' \<and> dec c = dec c'"
    by (rule split_last [OF _ dec_chars dec_chars]) (simp_all add: is_dec_def)
  then have "f @ '' = '' @ dec v @ [] = f' @ '' = '' @ dec v' @ []" by simp
  then have "f = f' \<and> dec v = dec v'"
    by (rule split_last [OF _ dec_chars dec_chars]) (simp_all add: is_dec_def)
  with c show ?thesis by simp
qed

lemma superblock_text:
  assumes "dec n @ '' checkpoint slots; last magic seen: '' @ hex_padded 10 (unat (w :: u32)) @ '')'' =
    dec n' @ '' checkpoint slots; last magic seen: '' @ hex_padded 10 (unat (w' :: u32)) @ '')''"
  shows "n = n' \<and> w = w'"
proof -
  have "n = n' \<and> hex_padded 10 (unat w) @ '')'' = hex_padded 10 (unat w') @ '')''"
    by (rule dec_then [OF assms]) (simp_all add: is_dec_def)
  then show ?thesis by (simp add: word_unat_eq_iff)
qed

lemma checksum_text:
  assumes "dec (unat (b :: u64)) @ '': stored '' @ hex_padded 18 (unat (s :: u64)) @ '', computed '' @ hex_padded 18 (unat (c :: u64)) =
    dec (unat (b' :: u64)) @ '': stored '' @ hex_padded 18 (unat (s' :: u64)) @ '', computed '' @ hex_padded 18 (unat (c' :: u64))"
  shows "b = b' \<and> s = s' \<and> c = c'"
proof -
  have b: "unat b = unat b' \<and> hex_padded 18 (unat s) @ '', computed '' @ hex_padded 18 (unat c) =
      hex_padded 18 (unat s') @ '', computed '' @ hex_padded 18 (unat c')"
    by (rule dec_then [OF assms]) (simp_all add: is_dec_def)
  have "unat s = unat s' \<and> hex_padded 18 (unat c) = hex_padded 18 (unat c')"
    by (rule hex_padded_then [OF conjunct2 [OF b]]) (simp_all add: is_hex_def)
  with b show ?thesis by (simp add: word_unat_eq_iff)
qed

lemma omap_text:
  assumes "hex (unat (oid :: u64)) @ '' at xid '' @ dec (unat (x :: u64)) = hex (unat (oid' :: u64)) @ '' at xid '' @ dec (unat (x' :: u64))"
  shows "oid = oid' \<and> x = x'"
proof -
  have "unat oid = unat oid' \<and> dec (unat x) = dec (unat x')"
    by (rule hex_then [OF assms]) (simp_all add: is_hex_def)
  then show ?thesis by (simp add: word_unat_eq_iff)
qed

lemma range_text:
  assumes "s @ '': '' @ f @ '' = '' @ dec (unat (v :: u64)) @ '' (cap '' @ dec (unat (c :: u64)) @ '')'' =
      s' @ '': '' @ f' @ '' = '' @ dec (unat (v' :: u64)) @ '' (cap '' @ dec (unat (c' :: u64)) @ '')''"
    and "CHR '':'' \<notin> set s" and "CHR '':'' \<notin> set s'"
  shows "s = s' \<and> f = f' \<and> v = v' \<and> c = c'"
proof -
  have s: "s = s' \<and> f @ '' = '' @ dec (unat v) @ '' (cap '' @ dec (unat c) @ '')'' =
      f' @ '' = '' @ dec (unat v') @ '' (cap '' @ dec (unat c') @ '')''"
    by (rule split_first [OF assms(1), of "\<lambda>x. x \<noteq> CHR '':''"]) (use assms(2,3) in \<open>auto simp: list_all_iff\<close>)
  then show ?thesis using field_text [OF conjunct2 [OF s]] by (simp add: word_unat_eq_iff)
qed

text \<open>
  A structure name with a colon could swallow the separator before the field; the crate's names have
  none.
\<close>

definition plain_structure :: "ApfsError \<Rightarrow> bool" where
  "plain_structure e = (case e of FieldOutOfRange s f v c \<Rightarrow> CHR '':'' \<notin> set s | _ \<Rightarrow> True)"

lemma error_text_inject:
  assumes "error_text e = error_text e'" and "plain_structure e" and "plain_structure e'"
  shows "e = e' \<or> (\<exists>k k'. e = Io k \<and> e' = Io k' \<and> io_text k = io_text k')"
proof (cases e)
  case (Io k)
  with assms(1) show ?thesis by (cases e') simp_all
next
  case (NoValidSuperblock n w)
  then obtain n' w' where "e' = NoValidSuperblock n' w'" using assms(1) by (cases e') simp_all
  with NoValidSuperblock superblock_text [of n w n' w'] assms(1) show ?thesis by simp
next
  case (ChecksumMismatch b s c)
  then obtain b' s' c' where "e' = ChecksumMismatch b' s' c'" using assms(1) by (cases e') simp_all
  with ChecksumMismatch checksum_text [of b s c b' s' c'] assms(1) show ?thesis by simp
next
  case (OmapUnresolved oid x)
  then obtain oid' x' where "e' = OmapUnresolved oid' x'" using assms(1) by (cases e') simp_all
  with OmapUnresolved omap_text [of oid x oid' x'] assms(1) show ?thesis by simp
next
  case (UnexpectedObjectType s m w)
  then obtain s' m' w' where "e' = UnexpectedObjectType s' m' w'" using assms(1) by (cases e') simp_all
  with UnexpectedObjectType object_type_text [of s "unat m" w s' "unat m'" w'] assms(1)
  show ?thesis by (simp add: word_unat_eq_iff)
next
  case (FieldOutOfRange s f v c)
  then obtain s' f' v' c' where "e' = FieldOutOfRange s' f' v' c'" using assms(1) by (cases e') simp_all
  with FieldOutOfRange range_text [of s f v c s' f' v' c'] assms
  show ?thesis by (simp add: plain_structure_def)
qed (use assms(1) in \<open>(cases e'; simp add: word_unat_eq_iff)+\<close>)

end
