(* ===== verification/Vfs.thy ===== *)
theory Vfs
  imports Lib_Container Decmpfs_Image Snapshot Error_Text
begin

text \<open>
  \<^verbatim>\<open>src/src/vfs.rs\<close>: the adapter that serves a mounted volume through the \<^verbatim>\<open>forensic_vfs::FileSystem\<close>
  trait. The types of that crate appear with the constructors and fields the adapter builds; what
  it only passes through (foreign file and stream identities) is the type parameter \<open>'o\<close>. The
  reader behind the \<^verbatim>\<open>Mutex\<close> is the \<open>device\<close> argument; the lock itself is the flag \<open>fs_poisoned\<close>,
  set when a call panics while it holds the guard, so every call returns the handle's next state.
\<close>

definition S_IFMT :: u16 where "S_IFMT = 0xF000"
definition S_IFDIR :: u16 where "S_IFDIR = 0x4000"
definition S_IFREG :: u16 where "S_IFREG = 0x8000"
definition S_IFLNK :: u16 where "S_IFLNK = 0xA000"
definition DT_MASK :: u16 where "DT_MASK = 0x0F"
definition DT_DIR :: u16 where "DT_DIR = 4"
definition DT_REG :: u16 where "DT_REG = 8"
definition DT_LNK :: u16 where "DT_LNK = 10"

record ApfsFs =
  fs_volume :: ApfsVolume
  fs_block_size :: usize
  fs_root_xid :: u64
  fs_poisoned :: bool

section \<open>Mounting\<close>

definition open_first_volume :: "device \<Rightarrow> (ApfsVolume \<times> usize) res" where
  "open_first_volume dev =
     and_then (ApfsContainer_open dev) (\<lambda>container.
       let block_size = unat (nx_block_size (superblock container)) in
       and_then (volume_superblock_addrs dev container) (\<lambda>addrs.
         and_then (ok_or (case addrs of [] \<Rightarrow> None | a # _ \<Rightarrow> Some a) (NoValidSuperblock 0 0)) (\<lambda>vaddr.
           and_then (read_at dev (saturating_mul vaddr (word_of_nat block_size)) block_size) (\<lambda>buf.
             and_then (ApfsVolume_parse buf) (\<lambda>volume. Ok (volume, block_size))))))"

definition ApfsFs_open :: "device \<Rightarrow> ApfsFs res" where
  "ApfsFs_open dev =
     and_then (open_first_volume dev) (\<lambda>(volume, block_size).
       Ok \<lparr>fs_volume = volume, fs_block_size = block_size, fs_root_xid = vol_xid volume, fs_poisoned = False\<rparr>)"

definition open_snapshot :: "device \<Rightarrow> u64 \<Rightarrow> ApfsFs res" where
  "open_snapshot dev xid =
     and_then (open_first_volume dev) (\<lambda>(live, block_size).
       if xid = vol_xid live
       then Ok \<lparr>fs_volume = live, fs_block_size = block_size, fs_root_xid = xid, fs_poisoned = False\<rparr>
       else and_then (list_snapshots dev live block_size) (\<lambda>snaps.
         and_then (ok_or (List.find (\<lambda>s. sn_xid s = xid) snaps) (SnapshotNotFound xid)) (\<lambda>snapshot.
           and_then (mount_snapshot dev live snapshot block_size) (\<lambda>volume.
             Ok \<lparr>fs_volume = volume, fs_block_size = block_size, fs_root_xid = xid, fs_poisoned = False\<rparr>))))"

definition snapshots :: "device \<Rightarrow> Snapshot list res" where
  "snapshots dev =
     and_then (open_first_volume dev) (\<lambda>(volume, block_size). list_snapshots dev volume block_size)"

section \<open>The types of the trait and the error translation\<close>

datatype 'o FileId = ApfsOid u64 u64 | OtherFileId 'o

datatype 'o StreamId = DefaultStream | OtherStream 'o

text \<open>\<open>Unsupported\<close> carries the refused identity, whose \<^verbatim>\<open>Debug\<close> text the source stores.\<close>

datatype 'o VfsError =
    Unsupported string 'o \<comment> \<open>layer, the refused identity\<close>
  | VfsIo string io_error \<comment> \<open>operation, source\<close>
  | Decode string u64 string bytes \<comment> \<open>layer, offset, detail, bytes\<close>
  | Bootstrap string string \<comment> \<open>stage, detail\<close>

datatype ('a, 'o) vres = VOk 'a | VErr "'o VfsError" | VPanic

datatype NodeKind = NodeDir | NodeFile | NodeSymlink | NodeOther

primrec v_then :: "('a, 'o) vres \<Rightarrow> ('a \<Rightarrow> ('b, 'o) vres) \<Rightarrow> ('b, 'o) vres" where
  "v_then (VOk x) f = f x"
| "v_then (VErr e) f = VErr e"
| "v_then VPanic f = VPanic"

definition oid_of :: "'o FileId \<Rightarrow> (u64, 'o) vres" where
  "oid_of i = (case i of ApfsOid oid xid \<Rightarrow> VOk oid | OtherFileId other \<Rightarrow> VErr (Unsupported ''apfs file-id'' other))"

definition require_default_stream :: "'o StreamId \<Rightarrow> (unit, 'o) vres" where
  "require_default_stream s =
     (case s of DefaultStream \<Rightarrow> VOk () | OtherStream other \<Rightarrow> VErr (Unsupported ''apfs stream'' other))"

text \<open>The text is never that of an I/O error, so what those render to does not matter here.\<close>

definition map_err :: "ApfsError \<Rightarrow> 'o VfsError" where
  "map_err e = (case e of Io k \<Rightarrow> VfsIo ''apfs read'' k
     | other \<Rightarrow> Decode ''apfs'' 0 (error_text other) [])"

definition lift_res :: "'a res \<Rightarrow> ('a, 'o) vres" where
  "lift_res r = (case r of Ok v \<Rightarrow> VOk v | Err e \<Rightarrow> VErr (map_err e) | Panic \<Rightarrow> VPanic)"

definition poisoned :: "'o VfsError" where
  "poisoned = Bootstrap ''apfs reader lock'' ''interior reader mutex poisoned''"

definition dt_to_kind :: "u16 \<Rightarrow> NodeKind" where
  "dt_to_kind flags =
     (let t = flags AND DT_MASK in
      if t = DT_DIR then NodeDir else if t = DT_REG then NodeFile else if t = DT_LNK then NodeSymlink else NodeOther)"

definition mode_to_kind :: "u16 \<Rightarrow> NodeKind" where
  "mode_to_kind mode =
     (let t = mode AND S_IFMT in
      if t = S_IFDIR then NodeDir else if t = S_IFREG then NodeFile else if t = S_IFLNK then NodeSymlink else NodeOther)"

text \<open>Timestamps are \<^verbatim>\<open>i128\<close> nanoseconds; the fields that are constant for every node come last.\<close>

datatype TimeSource = InodeTable
datatype TimeResolution = Nanos

record TimeStamp =
  unix_nanos :: int
  ts_source :: TimeSource
  ts_resolution :: TimeResolution

record FsMeta =
  meta_ino :: u64
  meta_kind :: NodeKind
  meta_size :: u64
  meta_nlink :: u32
  meta_uid :: "u32 option"
  meta_gid :: "u32 option"
  meta_mode :: "u32 option"
  meta_born :: "TimeStamp option"
  meta_modified :: "TimeStamp option"
  meta_changed :: "TimeStamp option"
  meta_accessed :: "TimeStamp option"
  meta_allocated :: bool
  meta_streams :: "bytes list"
  meta_non_resident :: bool
  meta_link_target :: "bytes option"

definition build_meta :: "Inode \<Rightarrow> u64 \<Rightarrow> FsMeta" where
  "build_meta inode size' =
     (let ts = (\<lambda>ns :: u64. \<lparr>unix_nanos = int (unat ns), ts_source = InodeTable, ts_resolution = Nanos\<rparr>) in
      \<lparr>meta_ino = ino_oid inode, meta_kind = mode_to_kind (ino_mode inode), meta_size = size',
       meta_nlink = (if sint (ino_nlink_or_nchildren inode) < 0 then 0 else ino_nlink_or_nchildren inode),
       meta_uid = Some (ino_uid inode), meta_gid = Some (ino_gid inode), meta_mode = Some (ucast (ino_mode inode)),
       meta_born = Some (ts (ino_create_time inode)), meta_modified = Some (ts (ino_mod_time inode)),
       meta_changed = Some (ts (ino_change_time inode)), meta_accessed = Some (ts (ino_access_time inode)),
       meta_allocated = True, meta_streams = [], meta_non_resident = True, meta_link_target = None\<rparr>)"

section \<open>The calls\<close>

text \<open>\<^verbatim>\<open>self.reader.lock().map_err(|_| poisoned())?\<close> and the guarded body; a panic poisons the lock.\<close>

definition locked :: "ApfsFs \<Rightarrow> ('a, 'o) vres \<Rightarrow> ('a, 'o) vres \<times> ApfsFs" where
  "locked fs body =
     (if fs_poisoned fs then (VErr poisoned, fs)
      else case body of VPanic \<Rightarrow> (VPanic, fs\<lparr>fs_poisoned := True\<rparr>) | r \<Rightarrow> (r, fs))"

text \<open>A check before the lock is taken leaves the handle as it is when it fails.\<close>

definition checked :: "ApfsFs \<Rightarrow> ('a, 'o) vres \<Rightarrow> ('a \<Rightarrow> ('b, 'o) vres \<times> ApfsFs) \<Rightarrow> ('b, 'o) vres \<times> ApfsFs" where
  "checked fs r f = (case r of VOk x \<Rightarrow> f x | VErr e \<Rightarrow> (VErr e, fs) | VPanic \<Rightarrow> (VPanic, fs))"

datatype FsKind = FsKindApfs
datatype TimeZonePolicy = TzUtc

definition vfs_kind :: "ApfsFs \<Rightarrow> FsKind" where "vfs_kind fs = FsKindApfs"

definition timestamp_zone :: "ApfsFs \<Rightarrow> TimeZonePolicy" where "timestamp_zone fs = TzUtc"

definition vfs_root :: "ApfsFs \<Rightarrow> 'o FileId" where
  "vfs_root fs = ApfsOid ROOT_DIR_INO_NUM (fs_root_xid fs)"

definition sector_sizes :: "ApfsFs \<Rightarrow> u32 \<times> u32 \<times> u32" where
  "sector_sizes fs = (let bs = word_of_nat (fs_block_size fs) in (bs, bs, bs))"

record 'o VfsDirEntry =
  vde_kind :: NodeKind
  vde_name :: bytes
  vde_id :: "'o FileId"

definition read_dir :: "device \<Rightarrow> ApfsFs \<Rightarrow> 'o FileId \<Rightarrow> ('o VfsDirEntry list, 'o) vres \<times> ApfsFs" where
  "read_dir dev fs ino =
     checked fs (oid_of ino) (\<lambda>parent.
       locked fs (v_then (lift_res (list_dir dev (fs_volume fs) parent (fs_block_size fs))) (\<lambda>entries.
         VOk (map (\<lambda>e. \<lparr>vde_kind = dt_to_kind (de_flags e), vde_name = de_name e,
                        vde_id = ApfsOid (de_file_id e) (fs_root_xid fs)\<rparr>) entries))))"

record RunInfo =
  run_image_offset :: u64
  run_len :: u64
  run_sparse :: bool
  run_allocated :: bool

definition extents :: "device \<Rightarrow> ApfsFs \<Rightarrow> 'o FileId \<Rightarrow> 'o StreamId \<Rightarrow> (RunInfo list, 'o) vres \<times> ApfsFs" where
  "extents dev fs ino stream =
     checked fs (oid_of ino) (\<lambda>node.
       checked fs (require_default_stream stream) (\<lambda>_.
         let bs = fs_block_size fs in
         locked fs (v_then (lift_res (load_inode dev (fs_volume fs) node bs)) (\<lambda>inode.
           v_then (lift_res (list_extents dev (fs_volume fs) (ino_private_id inode) bs)) (\<lambda>exts.
             VOk (map (\<lambda>x. \<lparr>run_image_offset = saturating_mul (phys_block_num x) (word_of_nat bs),
                            run_len = ext_len x, run_sparse = (phys_block_num x = 0),
                            run_allocated = True\<rparr>) exts))))))"

definition lookup :: "device \<Rightarrow> ApfsFs \<Rightarrow> 'o FileId \<Rightarrow> bytes \<Rightarrow> ('o FileId option, 'o) vres \<times> ApfsFs" where
  "lookup dev fs parent name =
     checked fs (oid_of parent) (\<lambda>p.
       if \<not> valid_utf8 name then (VOk None, fs)
       else locked fs (v_then (lift_res (lookup_child dev (fs_volume fs) p name (fs_block_size fs))) (\<lambda>found.
         VOk (map_option (\<lambda>oid. ApfsOid oid (fs_root_xid fs)) found))))"

definition meta :: "device \<Rightarrow> ApfsFs \<Rightarrow> 'o FileId \<Rightarrow> (FsMeta, 'o) vres \<times> ApfsFs" where
  "meta dev fs ino =
     checked fs (oid_of ino) (\<lambda>node.
       locked fs (v_then (lift_res (load_inode dev (fs_volume fs) node (fs_block_size fs))) (\<lambda>inode.
         v_then (lift_res (data_size dev (fs_volume fs) inode (fs_block_size fs))) (\<lambda>sz.
           VOk (build_meta inode sz)))))"

text \<open>\<^verbatim>\<open>read_at\<close>: the number of bytes and the caller's buffer after the copy.\<close>

definition copy_window :: "bytes \<Rightarrow> u64 \<Rightarrow> bytes \<Rightarrow> (usize \<times> bytes, 'o) vres" where
  "copy_window data off buf =
     (let start = unat off in
      if start \<ge> length data then VOk (0, buf)
      else let n = min (length buf) (length data - start) in
        case (get_range buf 0 n, get_range data start (start + n)) of
          (Some dst, Some src) \<Rightarrow> VOk (n, src @ drop n buf)
        | _ \<Rightarrow> VOk (0, buf))"

definition vfs_read_at ::
  "Codecs \<Rightarrow> device \<Rightarrow> ApfsFs \<Rightarrow> 'o FileId \<Rightarrow> 'o StreamId \<Rightarrow> u64 \<Rightarrow> bytes \<Rightarrow> (usize \<times> bytes, 'o) vres \<times> ApfsFs" where
  "vfs_read_at cs dev fs ino stream off buf =
     checked fs (oid_of ino) (\<lambda>node.
       checked fs (require_default_stream stream) (\<lambda>_.
         let bs = fs_block_size fs in
         locked fs (v_then (lift_res (load_inode dev (fs_volume fs) node bs)) (\<lambda>inode.
           v_then (lift_res (read_data cs dev (fs_volume fs) inode bs)) (\<lambda>data.
             copy_window data off buf)))))"

definition read_link :: "'o FileId \<Rightarrow> usize \<Rightarrow> (bytes, 'o) vres" where "read_link ino cap = VOk []"
definition deleted :: "(FsMeta list, 'o) vres" where "deleted = VOk []"
definition unallocated :: "(RunInfo list, 'o) vres" where "unallocated = VOk []"

section \<open>Windows of the contents\<close>

lemma copy_window_eq:
  "copy_window data off buf =
     (let w = take (length buf) (drop (unat off) data) in VOk (length w, w @ drop (length w) buf))"
proof -
  let ?n = "min (length buf) (length data - unat off)"
  have "take ?n (drop (unat off) data) = take (length buf) (drop (unat off) data)"
    by (simp add: min_def)
  then show ?thesis
    by (auto simp: copy_window_def Let_def get_range_def min.commute)
qed

lemma vfs_read_at_Ok:
  assumes "\<not> fs_poisoned fs" and "load_inode dev (fs_volume fs) oid (fs_block_size fs) = Ok inode"
    and "read_data cs dev (fs_volume fs) inode (fs_block_size fs) = Ok data"
  shows "vfs_read_at cs dev fs (ApfsOid oid x) DefaultStream off buf =
    (let w = take (length buf) (drop (unat off) data) in (VOk (length w, w @ drop (length w) buf), fs))"
  using assms
  by (simp add: vfs_read_at_def checked_def oid_of_def require_default_stream_def locked_def lift_res_def
      copy_window_eq Let_def)

text \<open>A client that reads consecutive windows of \<open>k\<close> bytes.\<close>

definition window :: "Codecs \<Rightarrow> device \<Rightarrow> ApfsFs \<Rightarrow> 'o FileId \<Rightarrow> nat \<Rightarrow> nat \<Rightarrow> bytes" where
  "window cs dev fs ino k i =
     (case fst (vfs_read_at cs dev fs ino DefaultStream (word_of_nat (i * k)) (replicate k 0)) of
        VOk (n, buf) \<Rightarrow> take n buf | _ \<Rightarrow> [])"

lemma concat_windows: "concat (map (\<lambda>i. take k (drop (i * k) xs)) [0..<n]) = take (n * k) xs"
proof (induction n)
  case (Suc n)
  have "take (Suc n * k) xs = take (n * k + k) xs" by (simp add: add.commute)
  then show ?case using Suc by (simp add: take_add)
qed simp

lemma windows_contents:
  assumes "\<not> fs_poisoned fs" and "load_inode dev (fs_volume fs) oid (fs_block_size fs) = Ok inode"
    and "read_data cs dev (fs_volume fs) inode (fs_block_size fs) = Ok data"
    and "length data \<le> n * k" and "n * k < 2 ^ 64"
  shows "concat (map (window cs dev fs (ApfsOid oid x :: 'o FileId) k) [0..<n]) = data"
proof -
  have "window cs dev fs (ApfsOid oid x :: 'o FileId) k i = take k (drop (i * k) data)" if "i < n" for i
  proof -
    have "i * k < 2 ^ 64" using that assms(5) by (intro le_less_trans [of "i * k" "n * k"]) simp_all
    then have "unat (word_of_nat (i * k) :: u64) = i * k"
      by (simp add: unat_of_nat del: of_nat_mult)
    then show ?thesis
      by (simp add: window_def vfs_read_at_Ok [OF assms(1-3)] Let_def min_def del: of_nat_mult)
  qed
  then have "map (window cs dev fs (ApfsOid oid x :: 'o FileId) k) [0..<n] = map (\<lambda>i. take k (drop (i * k) data)) [0..<n]"
    by simp
  then show ?thesis using assms(4) by (simp only: concat_windows take_all)
qed

section \<open>Listing and lookup\<close>

lemma read_dir_VOk:
  assumes "read_dir dev fs (ApfsOid parent x) = (VOk es, fs')"
  obtains ds where "list_dir dev (fs_volume fs) parent (fs_block_size fs) = Ok ds" and "\<not> fs_poisoned fs"
    and "fs' = fs" and "es = map (\<lambda>e. \<lparr>vde_kind = dt_to_kind (de_flags e), vde_name = de_name e,
                        vde_id = ApfsOid (de_file_id e) (fs_root_xid fs)\<rparr>) ds"
  using assms
  by (cases "list_dir dev (fs_volume fs) parent (fs_block_size fs)")
    (auto simp: read_dir_def checked_def oid_of_def locked_def lift_res_def split: if_splits)

lemma find_map: "List.find P (map f xs) = map_option f (List.find (P \<circ> f) xs)"
  by (induction xs) auto

lemma lookup_read_dir:
  assumes "read_dir dev fs (ApfsOid parent x) = (VOk es, fs')"
  shows "lookup dev fs (ApfsOid parent x) name =
    (VOk (if valid_utf8 name then map_option vde_id (List.find (\<lambda>e. vde_name e = name) es) else None), fs)"
proof -
  obtain ds where ds: "list_dir dev (fs_volume fs) parent (fs_block_size fs) = Ok ds" "\<not> fs_poisoned fs"
    "es = map (\<lambda>e. \<lparr>vde_kind = dt_to_kind (de_flags e), vde_name = de_name e,
                        vde_id = ApfsOid (de_file_id e) (fs_root_xid fs)\<rparr>) ds"
    by (rule read_dir_VOk [OF assms])
  have "lookup_child dev (fs_volume fs) parent name (fs_block_size fs) =
      Ok (map_option de_file_id (List.find (\<lambda>d. de_name d = name) ds))"
    unfolding lookup_child_list_dir ds(1) by simp
  then show ?thesis
    using ds(2)
    by (simp add: lookup_def checked_def oid_of_def locked_def lift_res_def ds(3) find_map comp_def option.map_comp)
qed

section \<open>What a client learns of an error\<close>

lemma map_err_inject:
  assumes "(map_err e :: 'o VfsError) = map_err e'" and "plain_structure e" and "plain_structure e'"
  shows "e = e'"
proof (cases "\<exists>k. e = Io k \<or> e' = Io k")
  case True
  then show ?thesis using assms(1) by (cases e; cases e') (auto simp: map_err_def)
next
  case False
  then have "error_text e = error_text e'"
    using assms(1) by (cases e; cases e') (auto simp: map_err_def simp del: error_text.simps)
  then show ?thesis using error_text_inject [OF _ assms(2,3)] False by blast
qed

section \<open>The lock\<close>

text \<open>What a guarded body must not do.\<close>

definition quiet :: "('a, 'o) vres \<Rightarrow> bool" where
  "quiet r \<longleftrightarrow> r \<noteq> VPanic \<and> (\<forall>stage detail. r \<noteq> VErr (Bootstrap stage detail))"

lemma quiet_simps [simp]: "quiet (VOk v)" "quiet (VErr (Unsupported l x))"
  by (simp_all add: quiet_def)

lemma quiet_v_then: "quiet r \<Longrightarrow> (\<And>v. r = VOk v \<Longrightarrow> quiet (f v)) \<Longrightarrow> quiet (v_then r f)"
  by (cases r) (auto simp: quiet_def)

lemma quiet_lift: "fails_only P r \<Longrightarrow> quiet (lift_res r)"
  by (cases r) (auto simp: quiet_def lift_res_def map_err_def split: ApfsError.splits)

lemma quiet_locked: "\<not> fs_poisoned fs \<Longrightarrow> quiet body \<Longrightarrow> locked fs body = (body, fs)"
  by (cases body) (auto simp: locked_def quiet_def)

text \<open>A handle that serves calls: its lock is not poisoned and its block size is one a container has.\<close>

definition serving :: "ApfsFs \<Rightarrow> bool" where
  "serving fs \<longleftrightarrow> \<not> fs_poisoned fs \<and> 4096 \<le> fs_block_size fs \<and> fs_block_size fs \<le> 65536"

lemma open_first_volume_block_size:
  assumes "open_first_volume dev = Ok (v, bs)"
  shows "4096 \<le> bs \<and> bs \<le> 65536"
  using assms
  by (auto simp: open_first_volume_def volume_superblock_addrs_def Let_def res_simps block_size_ok_def
      NX_MINIMUM_BLOCK_SIZE_def NX_MAXIMUM_BLOCK_SIZE_def word_le_nat_alt split: if_splits)

lemma open_serving: "ApfsFs_open dev = Ok fs \<Longrightarrow> serving fs" "open_snapshot dev xid = Ok fs \<Longrightarrow> serving fs"
  by (auto simp: ApfsFs_open_def open_snapshot_def res_simps serving_def split: if_splits
      dest: open_first_volume_block_size)

text \<open>One call keeps the handle serving and answers without a panic or a lock error.\<close>

definition answers_call :: "ApfsFs \<Rightarrow> ('a, 'o) vres \<times> ApfsFs \<Rightarrow> bool" where
  "answers_call fs r \<longleftrightarrow> quiet (fst r) \<and> snd r = fs"

lemma answers_call_intros:
  "quiet r \<Longrightarrow> (\<And>v. r = VOk v \<Longrightarrow> answers_call fs (f v)) \<Longrightarrow> answers_call fs (checked fs r f)"
  "serving fs \<Longrightarrow> quiet body \<Longrightarrow> answers_call fs (locked fs body)"
  by (cases r) (auto simp: checked_def answers_call_def quiet_def quiet_locked serving_def)

lemma quiet_checks [simp]: "quiet (oid_of i)" "quiet (require_default_stream st)" "quiet (copy_window d off b)"
  by (simp_all add: oid_of_def require_default_stream_def copy_window_eq Let_def split: FileId.split StreamId.split)

lemma calls_answered:
  assumes "serving fs"
  shows "answers_call fs (read_dir dev fs ino)" and "answers_call fs (extents dev fs ino st)"
    and "answers_call fs (lookup dev fs ino name)" and "answers_call fs (meta dev fs ino)"
    and "answers_call fs (vfs_read_at cs dev fs ino st off buf)"
proof -
  have bs: "0 < fs_block_size fs" "fs_block_size fs < 2 ^ 64" using assms by (simp_all add: serving_def)
  note calls = answers_call_intros [OF _ _ ] assms quiet_v_then quiet_lift [OF list_dir_fails]
    quiet_lift [OF load_inode_fails] quiet_lift [OF list_extents_fails] quiet_lift [OF lookup_child_fails]
    quiet_lift [OF read_data_fails(1) [OF bs]] quiet_lift [OF read_data_fails(2) [OF bs]]
  show "answers_call fs (read_dir dev fs ino)"
    unfolding read_dir_def by (intro calls) simp_all
  show "answers_call fs (extents dev fs ino st)"
    unfolding extents_def Let_def by (intro calls) simp_all
  show "answers_call fs (lookup dev fs ino name)"
    unfolding lookup_def by (intro calls) (auto intro!: calls simp: answers_call_def [of _ "(_, _)"])
  show "answers_call fs (meta dev fs ino)"
    unfolding meta_def by (intro calls) simp_all
  show "answers_call fs (vfs_read_at cs dev fs ino st off buf)"
    unfolding vfs_read_at_def Let_def by (intro calls) simp_all
qed

text \<open>
  The states of a mounted handle: the calls of any number of workers, one after the other as the
  lock orders them.
\<close>

inductive handle :: "Codecs \<Rightarrow> device \<Rightarrow> ApfsFs \<Rightarrow> bool" for cs :: Codecs and dev :: device where
  mounted: "ApfsFs_open dev = Ok fs \<Longrightarrow> handle cs dev fs"
| mounted_snapshot: "open_snapshot dev xid = Ok fs \<Longrightarrow> handle cs dev fs"
| called_read_dir: "handle cs dev fs \<Longrightarrow> handle cs dev (snd (read_dir dev fs (ino :: nat FileId)))"
| called_extents: "handle cs dev fs \<Longrightarrow> handle cs dev (snd (extents dev fs (ino :: nat FileId) st))"
| called_lookup: "handle cs dev fs \<Longrightarrow> handle cs dev (snd (lookup dev fs (ino :: nat FileId) name))"
| called_meta: "handle cs dev fs \<Longrightarrow> handle cs dev (snd (meta dev fs (ino :: nat FileId)))"
| called_read_at: "handle cs dev fs \<Longrightarrow> handle cs dev (snd (vfs_read_at cs dev fs (ino :: nat FileId) st off buf))"

lemma handle_serving: "handle cs dev fs \<Longrightarrow> serving fs"
proof (induction rule: handle.induct)
  case (mounted fs)
  then show ?case by (rule open_serving)
next
  case (mounted_snapshot xid fs)
  then show ?case by (rule open_serving)
qed (simp_all add: calls_answered [unfolded answers_call_def])

section \<open>Mounting a snapshot\<close>

text \<open>
  Mounting at a transaction id, with the live volume and the snapshot list it is resolved in: the
  live volume at its own id, else the first listed snapshot of that id, else not found.
\<close>

lemma open_snapshot_cases:
  assumes "open_first_volume dev = Ok (live, bs)" and "list_snapshots dev live bs = Ok snaps"
  shows "open_snapshot dev xid =
    (if xid = vol_xid live
     then Ok \<lparr>fs_volume = live, fs_block_size = bs, fs_root_xid = xid, fs_poisoned = False\<rparr>
     else case List.find (\<lambda>s. sn_xid s = xid) snaps of
       None \<Rightarrow> Err (SnapshotNotFound xid)
     | Some sn \<Rightarrow> and_then (mount_snapshot dev live sn bs) (\<lambda>v.
         Ok \<lparr>fs_volume = v, fs_block_size = bs, fs_root_xid = xid, fs_poisoned = False\<rparr>))"
  using assms by (auto simp: open_snapshot_def split: option.split)

end
