(* ===== verification/Fs_Objects.thy ===== *)
theory Fs_Objects
  imports Xattr
begin

text \<open>
  The contents of a volume as objects (inode, attributes, extents and directory entries of each object
  id) and their records as the format lays them out in key order. Every list of well-formed objects
  with different ids is recovered from its records by the decoders of \<^verbatim>\<open>inode.rs\<close>, \<^verbatim>\<open>xattr.rs\<close>,
  \<^verbatim>\<open>extent.rs\<close> and \<^verbatim>\<open>dir.rs\<close>, object by object.
\<close>

record fs_object =
  fo_oid :: u64
  fo_inode :: "Inode option"
  fo_xattrs :: "Xattr list"
  fo_extents :: "FileExtent list"
  fo_entries :: "DirEntry list"

section \<open>Records\<close>

definition jk :: "u64 \<Rightarrow> RecordType \<Rightarrow> bytes" where
  "jk oid t = to_le_bytes (encode_jkey oid t)"

lemma length_jk [simp]: "length (jk oid t) = 8"
  by (simp add: jk_def)

lemma key_oid_jk:
  assumes "unat oid < 2 ^ 60"
  shows "key_oid (jk oid t @ r) = oid" and "key_type (jk oid t @ r) = Some t"
  using decode_encode_jkey [OF assms] by (simp_all add: key_oid_def key_type_def jk_def le_to_le_bytes)

lemma key_oid_jk_alone:
  assumes "unat oid < 2 ^ 60"
  shows "key_oid (jk oid t) = oid" and "key_type (jk oid t) = Some t"
  using key_oid_jk [OF assms, of t "[]"] by simp_all

definition inode_record :: "u64 \<Rightarrow> Inode \<Rightarrow> Entry" where
  "inode_record oid i = (jk oid RT_Inode, inode_image [] i)"

text \<open>The value of an attribute: the bytes themselves, or the id and size of a stream and its other counters.\<close>

fun xattr_data :: "XattrValue \<Rightarrow> bytes" where
  "xattr_data (Embedded d) = d"
| "xattr_data (Stream s sz) = to_le_bytes s @ to_le_bytes sz @ replicate 32 0"

definition xattr_record :: "u64 \<Rightarrow> Xattr \<Rightarrow> Entry" where
  "xattr_record oid x = (xattr_key (jk oid RT_Xattr) (xa_name x), xattr_val (xa_flags x) (xattr_data (xa_value x)))"

definition extent_record :: "u64 \<Rightarrow> FileExtent \<Rightarrow> Entry" where
  "extent_record oid e = (jk oid RT_FileExtent @ to_le_bytes (logical_offset e),
     to_le_bytes (ext_len e) @ to_le_bytes (phys_block_num e) @ replicate 8 0)"

text \<open>Directory records have plain keys, or keys with a hash of the name.\<close>

definition drec_record :: "(rstring \<Rightarrow> u32) option \<Rightarrow> u64 \<Rightarrow> DirEntry \<Rightarrow> Entry" where
  "drec_record hash oid d =
     ((case hash of None \<Rightarrow> drec_key_plain (jk oid RT_DirRec) (de_name d)
       | Some h \<Rightarrow> drec_key_hashed (jk oid RT_DirRec) (h (de_name d)) (de_name d)),
      to_le_bytes (de_file_id d) @ to_le_bytes (de_date_added d) @ to_le_bytes (de_flags d))"

definition object_records :: "(rstring \<Rightarrow> u32) option \<Rightarrow> fs_object \<Rightarrow> Entry list" where
  "object_records hash ob =
     (case fo_inode ob of None \<Rightarrow> [] | Some i \<Rightarrow> [inode_record (fo_oid ob) i]) @
     map (xattr_record (fo_oid ob)) (fo_xattrs ob) @ map (extent_record (fo_oid ob)) (fo_extents ob) @
     map (drec_record hash (fo_oid ob)) (fo_entries ob)"

section \<open>Well-formed objects\<close>

definition xattr_fits :: "Xattr \<Rightarrow> bool" where
  "xattr_fits x \<longleftrightarrow> name_ok (xa_name x) \<and> Suc (length (xa_name x)) < 2 ^ 16 \<and>
     (case xa_value x of Embedded d \<Rightarrow> xa_flags x AND XATTR_DATA_STREAM = 0 \<and> length d < 2 ^ 16
      | Stream s sz \<Rightarrow> xa_flags x AND XATTR_DATA_STREAM \<noteq> 0)"

definition object_ok :: "fs_object \<Rightarrow> bool" where
  "object_ok ob \<longleftrightarrow> unat (fo_oid ob) < 2 ^ 60 \<and>
     (case fo_inode ob of None \<Rightarrow> True | Some i \<Rightarrow> ino_oid i = fo_oid ob \<and> inode_ok [] i) \<and>
     list_all xattr_fits (fo_xattrs ob) \<and>
     list_all (\<lambda>e. unat (ext_len e) < 2 ^ 56) (fo_extents ob) \<and> sorted (map logical_offset (fo_extents ob)) \<and>
     list_all (\<lambda>d. name_ok (de_name d) \<and> Suc (length (de_name d)) < 1024) (fo_entries ob)"

section \<open>One record\<close>

lemma parse_xattr_record:
  assumes "xattr_fits x"
  shows "parse_xattr (fst (xattr_record oid x)) (snd (xattr_record oid x)) = Some x"
proof -
  have "length (xattr_data (xa_value x)) < 2 ^ 16"
    using assms by (cases "xa_value x") (simp_all add: xattr_fits_def)
  then have "parse_xattr (fst (xattr_record oid x)) (snd (xattr_record oid x)) =
      Some \<lparr>xa_name = xa_name x, xa_flags = xa_flags x, xa_value = xa_value x\<rparr>"
    using assms
    by (cases "xa_value x") (simp_all add: xattr_record_def parse_xattr_image xattr_fits_def name_ok_def slice_simps)
  then show ?thesis by simp
qed

lemma parse_extent_record:
  assumes "unat (ext_len e) < 2 ^ 56"
  shows "parse_extent (fst (extent_record oid e)) (snd (extent_record oid e)) = e"
proof -
  have mask: "J_FILE_EXTENT_LEN_MASK = mask 56" by (simp add: J_FILE_EXTENT_LEN_MASK_def mask_eq_exp_minus_1)
  have "take_bit 56 (ext_len e) = ext_len e"
    using assms by (simp add: word_unat_eq_iff unsigned_take_bit_eq take_bit_nat_eq_self)
  then have "ext_len e AND J_FILE_EXTENT_LEN_MASK = ext_len e" unfolding mask take_bit_eq_mask .
  then show ?thesis by (simp add: extent_record_def parse_extent_def slice_simps)
qed

lemma parse_drec_record:
  assumes "name_ok (de_name d)" and "Suc (length (de_name d)) < 1024"
  shows "parse_dir_entry (fst (drec_record hash oid d)) (snd (drec_record hash oid d)) = Some d"
proof -
  have "decode_drec_name (fst (drec_record hash oid d)) = Some (de_name d)"
    using assms
    by (auto simp: drec_record_def name_ok_def decode_drec_name_plain decode_drec_name_hashed split: option.split)
  then show ?thesis by (simp add: parse_dir_entry_def) (simp add: drec_record_def slice_simps)
qed

lemma record_keys:
  assumes "unat oid < 2 ^ 60"
  shows "key_oid (fst (inode_record oid i)) = oid" "key_type (fst (inode_record oid i)) = Some RT_Inode"
    "key_oid (fst (xattr_record oid x)) = oid" "key_type (fst (xattr_record oid x)) = Some RT_Xattr"
    "key_oid (fst (extent_record oid e)) = oid" "key_type (fst (extent_record oid e)) = Some RT_FileExtent"
    "key_oid (fst (drec_record hash oid d)) = oid" "key_type (fst (drec_record hash oid d)) = Some RT_DirRec"
  using assms
  by (simp_all add: inode_record_def xattr_record_def extent_record_def drec_record_def xattr_key_def
      drec_key_plain_def drec_key_hashed_def key_oid_jk key_oid_jk_alone split: option.split)

section \<open>All records\<close>

lemma object_records_oid:
  assumes "object_ok ob" and "r \<in> set (object_records hash ob)"
  shows "key_oid (fst r) = fo_oid ob"
  using assms by (auto simp: object_records_def object_ok_def record_keys split: option.splits)

text \<open>The records of one object and type among those of all objects are that part of the object.\<close>

definition records_of_type :: "(rstring \<Rightarrow> u32) option \<Rightarrow> fs_object \<Rightarrow> RecordType \<Rightarrow> Entry list" where
  "records_of_type hash ob ty = filter (\<lambda>r. key_type (fst r) = Some ty) (object_records hash ob)"

lemma records_by_type:
  assumes "object_ok ob"
  shows "records_of_type hash ob RT_Inode = (case fo_inode ob of None \<Rightarrow> [] | Some i \<Rightarrow> [inode_record (fo_oid ob) i])"
    and "records_of_type hash ob RT_Xattr = map (xattr_record (fo_oid ob)) (fo_xattrs ob)"
    and "records_of_type hash ob RT_FileExtent = map (extent_record (fo_oid ob)) (fo_extents ob)"
    and "records_of_type hash ob RT_DirRec = map (drec_record hash (fo_oid ob)) (fo_entries ob)"
  using assms
  by (simp_all add: records_of_type_def object_records_def object_ok_def record_keys filter_map comp_def split: option.split)

lemma records_of_object:
  assumes "list_all object_ok obs" and "distinct (map fo_oid obs)" and "ob \<in> set obs"
  shows "filter (\<lambda>r. key_oid (fst r) = fo_oid ob \<and> key_type (fst r) = Some ty) (concat (map (object_records hash) obs)) =
    records_of_type hash ob ty"
  using assms
proof (induction obs)
  case (Cons o1 obs)
  have own: "key_oid (fst r) = fo_oid o1" if "r \<in> set (object_records hash o1)" for r
    using Cons.prems(1) that by (intro object_records_oid [of o1 r hash]) simp_all
  have first: "filter (\<lambda>r. key_oid (fst r) = oid \<and> key_type (fst r) = Some ty) (object_records hash o1) =
      (if oid = fo_oid o1 then records_of_type hash o1 ty else [])" for oid
    unfolding records_of_type_def by (auto simp: filter_empty_conv intro!: filter_cong dest!: own)
  have "key_oid (fst r) \<noteq> fo_oid o1" if "o2 \<in> set obs" "r \<in> set (object_records hash o2)" for o2 r
  proof -
    have "fo_oid o2 \<in> fo_oid ` set obs" using that(1) by (rule imageI)
    moreover have "key_oid (fst r) = fo_oid o2"
      using Cons.prems(1) that by (intro object_records_oid [of o2 r hash]) (auto simp: list_all_iff)
    ultimately show ?thesis using Cons.prems(2) by auto
  qed
  then have others: "filter (\<lambda>r. key_oid (fst r) = fo_oid o1 \<and> key_type (fst r) = Some ty)
      (concat (map (object_records hash) obs)) = []" by (auto simp: filter_empty_conv)
  show ?case
  proof (cases "ob = o1")
    case True
    then show ?thesis using first others by simp
  next
    case False
    then have ob: "ob \<in> set obs" using Cons.prems(3) by simp
    then have "fo_oid ob \<in> fo_oid ` set obs" by (rule imageI)
    then have "fo_oid ob \<noteq> fo_oid o1" using Cons.prems(2) by auto
    then show ?thesis using ob first Cons.IH Cons.prems(1,2) by simp
  qed
qed simp

section \<open>Recovering the objects\<close>

text \<open>A file-system tree that holds the records of the objects, however they are spread over its leaves.\<close>

definition holds_objects :: "(rstring \<Rightarrow> u32) option \<Rightarrow> ptree \<Rightarrow> fs_object list \<Rightarrow> bool" where
  "holds_objects hash t obs \<longleftrightarrow> all_entries t = concat (map (object_records hash) obs) \<and>
     list_all object_ok obs \<and> distinct (map fo_oid obs)"

lemma fs_records_object:
  "holds_objects hash t obs \<Longrightarrow> ob \<in> set obs \<Longrightarrow> fs_records t (fo_oid ob) ty = records_of_type hash ob ty"
  by (simp add: holds_objects_def fs_records_def records_of_object)

lemma map_filter_records:
  "list_all (\<lambda>x. f (fst (g x)) (snd (g x)) = Some x) xs \<Longrightarrow> List.map_filter (\<lambda>(k, v). f k v) (map g xs) = xs"
  by (induction xs) (auto simp: map_filter_simps split: prod.splits)

lemma spec_object:
  assumes "holds_objects hash t obs" and "ob \<in> set obs"
  shows "spec_dir t (fo_oid ob) = fo_entries ob"
    and "spec_xattrs t (fo_oid ob) = fo_xattrs ob"
    and "spec_extents t (fo_oid ob) = fo_extents ob"
    and "spec_inode t (fo_oid ob) = map_option (inode_image []) (fo_inode ob)"
proof -
  have ok: "object_ok ob" using assms by (auto simp: holds_objects_def list_all_iff)
  note recs = fs_records_object [OF assms] records_by_type [OF ok]
  show "spec_dir t (fo_oid ob) = fo_entries ob"
    using ok unfolding spec_dir_def recs
    by (intro map_filter_records) (auto simp: object_ok_def list_all_iff parse_drec_record)
  show "spec_xattrs t (fo_oid ob) = fo_xattrs ob"
    using ok unfolding spec_xattrs_def recs
    by (intro map_filter_records) (auto simp: object_ok_def list_all_iff parse_xattr_record)
  have "map (\<lambda>(k, v). parse_extent k v) (map (extent_record (fo_oid ob)) (fo_extents ob)) = fo_extents ob"
    using ok by (auto simp: object_ok_def list_all_iff parse_extent_record split_def intro!: map_idI)
  then show "spec_extents t (fo_oid ob) = fo_extents ob"
    using ok by (simp add: spec_extents_def recs object_ok_def sort_key_id_if_sorted)
  show "spec_inode t (fo_oid ob) = map_option (inode_image []) (fo_inode ob)"
    by (simp add: spec_inode_def recs inode_record_def split: option.split)
qed

lemma inode_of_object: "object_ok ob \<Longrightarrow> fo_inode ob = Some i \<Longrightarrow> Inode_parse (fo_oid ob) (inode_image [] i) = Ok i"
  using inode_image_parse [of "[]" i] by (simp add: object_ok_def)

text \<open>Following names from object to object.\<close>

definition find_object :: "fs_object list \<Rightarrow> u64 \<Rightarrow> fs_object option" where
  "find_object obs oid = List.find (\<lambda>ob. fo_oid ob = oid) obs"

fun object_path :: "fs_object list \<Rightarrow> u64 \<Rightarrow> u64 \<Rightarrow> rstring list \<Rightarrow> u64 res" where
  "object_path obs xid cur [] = Ok cur"
| "object_path obs xid cur (name # names) =
     (case List.find (\<lambda>d. de_name d = name) (case find_object obs cur of None \<Rightarrow> [] | Some ob \<Rightarrow> fo_entries ob) of
        None \<Rightarrow> Err (OmapUnresolved cur xid)
      | Some d \<Rightarrow> object_path obs xid (de_file_id d) names)"

lemma find_objectD: "find_object obs oid = Some ob \<Longrightarrow> ob \<in> set obs \<and> fo_oid ob = oid"
  by (auto simp: find_object_def find_Some_iff)

lemma find_object_member: "distinct (map fo_oid obs) \<Longrightarrow> ob \<in> set obs \<Longrightarrow> find_object obs (fo_oid ob) = Some ob"
  unfolding find_object_def by (induction obs) auto

text \<open>An object that is not there has no records.\<close>

lemma fs_records_missing:
  assumes "holds_objects hash t obs" and "find_object obs oid = None"
  shows "fs_records t oid ty = []"
proof -
  have "key_oid (fst r) \<noteq> oid" if "ob \<in> set obs" "r \<in> set (object_records hash ob)" for ob r
    using assms that object_records_oid [of ob r hash]
    by (auto simp: holds_objects_def list_all_iff find_object_def find_None_iff)
  then show ?thesis using assms(1) by (auto simp: holds_objects_def fs_records_def filter_empty_conv)
qed

lemma spec_path_objects:
  assumes "holds_objects hash t obs"
  shows "spec_path t xid cur names = object_path obs xid cur names"
proof -
  have "spec_dir t cur = (case find_object obs cur of None \<Rightarrow> [] | Some ob \<Rightarrow> fo_entries ob)" for cur
  proof (cases "find_object obs cur")
    case None
    then show ?thesis by (simp add: spec_dir_def fs_records_missing [OF assms None] map_filter_simps)
  next
    case (Some ob)
    then show ?thesis using find_objectD [OF Some] spec_object(1) [OF assms, of ob] by auto
  qed
  then show ?thesis by (induction names arbitrary: cur) (simp_all add: spec_child_def split: option.split)
qed


end
