(* ===== verification/Sample_Volume.thy ===== *)
theory Sample_Volume
  imports Vfs Fs_Objects
begin

text \<open>
  A complete container image of fourteen 4096-byte blocks on which the theorems about whole volumes
  are evaluated: the checkpoint ring and container object map of \<^verbatim>\<open>Lib_Container\<close>, a volume
  superblock, its object map, a two-level file-system tree with a directory, a plain file and a
  file with a decmpfs attribute, a data block, and a snapshot with its frozen superblock.
\<close>

definition smp_apsb :: "u64 \<Rightarrow> bytes" where
  "smp_apsb xid = seal (replicate 16 0 @ to_le_bytes xid @ to_le_bytes (0xd :: u32) @ replicate 4 0 @
     to_le_bytes APFS_MAGIC @ replicate 92 0 @ to_le_bytes (6 :: u64) @ to_le_bytes (1026 :: u64) @ replicate 8 0 @
     to_le_bytes (12 :: u64) @ replicate 3936 0)"

definition smp_omap_phys :: bytes where
  "smp_omap_phys = seal (replicate 24 0 @ to_le_bytes (0xb :: u32) @ replicate 20 0 @
     to_le_bytes (7 :: u64) @ replicate 4040 0)"

definition smp_omap_leaf :: "Entry list" where
  "smp_omap_leaf = [(demo_key 1026 4, demo_val 8), (demo_key 1027 4, demo_val 9), (demo_key 1028 4, demo_val 10)]"

definition smp_inode :: "u64 \<Rightarrow> u64 \<Rightarrow> u16 \<Rightarrow> (u8 \<times> bytes) list \<Rightarrow> bytes" where
  "smp_inode parent private mode xfs = to_le_bytes parent @ to_le_bytes private @ replicate 64 0 @
     to_le_bytes mode @ replicate 10 0 @ xf_image 0 xfs []"

definition smp_drec_val :: "u64 \<Rightarrow> u16 \<Rightarrow> bytes" where
  "smp_drec_val file_id flags = to_le_bytes file_id @ replicate 8 0 @ to_le_bytes flags"

definition smp_decmpfs :: bytes where
  "smp_decmpfs = decmpfs_attr 9 3 [0xcc, 0x78, 0x79, 0x7a]"

definition smp_left :: "Entry list" where
  "smp_left =
     [(jk 2 RT_Inode, smp_inode 1 2 0x41ed []),
      (drec_key_plain (jk 2 RT_DirRec) (ascii ''a.txt''), smp_drec_val 16 8),
      (drec_key_plain (jk 2 RT_DirRec) (ascii ''b''), smp_drec_val 17 8)]"

definition smp_right :: "Entry list" where
  "smp_right =
     [(jk 16 RT_Inode, smp_inode 2 16 0x81a4 [(8, to_le_bytes (5 :: u64))]),
      (jk 16 RT_FileExtent @ to_le_bytes (0 :: u64), to_le_bytes (4096 :: u64) @ to_le_bytes (11 :: u64) @ replicate 8 0),
      (jk 17 RT_Inode, smp_inode 2 17 0x81a4 []),
      (xattr_key (jk 17 RT_Xattr) XATTR_NAME_DECMPFS, xattr_val 2 smp_decmpfs)]"

definition smp_tree :: ptree where
  "smp_tree = PNode 1026 [(jk 2 RT_Inode, PLeaf 1027 smp_left), (jk 16 RT_Inode, PLeaf 1028 smp_right)]"

definition smp_index :: "Entry list" where
  "smp_index = [(jk 2 RT_Inode, to_le_bytes (1027 :: u64)), (jk 16 RT_Inode, to_le_bytes (1028 :: u64))]"

definition smp_snaps :: "Entry list" where
  "smp_snaps =
     [(jk 4 RT_SnapMetadata, replicate 8 0 @ to_le_bytes (13 :: u64) @ replicate 34 0),
      (xattr_key (jk 0x0fffffffffffffff RT_SnapName) (ascii ''monday''), to_le_bytes (4 :: u64))]"

definition smp_blocks :: "bytes list" where
  "smp_blocks = demo_image @
     [smp_apsb 6, smp_omap_phys, node_block 4096 demo_obj 0x7 0 smp_omap_leaf,
      node_block 4096 demo_obj 0x1 1 smp_index, node_block 4096 demo_obj 0x2 0 smp_left,
      node_block 4096 demo_obj 0x2 0 smp_right, ascii ''hello'' @ replicate 4091 0,
      node_block 4096 demo_obj 0x3 0 smp_snaps, smp_apsb 4]"

abbreviation smp :: device where "smp \<equiv> cursor (concat smp_blocks)"

lemma length_ascii [simp]: "length (ascii s) = length s" by (simp add: ascii_def)

lemmas smp_entries = smp_omap_leaf_def smp_left_def smp_right_def smp_index_def smp_snaps_def
lemmas smp_values = smp_inode_def smp_drec_val_def smp_decmpfs_def decmpfs_attr_def xf_image_def xf_desc_def xf_value_def
  drec_key_plain_def xattr_key_def xattr_val_def XATTR_NAME_DECMPFS_def
lemmas node_flags = toc_entry_len_def node_footer_def BTNODE_FIXED_KV_SIZE_def BTNODE_ROOT_def BTNODE_LEAF_def

lemma smp_used:
  "node_used 7 smp_omap_leaf \<le> 4096" "node_used 1 smp_index \<le> 4096" "node_used 2 smp_left \<le> 4096"
  "node_used 2 smp_right \<le> 4096" "node_used 3 smp_snaps \<le> 4096"
  by (simp_all add: smp_entries smp_values demo_defs node_used_def node_flags)

lemma smp_lengths: "\<forall>b \<in> set smp_blocks. length b = 4096" "length smp_blocks = 14"
proof -
  have "length (smp_apsb x) = 4096" "length smp_omap_phys = 4096" for x
    by (simp_all add: smp_apsb_def smp_omap_phys_def)
  then show "\<forall>b \<in> set smp_blocks. length b = 4096"
    using demo_image_blocks(1) smp_used
    by (auto simp: smp_blocks_def demo_obj_def intro!: length_node_block)
  show "length smp_blocks = 14" using demo_image_blocks(2) by (simp add: smp_blocks_def)
qed

lemma smp_nth:
  "smp_blocks ! 5 = smp_apsb 6" "smp_blocks ! 6 = smp_omap_phys"
  "smp_blocks ! 7 = node_block 4096 demo_obj 0x7 0 smp_omap_leaf"
  "smp_blocks ! 8 = node_block 4096 demo_obj 0x1 1 smp_index"
  "smp_blocks ! 9 = node_block 4096 demo_obj 0x2 0 smp_left"
  "smp_blocks ! 10 = node_block 4096 demo_obj 0x2 0 smp_right"
  "smp_blocks ! 12 = node_block 4096 demo_obj 0x3 0 smp_snaps" "smp_blocks ! 13 = smp_apsb 4"
  by (simp_all add: smp_blocks_def nth_append demo_image_blocks(2))

text \<open>Reading a block by its number.\<close>

lemma smp_read:
  assumes "unat p < 14"
  shows "read_at smp (saturating_mul p 4096) 4096 = Ok (smp_blocks ! unat p)"
proof -
  have "unat (p * 4096) = unat p * 4096"
    using assms by (simp add: unat_word_ariths)
  moreover have "saturating_mul p 4096 = p * 4096"
    using assms by (simp add: saturating_mul_def)
  ultimately show ?thesis
    using cursor_block [OF smp_lengths(1), of "unat p" "p * 4096"] assms smp_lengths(2)
    by (simp add: read_at_def)
qed

section \<open>The volume object map\<close>

definition smp_omap :: ObjectMap where
  "smp_omap = \<lparr>om_flags = 0, om_tree_type = 0, om_tree_oid = 7, om_snapshot_tree_oid = 0\<rparr>"

lemma smp_omap_parse: "ObjectMap_parse smp_omap_phys = Ok smp_omap"
proof -
  have "cksum_ok smp_omap_phys" unfolding smp_omap_phys_def by (rule seal_cksum_ok) simp
  moreover have "le_u32 smp_omap_phys 24 = 0xb" "le_u32 smp_omap_phys 32 = 0" "le_u32 smp_omap_phys 40 = 0"
    "le_u64 smp_omap_phys 48 = 7" "le_u64 smp_omap_phys 56 = 0" "length smp_omap_phys = 4096"
    by (simp_all add: smp_omap_phys_def le_seal slice_simps)
  ultimately show ?thesis
    by (simp add: ObjectMap_parse_def ObjPhys_parse_def obj_type_def OBJ_PHYS_LEN_def OBJECT_TYPE_OMAP_def
        OMAP_PHYS_MIN_LEN_def smp_omap_def)
qed

lemma smp_omap_stored: "stored (\<lambda>a. read_verified_node smp a 4096) Omap (PLeaf 7 smp_omap_leaf)"
proof (rule stored_leaf)
  have "read_verified_node smp 7 4096 = Ok (Some (smp_blocks ! unat (7 :: u64)))"
    using smp_lengths(2)
    by (intro read_verified_node_block smp_lengths)
      (simp_all add: smp_nth node_block_cksum_ok demo_obj_def)
  then show "read_verified_node smp 7 4096 = Ok (Some (seal (node_image demo_obj 7 0
      smp_omap_leaf (replicate (4096 - node_used 7 smp_omap_leaf) 0) (node_footer 7))))"
    by (simp add: smp_nth node_block_def)
qed (simp_all add: layout_ok_def smp_omap_leaf_def demo_defs node_flags)

lemma demo_val_le [simp]: "le_u64 (demo_val p) 8 = p"
  using le_to_le_bytes(3) [of p "[]"] by (simp add: demo_val_def slice_simps)

lemma smp_resolve:
  assumes "(oid, p :: u64) \<in> {(1026, 8), (1027, 9), (1028, 10)}" and "4 \<le> xid"
  shows "\<exists>e. resolve smp smp_omap oid xid 4096 = Ok e \<and> oe_paddr e = p"
proof -
  have "resolve smp smp_omap oid xid 4096 = ok_or (omap_scan oid xid smp_omap_leaf) (OmapUnresolved oid xid)"
    using resolve_stored [OF smp_omap_stored, of smp_omap oid xid] by (simp add: smp_omap_def)
  then show ?thesis
    using assms by (auto simp: omap_scan_def smp_omap_leaf_def omap_visit_def)
qed

lemma smp_node:
  assumes "(oid, p :: u64) \<in> {(1026, 8), (1027, 9), (1028, 10)}" and "4 \<le> xid"
  shows "virtual_node smp smp_omap xid 4096 oid = Ok (Some (smp_blocks ! unat p))"
proof -
  obtain e where e: "resolve smp smp_omap oid xid 4096 = Ok e" "oe_paddr e = p"
    using smp_resolve [OF assms] by blast
  have "cksum_ok (smp_blocks ! unat p)"
    using assms(1) by (auto simp: smp_nth node_block_cksum_ok demo_obj_def)
  moreover have "unat p < 14" using assms(1) by auto
  ultimately show ?thesis
    using e smp_read [of p] by (simp add: virtual_node_def read_virtual_node_def)
qed

section \<open>The file-system tree\<close>

definition smp_volume :: "u64 \<Rightarrow> ApfsVolume" where
  "smp_volume xid = (case ApfsVolume_parse (smp_apsb xid) of Ok v \<Rightarrow> v)"

lemma smp_apsb_fields:
  "le_u64 (smp_apsb xid) 16 = xid" "le_u32 (smp_apsb xid) 24 = 0xd" "le_u32 (smp_apsb xid) 28 = 0"
  "le_u32 (smp_apsb xid) 32 = APFS_MAGIC" "le_u64 (smp_apsb xid) 128 = 6" "le_u64 (smp_apsb xid) 136 = 1026"
  "le_u64 (smp_apsb xid) 152 = 12" "length (smp_apsb xid) = 4096"
  by (simp_all add: smp_apsb_def le_seal slice_simps)

lemma smp_apsb_parse: "ApfsVolume_parse (smp_apsb xid) = Ok (smp_volume xid)"
proof -
  have "cksum_ok (smp_apsb xid)" unfolding smp_apsb_def by (rule seal_cksum_ok) simp
  then show ?thesis
    by (simp add: smp_volume_def ApfsVolume_parse_def ObjPhys_parse_def obj_type_def OBJ_PHYS_LEN_def
        OBJECT_TYPE_FS_def APSB_MIN_LEN_def OFF_VOLNAME_def VOLNAME_LEN_def smp_apsb_fields)
qed

lemma smp_volume_fields [simp]:
  "vol_xid (smp_volume xid) = xid" "vol_omap_oid (smp_volume xid) = 6" "vol_root_tree_oid (smp_volume xid) = 1026"
  "vol_snap_meta_tree_oid (smp_volume xid) = 12"
  using ApfsVolume_parse_Ok [OF smp_apsb_parse] by (simp_all add: smp_apsb_fields)

lemma smp_fs_tree:
  assumes "4 \<le> xid"
  shows "stored (virtual_node smp smp_omap xid 4096) FsTree smp_tree"
  unfolding smp_tree_def
proof (rule stored_index)
  show "virtual_node smp smp_omap xid 4096 1026 = Ok (Some (seal (node_image demo_obj 1 1 smp_index
      (replicate (4096 - node_used 1 smp_index) 0) (node_footer 1))))"
    using smp_node [of 1026 8, OF _ assms] by (simp add: smp_nth node_block_def)
  have leaf: "stored (virtual_node smp smp_omap xid 4096) FsTree (PLeaf a es)"
    if "(a, p :: u64) \<in> {(1026, 8), (1027, 9), (1028, 10)}" "smp_blocks ! unat p = node_block 4096 demo_obj 2 0 es"
      "layout_ok FsTree demo_obj 2 0 es (node_footer 2)" for a p es
    using smp_node [OF that(1) assms] that(2,3)
    by (intro stored_leaf [of _ a demo_obj 2 0 es _ "node_footer 2"]) (simp_all add: node_block_def BTNODE_LEAF_def)
  show "stored_all (virtual_node smp smp_omap xid 4096) FsTree
      [(jk 2 RT_Inode, PLeaf 1027 smp_left), (jk 16 RT_Inode, PLeaf 1028 smp_right)]"
    using leaf [of 1027 9 smp_left] leaf [of 1028 10 smp_right]
    by (simp add: smp_nth layout_ok_def smp_entries smp_values demo_obj_def node_flags)
qed (simp_all add: layout_ok_def smp_index_def demo_obj_def node_flags)

lemma smp_stored:
  assumes "4 \<le> xid"
  shows "fs_stored smp (smp_volume xid) 4096 smp_tree"
proof -
  have "read_at smp (saturating_mul 6 4096) 4096 = Ok smp_omap_phys"
    using smp_read [of 6] by (simp add: smp_nth)
  moreover have "oid_ordered smp_tree"
    by (simp add: smp_tree_def smp_left_def smp_right_def key_oid_jk key_oid_jk_alone xattr_key_def drec_key_plain_def
        word_le_nat_alt)
  ultimately show ?thesis
    using smp_fs_tree [OF assms] smp_omap_parse
    by (auto simp: fs_stored_def smp_tree_def)
qed

section \<open>What the tree holds\<close>

lemma smp_records:
  "fs_records smp_tree 2 RT_DirRec = drop 1 smp_left" "fs_records smp_tree 2 RT_Inode = take 1 smp_left"
  "fs_records smp_tree 16 RT_Inode = take 1 smp_right" "fs_records smp_tree 17 RT_Inode = [smp_right ! 2]"
  "fs_records smp_tree 16 RT_FileExtent = [smp_right ! 1]" "fs_records smp_tree 17 RT_Xattr = [smp_right ! 3]"
  "fs_records smp_tree 16 RT_Xattr = []"
  by (simp_all add: fs_records_def smp_tree_def smp_left_def smp_right_def key_oid_jk key_oid_jk_alone
      xattr_key_def drec_key_plain_def)

lemma smp_names: "valid_utf8 (ascii ''a.txt'')" "valid_utf8 (ascii ''b'')" "valid_utf8 (ascii ''monday'')"
  "valid_utf8 XATTR_NAME_DECMPFS"
  "0 \<notin> set (ascii ''a.txt'')" "0 \<notin> set (ascii ''b'')" "0 \<notin> set XATTR_NAME_DECMPFS" "0 \<notin> set (ascii ''monday'')"
  by (simp_all add: ascii_def XATTR_NAME_DECMPFS_def valid_utf8_ascii word_less_nat_alt)

lemma smp_spec_dir:
  "spec_dir smp_tree 2 =
     [\<lparr>de_name = ascii ''a.txt'', de_file_id = 16, de_date_added = 0, de_flags = 8\<rparr>,
      \<lparr>de_name = ascii ''b'', de_file_id = 17, de_date_added = 0, de_flags = 8\<rparr>]"
  using smp_names
  by (simp add: spec_dir_def smp_records smp_left_def map_filter_simps parse_dir_entry_def decode_drec_name_plain
      smp_drec_val_def slice_simps le_to_le_bytes)

lemma smp_inode_parse:
  assumes "length xfs \<le> 1" and "\<forall>f \<in> set xfs. length (snd f) < 2 ^ 16"
  shows "\<exists>i. Inode_parse oid (smp_inode parent private mode xfs) = Ok i \<and> ino_oid i = oid \<and>
    ino_private_id i = private \<and> ino_mode i = mode \<and>
    ino_size i = snd (fold inode_xfield xfs (None, None))"
proof -
  have "length xfs < 2 ^ 16" using assms(1) by simp
  then have "parse_xfields (drop 92 (smp_inode parent private mode xfs)) = Ok xfs"
    using parse_xfields_image [of xfs 0 "[]"] assms by (simp add: smp_inode_def)
  moreover have "92 < length (smp_inode parent private mode xfs)" by (simp add: smp_inode_def xf_image_def)
  moreover have "le_u64 (smp_inode parent private mode xfs) 8 = private"
    "le_u16 (smp_inode parent private mode xfs) 80 = mode"
    by (simp_all add: smp_inode_def slice_simps)
  ultimately show ?thesis
    by (cases "fold inode_xfield xfs (None, None)") (simp add: Inode_parse_def OFF_XFIELDS_def index_from_def)
qed

lemma smp_load:
  assumes "4 \<le> xid"
  shows "\<exists>i. load_inode smp (smp_volume xid) 16 4096 = Ok i \<and> ino_oid i = 16 \<and> ino_private_id i = 16 \<and>
      ino_size i = Some 5"
    and "\<exists>i. load_inode smp (smp_volume xid) 17 4096 = Ok i \<and> ino_oid i = 17"
  using smp_inode_parse [of "[(8, to_le_bytes (5 :: u64))]" 16 2 16 "0x81a4"] smp_inode_parse [of "[]" 17 2 17 "0x81a4"]
  by (auto simp: load_inode_stored [OF smp_stored [OF assms]] spec_inode_def smp_records smp_right_def
      inode_xfield_def INO_EXT_TYPE_NAME_def INO_EXT_TYPE_DSTREAM_def slice_simps)

lemma smp_spec_extents:
  "spec_extents smp_tree 16 = [\<lparr>logical_offset = 0, ext_len = 4096, phys_block_num = 11\<rparr>]"
  by (simp add: spec_extents_def smp_records smp_right_def parse_extent_def slice_simps J_FILE_EXTENT_LEN_MASK_def)

lemma smp_spec_xattr:
  "spec_xattr smp_tree 17 XATTR_NAME_DECMPFS = Some (Embedded smp_decmpfs)"
  "spec_xattr smp_tree 16 XATTR_NAME_DECMPFS = None"
  using smp_names
  by (simp_all add: spec_xattr_def spec_xattrs_def smp_records smp_right_def map_filter_simps
      parse_xattr_image XATTR_DATA_STREAM_def smp_decmpfs_def decmpfs_attr_def XATTR_NAME_DECMPFS_def)

section \<open>Contents\<close>

lemma smp_image_bytes: "take 5 (drop (11 * 4096) (concat smp_blocks)) = ascii ''hello''"
proof -
  have "drop (11 * 4096) (concat smp_blocks) = concat (drop 11 smp_blocks)"
    using smp_lengths by (intro drop_concat_blocks) simp_all
  then show ?thesis
    by (simp add: smp_blocks_def demo_image_blocks(2) ascii_def)
qed

lemma smp_length: "length (concat smp_blocks) = 57344"
  using length_concat_blocks [OF smp_lengths(1)] smp_lengths(2) by simp

lemma smp_in_image: "\<forall>e \<in> set (spec_extents smp_tree 16). extent_in_image (concat smp_blocks) 4096 5 e"
  by (simp add: smp_spec_extents extent_in_image_def smp_length del: length_concat)

lemma smp_stream: "map (stream_byte (concat smp_blocks) 4096 (spec_extents smp_tree 16)) [0..<5] = ascii ''hello''"
proof (rule nth_equalityI)
  fix i
  assume "i < length (map (stream_byte (concat smp_blocks) 4096 (spec_extents smp_tree 16)) [0..<5])"
  then have i: "i < 5" by simp
  have "concat smp_blocks ! (11 * 4096 + i) = take 5 (drop (11 * 4096) (concat smp_blocks)) ! i"
    using i smp_length by (simp del: length_concat)
  then show "map (stream_byte (concat smp_blocks) 4096 (spec_extents smp_tree 16)) [0..<5] ! i = ascii ''hello'' ! i"
    unfolding smp_image_bytes
    using i by (simp add: stream_byte_def smp_spec_extents covers_def extent_byte_def)
qed simp

lemma smp_decmpfs_file: "decmpfs_file cs smp_decmpfs fork (ascii ''xyz'')"
  using plain_9 [of cs "ascii ''xyz''" "0xcc" fork]
  by (simp add: smp_decmpfs_def ascii_def flip: numeral_3_eq_3)

lemma smp_read_data:
  assumes "4 \<le> xid"
  shows "load_inode smp (smp_volume xid) 16 4096 = Ok i \<Longrightarrow>
      read_data cs smp (smp_volume xid) i 4096 = Ok (ascii ''hello'')"
    and "load_inode smp (smp_volume xid) 17 4096 = Ok i \<Longrightarrow>
      read_data cs smp (smp_volume xid) i 4096 = Ok (ascii ''xyz'')"
proof -
  have stream: "read_stream smp (smp_volume xid) 16 5 4096 = Ok (ascii ''hello'')"
    using read_stream_cursor [OF smp_stored [OF assms], of 5 16] smp_in_image smp_stream smp_length
    by (simp add: MAX_FILE_BYTES_def del: length_concat)
  show "read_data cs smp (smp_volume xid) i 4096 = Ok (ascii ''hello'')"
    if "load_inode smp (smp_volume xid) 16 4096 = Ok i"
    using that smp_load(1) [OF assms] stream
    by (auto simp: read_data_def decmpfs_header_def get_xattr_stored [OF smp_stored [OF assms]] smp_spec_xattr)
  have "decompress_decmpfs cs smp_decmpfs None = Ok (ascii ''xyz'')"
    using decompress_file [OF smp_decmpfs_file] by (simp add: ascii_def)
  moreover have "decmpfs_le_u32 smp_decmpfs COMPRESSION_TYPE_OFFSET = Ok 9"
    unfolding smp_decmpfs_def by (rule decmpfs_attr_fields) simp
  ultimately show "read_data cs smp (smp_volume xid) i 4096 = Ok (ascii ''xyz'')"
    if "load_inode smp (smp_volume xid) 17 4096 = Ok i"
    using that smp_load(2) [OF assms]
    by (auto simp: read_data_def decmpfs_header_def get_xattr_stored [OF smp_stored [OF assms]] smp_spec_xattr
        read_compressed_def classify_def)
qed

section \<open>The snapshot tree\<close>

lemma smp_snap_stored: "snap_stored smp (smp_volume 6) 4096 (PLeaf 12 smp_snaps)"
proof -
  have "read_at smp (saturating_mul 6 4096) 4096 = Ok smp_omap_phys"
    using smp_read [of 6] by (simp add: smp_nth)
  moreover have "read_snap_node smp smp_omap 6 4096 True 12 = Ok (node_block 4096 demo_obj 3 0 smp_snaps)"
    using smp_read [of 12] node_block_cksum_ok [of demo_obj 4096 3 0 smp_snaps]
    by (simp add: read_snap_node_def smp_nth demo_obj_def)
  then have "stored (\<lambda>a. if a = root (PLeaf 12 smp_snaps)
        then and_then (read_snap_node smp smp_omap 6 4096 True a) (\<lambda>b. Ok (Some b))
        else virtual_node smp smp_omap 6 4096 a) FsTree (PLeaf 12 smp_snaps)"
    by (intro stored_leaf [of _ 12 demo_obj 3 0 smp_snaps "replicate (4096 - node_used 3 smp_snaps) 0" "node_footer 3"])
      (simp_all add: node_block_def layout_ok_def smp_entries smp_values demo_obj_def node_flags)
  ultimately show ?thesis using smp_omap_parse unfolding snap_stored_def by auto
qed

lemma smp_spec_snapshots:
  "\<exists>sn. spec_snapshots (PLeaf 12 smp_snaps) = [sn] \<and> sn_xid sn = 4 \<and> sn_sblock_oid sn = 13"
  by (simp add: spec_snapshots_def smp_snaps_def key_oid_jk_alone key_oid_jk xattr_key_def parse_snap_metadata_def
      slice_simps)

section \<open>Opening the image\<close>

lemma smp_boot_blocks:
  "smp_blocks ! 0 = demo_nx 3" "smp_blocks ! 3 = demo_omap_phys"
  "smp_blocks ! 4 = node_block 4096 demo_obj 7 0 demo_omap_leaf"
  "smp_blocks = demo_nx 3 # demo_nx 7 # demo_nx 3 # drop 3 smp_blocks"
  by (simp_all add: smp_blocks_def demo_image_def)

lemma smp_container:
  "\<exists>ms. ApfsContainer_open smp = Ok \<lparr>superblock = demo_sb 7, live_superblock_paddr = 1, checkpoint_mappings = ms\<rparr>"
proof -
  have boot: "bootstrap_ok smp (demo_sb 3)"
    using smp_read [of 0]
    by (auto simp: bootstrap_ok_def demo_nx_parse demo_sb_fields is_fusion_def block_size_ok_def read_at_def
        NX_MINIMUM_BLOCK_SIZE_def NX_MAXIMUM_BLOCK_SIZE_def saturating_mul_def smp_boot_blocks(1) split: sum.splits)
  have ring: "ring smp (demo_sb 3) = [(1, demo_nx 7), (2, demo_nx 3)]"
    by (subst smp_boot_blocks(4), rule demo_ring) (use smp_lengths in \<open>auto dest: in_set_dropD\<close>)
  then have "nx_best (ring smp (demo_sb 3)) None = Some (7, 1)"
    by (simp add: nx_best_def demo_nx_valid demo_nx_fields(1) word_less_nat_alt)
  then show ?thesis
    using open_live [OF boot demo_ring_readable] by (auto simp: ring demo_nx_parse)
qed

lemma smp_container_omap: "stored (\<lambda>a. read_verified_node smp a 4096) Omap (PLeaf 4 demo_omap_leaf)"
proof (rule stored_leaf)
  have "read_verified_node smp 4 4096 = Ok (Some (smp_blocks ! unat (4 :: u64)))"
    using smp_lengths(2)
    by (intro read_verified_node_block smp_lengths)
      (simp_all add: smp_boot_blocks(3) node_block_cksum_ok demo_obj_def)
  then show "read_verified_node smp 4 4096 = Ok (Some (seal (node_image demo_obj 7 0
      demo_omap_leaf (replicate (4096 - node_used 7 demo_omap_leaf) 0) (node_footer 7))))"
    by (simp add: smp_boot_blocks(3) node_block_def)
qed (simp_all add: layout_ok_def demo_omap_leaf_def demo_defs node_flags)

lemma smp_open_first: "open_first_volume smp = Ok (smp_volume 6, 4096)"
proof -
  obtain ms where c: "ApfsContainer_open smp = Ok \<lparr>superblock = demo_sb 7, live_superblock_paddr = 1,
      checkpoint_mappings = ms\<rparr>" using smp_container by blast
  have "volume_superblock_addrs smp \<lparr>superblock = demo_sb 7, live_superblock_paddr = 1,
      checkpoint_mappings = ms\<rparr> = Ok [5]"
    using volume_superblock_addrs_stored [of "\<lparr>superblock = demo_sb 7, live_superblock_paddr = 1,
        checkpoint_mappings = ms\<rparr>" smp demo_omap_phys _ "PLeaf 4 demo_omap_leaf", OF _ _ demo_omap_phys_parse]
      smp_container_omap smp_read [of 3] smp_boot_blocks(2)
    by (simp add: demo_sb_fields omap_scan_def demo_omap_leaf_def omap_visit_def word_le_nat_alt word_less_nat_alt
        block_size_ok_def NX_MINIMUM_BLOCK_SIZE_def NX_MAXIMUM_BLOCK_SIZE_def)
  then show ?thesis
    using c smp_read [of 5] by (simp add: open_first_volume_def demo_sb_fields smp_nth smp_apsb_parse)
qed

end
