(* ===== verification/Spaceman.thy ===== *)
theory Spaceman
  imports Lib_Container
begin

text \<open>
  \<^verbatim>\<open>src/src/spaceman.rs\<close>: checksummed object reads and the "is this block free" query over the space
  manager, chunk-info blocks and allocation bitmaps. The lemmas give the answer for a consistent
  space manager, and where the query answers "free" without having looked at an allocation bit.
\<close>

definition SM_BLOCKS_PER_CHUNK :: usize where "SM_BLOCKS_PER_CHUNK = 36"
definition SM_CHUNKS_PER_CIB :: usize where "SM_CHUNKS_PER_CIB = 40"
definition SM_DEV0 :: usize where "SM_DEV0 = 48"
definition CIB_CHUNK_INFO_COUNT :: usize where "CIB_CHUNK_INFO_COUNT = 36"
definition CIB_CHUNK_INFO :: usize where "CIB_CHUNK_INFO = 40"
definition CHUNK_INFO_LEN :: usize where "CHUNK_INFO_LEN = 32"
definition CI_BITMAP_ADDR :: usize where "CI_BITMAP_ADDR = 24"

definition read_obj_block :: "device \<Rightarrow> u64 \<Rightarrow> usize \<Rightarrow> bytes res" where
  "read_obj_block dev paddr block_size =
     and_then (read_at dev (saturating_mul paddr (word_of_nat block_size)) block_size) (\<lambda>buf.
       let stored = fletcher64_stored buf; computed = fletcher64_checksum buf in
       if stored \<noteq> computed then Err (ChecksumMismatch (le_u64 buf 8) stored computed)
       else Ok buf)"

text \<open>\<open>spaceman_range\<close> is the closure that builds the range error.\<close>

definition spaceman_range :: "string \<Rightarrow> u64 \<Rightarrow> u64 \<Rightarrow> ApfsError" where
  "spaceman_range field v cap = FieldOutOfRange ''spaceman_phys'' field v cap"

text \<open>\<^verbatim>\<open>bitmap.get(bit / 8).is_some_and(|byte| byte & (1u8 << (bit % 8)) != 0)\<close>.\<close>

definition bitmap_allocated :: "bytes \<Rightarrow> nat \<Rightarrow> bool" where
  "bitmap_allocated bitmap n =
     (if n div 8 < length bitmap then bitmap ! (n div 8) AND push_bit (n mod 8) 1 \<noteq> 0 else False)"

text \<open>Field offsets.\<close>

definition DEV_BLOCK_COUNT :: usize where [simp]: "DEV_BLOCK_COUNT = 0"
definition DEV_CHUNK_COUNT :: usize where [simp]: "DEV_CHUNK_COUNT = 8"
definition DEV_CIB_COUNT :: usize where [simp]: "DEV_CIB_COUNT = 16"
definition DEV_CAB_COUNT :: usize where [simp]: "DEV_CAB_COUNT = 20"
definition DEV_ADDR_OFFSET :: usize where [simp]: "DEV_ADDR_OFFSET = 32"

definition is_block_free :: "device \<Rightarrow> u64 \<Rightarrow> u64 \<Rightarrow> usize \<Rightarrow> bool res" where
  "is_block_free dev sm_paddr block block_size =
     and_then (read_obj_block dev sm_paddr block_size) (\<lambda>sm.
       let blocks_per_chunk = ucast (le_u32 sm SM_BLOCKS_PER_CHUNK) :: u64;
           chunks_per_cib = ucast (le_u32 sm SM_CHUNKS_PER_CIB) :: u64;
           block_count = le_u64 sm (SM_DEV0 + DEV_BLOCK_COUNT);
           chunk_count = le_u64 sm (SM_DEV0 + DEV_CHUNK_COUNT);
           cib_count = ucast (le_u32 sm (SM_DEV0 + DEV_CIB_COUNT)) :: u64;
           cab_count = ucast (le_u32 sm (SM_DEV0 + DEV_CAB_COUNT)) :: u64;
           addr_offset = unat (le_u32 sm (SM_DEV0 + DEV_ADDR_OFFSET)) in
       if blocks_per_chunk = 0 \<or> chunks_per_cib = 0
       then Err (spaceman_range ''sm_blocks_per_chunk/sm_chunks_per_cib'' 0 1)
       else if block \<ge> block_count then Err (spaceman_range ''block'' block block_count)
       else if cab_count \<noteq> 0 then Err (UnsupportedSpacemanCab cab_count)
       else and_then (div_u64 block blocks_per_chunk) (\<lambda>chunk_index.
         if chunk_index \<ge> chunk_count then Err (spaceman_range ''chunk_index'' chunk_index chunk_count)
         else and_then (div_u64 chunk_index chunks_per_cib) (\<lambda>cib_idx.
           let within_cib = unat (chunk_index mod chunks_per_cib) in
           if cib_idx \<ge> cib_count then Err (spaceman_range ''cib_index'' cib_idx cib_count)
           else let cib_paddr = le_u64 sm (addr_offset + unat cib_idx * 8) in
           and_then (read_obj_block dev cib_paddr block_size) (\<lambda>cib.
             let ci_count = unat (le_u32 cib CIB_CHUNK_INFO_COUNT) in
             if within_cib \<ge> ci_count
             then Err (spaceman_range ''chunk_info_index'' (word_of_nat within_cib) (word_of_nat ci_count))
             else let ci_off = CIB_CHUNK_INFO + within_cib * CHUNK_INFO_LEN;
                      bitmap_addr = le_u64 cib (ci_off + CI_BITMAP_ADDR) in
             if bitmap_addr = 0 then Ok True
             else and_then (read_at dev (saturating_mul bitmap_addr (word_of_nat block_size)) block_size) (\<lambda>bitmap.
               Ok (\<not> bitmap_allocated bitmap (unat (block mod blocks_per_chunk))))))))"

section \<open>Object reads\<close>

lemma read_obj_block_Ok_iff:
  "read_obj_block dev p bs = Ok buf \<longleftrightarrow>
     read_at dev (saturating_mul p (word_of_nat bs)) bs = Ok buf \<and> cksum_ok buf"
  by (auto simp: read_obj_block_def res_simps Let_def)

lemma read_obj_block_fails [no_panic, simp]: "fails_only walk_error (read_obj_block dev p bs)"
  by (auto simp: read_obj_block_def Let_def walk_error_def intro!: fails_only_and_then)

section \<open>The allocation of a block\<close>

text \<open>The fields of a space manager block the query uses, and the chunk a block belongs to.\<close>

definition chunk_of :: "bytes \<Rightarrow> u64 \<Rightarrow> u64" where
  "chunk_of sm block = block div ucast (le_u32 sm 36)"

definition cib_paddr_of :: "bytes \<Rightarrow> u64 \<Rightarrow> u64" where
  "cib_paddr_of sm block =
     le_u64 sm (unat (le_u32 sm 80) + unat (chunk_of sm block div ucast (le_u32 sm 40)) * 8)"

definition bitmap_addr_of :: "bytes \<Rightarrow> bytes \<Rightarrow> u64 \<Rightarrow> u64" where
  "bitmap_addr_of sm cib block =
     le_u64 cib (64 + unat (chunk_of sm block mod ucast (le_u32 sm 40)) * 32)"

definition spaceman_covers :: "bytes \<Rightarrow> bytes \<Rightarrow> u64 \<Rightarrow> bool" where
  "spaceman_covers sm cib block \<longleftrightarrow>
     le_u32 sm 36 \<noteq> 0 \<and> le_u32 sm 40 \<noteq> 0 \<and> block < le_u64 sm 48 \<and> le_u32 sm 68 = 0 \<and>
     chunk_of sm block < le_u64 sm 56 \<and> chunk_of sm block div ucast (le_u32 sm 40) < ucast (le_u32 sm 64) \<and>
     unat (chunk_of sm block mod ucast (le_u32 sm 40)) < unat (le_u32 cib 36)"

lemma is_block_free_covered:
  assumes "read_obj_block dev p bs = Ok sm" and "read_obj_block dev (cib_paddr_of sm block) bs = Ok cib"
    and "spaceman_covers sm cib block"
  shows "is_block_free dev p block bs =
    (if bitmap_addr_of sm cib block = 0 then Ok True
     else and_then (read_at dev (saturating_mul (bitmap_addr_of sm cib block) (word_of_nat bs)) bs) (\<lambda>bitmap.
       Ok (\<not> bitmap_allocated bitmap (unat block mod unat (le_u32 sm 36)))))"
proof -
  have "unat (block mod ucast (le_u32 sm 36)) = unat block mod unat (le_u32 sm 36)"
    by (simp add: unat_mod_distrib unat_ucast_u32)
  moreover have "(ucast (le_u32 sm 68) :: u64) = 0" "(ucast (le_u32 sm 36) :: u64) \<noteq> 0" "(ucast (le_u32 sm 40) :: u64) \<noteq> 0"
    using assms(3) by (simp_all add: spaceman_covers_def)
  moreover have "\<not> le_u64 sm 48 \<le> block" "\<not> le_u64 sm 56 \<le> chunk_of sm block"
    "\<not> ucast (le_u32 sm 64) \<le> chunk_of sm block div ucast (le_u32 sm 40)"
    "\<not> unat (le_u32 cib 36) \<le> unat (chunk_of sm block mod ucast (le_u32 sm 40))"
    using assms(3) by (simp_all add: spaceman_covers_def not_le)
  ultimately show ?thesis
    using assms(1) assms(2) [unfolded cib_paddr_of_def]
    by (simp add: is_block_free_def Let_def div_u64_def bitmap_addr_of_def
        SM_BLOCKS_PER_CHUNK_def SM_CHUNKS_PER_CIB_def SM_DEV0_def CIB_CHUNK_INFO_COUNT_def
        CIB_CHUNK_INFO_def CHUNK_INFO_LEN_def CI_BITMAP_ADDR_def add.commute flip: chunk_of_def)
qed

lemma bitmap_allocated_iff:
  "bitmap_allocated bitmap n \<longleftrightarrow> n < 8 * length bitmap \<and> bit (bitmap ! (n div 8)) (n mod 8)"
proof -
  have "n div 8 < length bitmap \<longleftrightarrow> n < 8 * length bitmap" by linarith
  moreover have "(b AND push_bit k 1 \<noteq> 0) = bit b k" if "k < 8" for b :: u8 and k
    by (simp add: and_exp_eq_0_iff_not_bit push_bit_of_1)
  ultimately show ?thesis by (simp add: bitmap_allocated_def)
qed

lemma is_block_free_fails:
  "fails_only (\<lambda>e. walk_error e \<or> (\<exists>f v c. e = FieldOutOfRange ''spaceman_phys'' f v c) \<or>
     (\<exists>n. e = UnsupportedSpacemanCab n)) (is_block_free dev p block bs)"
  unfolding is_block_free_def Let_def
  by (auto simp: div_u64_def spaceman_range_def walk_error_def
      intro!: fails_only_and_then fails_only_mono [OF read_obj_block_fails])

section \<open>The abstract allocation map\<close>

text \<open>
  The source holds the allocation map \<open>alloc\<close> of a device with \<open>n\<close> blocks: every block has its chunk-info
  entry, whose bitmap is absent for a chunk without allocated blocks and else has the block's bit.
\<close>

definition bit_stored :: "device \<Rightarrow> usize \<Rightarrow> bytes \<Rightarrow> bytes \<Rightarrow> (u64 \<Rightarrow> bool) \<Rightarrow> u64 \<Rightarrow> bool" where
  "bit_stored dev bs sm cib alloc block \<longleftrightarrow>
     (if bitmap_addr_of sm cib block = 0 then \<not> alloc block
      else \<exists>bitmap. read_at dev (saturating_mul (bitmap_addr_of sm cib block) (word_of_nat bs)) bs = Ok bitmap \<and>
        (let i = unat block mod unat (le_u32 sm 36) in
         i < 8 * length bitmap \<and> bit (bitmap ! (i div 8)) (i mod 8) = alloc block))"

definition allocation_stored :: "device \<Rightarrow> u64 \<Rightarrow> usize \<Rightarrow> u64 \<Rightarrow> (u64 \<Rightarrow> bool) \<Rightarrow> bool" where
  "allocation_stored dev p bs n alloc \<longleftrightarrow> (\<exists>sm. read_obj_block dev p bs = Ok sm \<and>
     le_u32 sm 36 \<noteq> 0 \<and> le_u32 sm 40 \<noteq> 0 \<and> le_u64 sm 48 = n \<and>
     (\<forall>block < n. \<exists>cib. read_obj_block dev (cib_paddr_of sm block) bs = Ok cib \<and> spaceman_covers sm cib block \<and>
        bit_stored dev bs sm cib alloc block))"

lemma is_block_free_bit:
  assumes "read_obj_block dev p bs = Ok sm" and "read_obj_block dev (cib_paddr_of sm block) bs = Ok cib"
    and "spaceman_covers sm cib block" and "bit_stored dev bs sm cib alloc block"
  shows "is_block_free dev p block bs = Ok (\<not> alloc block)"
  using is_block_free_covered [OF assms(1-3)] assms(4)
  by (auto simp: bit_stored_def Let_def bitmap_allocated_iff split: if_splits)

lemma is_block_free_range:
  assumes "read_obj_block dev p bs = Ok sm" and "le_u32 sm 36 \<noteq> 0" and "le_u32 sm 40 \<noteq> 0" and "le_u64 sm 48 \<le> block"
  shows "is_block_free dev p block bs = Err (FieldOutOfRange ''spaceman_phys'' ''block'' block (le_u64 sm 48))"
  using assms
  by (simp add: is_block_free_def Let_def spaceman_range_def SM_BLOCKS_PER_CHUNK_def SM_CHUNKS_PER_CIB_def SM_DEV0_def)

section \<open>Properties\<close>

text \<open>
  C28 (refinement): on a source whose space manager, chunk-info blocks and bitmaps hold an allocation map,
  the query answers that map: "free" exactly for the blocks that are not allocated, and a range error
  that names the block and the limit for every block past the device.
\<close>

theorem free_query_refines_allocation:
  assumes "allocation_stored dev p bs n alloc"
  shows "is_block_free dev p block bs =
    (if block < n then Ok (\<not> alloc block) else Err (FieldOutOfRange ''spaceman_phys'' ''block'' block n))"
proof -
  obtain sm where sm: "read_obj_block dev p bs = Ok sm" "le_u32 sm 36 \<noteq> 0" "le_u32 sm 40 \<noteq> 0" "le_u64 sm 48 = n"
    and each: "\<forall>block < n. \<exists>cib. read_obj_block dev (cib_paddr_of sm block) bs = Ok cib \<and> spaceman_covers sm cib block \<and>
        bit_stored dev bs sm cib alloc block"
    using assms by (auto simp: allocation_stored_def)
  show ?thesis
  proof (cases "block < n")
    case True
    then show ?thesis using each is_block_free_bit [OF sm(1)] by auto
  next
    case False
    then show ?thesis using is_block_free_range [OF sm(1-3)] sm(4) by simp
  qed
qed

definition demo_sm :: "u32 \<Rightarrow> bytes" where
  "demo_sm blocks_per_chunk = seal (replicate 36 0 @ to_le_bytes blocks_per_chunk @ to_le_bytes (2 :: u32) @
     replicate 4 0 @ to_le_bytes (4096 :: u64) @ to_le_bytes (2 :: u64) @ to_le_bytes (1 :: u32) @ replicate 12 0 @
     to_le_bytes (96 :: u32) @ replicate 12 0 @ to_le_bytes (2 :: u64) @ replicate 152 0)"

definition demo_cib :: bytes where
  "demo_cib = seal (replicate 36 0 @ to_le_bytes (2 :: u32) @ replicate 24 0 @ to_le_bytes (3 :: u64) @ replicate 184 0)"

definition demo_sm_blocks :: "u32 \<Rightarrow> bytes list" where
  "demo_sm_blocks n = [replicate 256 0, demo_sm n, demo_cib, 5 # replicate 255 0]"

lemma demo_sm_fields:
  "le_u32 (demo_sm n) 36 = n" "le_u32 (demo_sm n) 40 = 2" "le_u64 (demo_sm n) 48 = 4096" "le_u64 (demo_sm n) 56 = 2"
  "le_u32 (demo_sm n) 64 = 1" "le_u32 (demo_sm n) 68 = 0" "le_u32 (demo_sm n) 80 = 96" "le_u64 (demo_sm n) 96 = 2"
  "le_u32 demo_cib 36 = 2" "le_u64 demo_cib 64 = 3" "length (demo_sm n) = 256" "length demo_cib = 256"
  by (simp_all add: demo_sm_def demo_cib_def le_seal slice_simps)

lemma demo_sm_lengths: "\<forall>b \<in> set (demo_sm_blocks n). length b = 256"
  by (simp add: demo_sm_blocks_def demo_sm_fields)

lemma demo_sm_read:
  assumes "p \<in> {1, 2, 3}"
  shows "read_at (cursor (concat (demo_sm_blocks n))) (saturating_mul p 256) 256 = Ok (demo_sm_blocks n ! unat p)"
  using assms cursor_block [OF demo_sm_lengths, of 1 n "1 * 256"] cursor_block [OF demo_sm_lengths, of 2 n "2 * 256"]
    cursor_block [OF demo_sm_lengths, of 3 n "3 * 256"]
  by (auto simp: read_at_def saturating_mul_def demo_sm_blocks_def)

lemma demo_sm_objects:
  "read_obj_block (cursor (concat (demo_sm_blocks n))) 1 256 = Ok (demo_sm n)"
  "read_obj_block (cursor (concat (demo_sm_blocks n))) 2 256 = Ok demo_cib"
  using demo_sm_read [of 1 n] demo_sm_read [of 2 n] seal_cksum_ok
  by (simp_all add: read_obj_block_Ok_iff demo_sm_blocks_def demo_sm_def demo_cib_def)

text \<open>A block in chunk 0 of the sample space manager.\<close>

lemma demo_sm_chunk0:
  assumes "unat block < unat n" and "unat block < 4096"
  shows "chunk_of (demo_sm n) block = 0" and "cib_paddr_of (demo_sm n) block = 2"
    and "bitmap_addr_of (demo_sm n) demo_cib block = 3" and "spaceman_covers (demo_sm n) demo_cib block"
proof -
  have n: "n \<noteq> 0" using assms(1) by auto
  have "unat (chunk_of (demo_sm n) block) = 0"
    using assms(1) by (simp add: chunk_of_def demo_sm_fields unat_div_distrib unat_ucast_u32)
  then show c: "chunk_of (demo_sm n) block = 0" by (metis unsigned_eq_0_iff)
  show "cib_paddr_of (demo_sm n) block = 2" "bitmap_addr_of (demo_sm n) demo_cib block = 3"
    by (simp_all add: cib_paddr_of_def bitmap_addr_of_def c demo_sm_fields)
  show "spaceman_covers (demo_sm n) demo_cib block"
    using assms(2) n by (simp add: spaceman_covers_def c demo_sm_fields word_less_nat_alt)
qed

text \<open>Two chunks of 2048 blocks, the second without a bitmap; blocks 0 and 2 are allocated.\<close>

lemma demo_allocation: "allocation_stored (cursor (concat (demo_sm_blocks 2048))) 1 256 4096 (\<lambda>block. block \<in> {0, 2})"
proof -
  let ?dev = "cursor (concat (demo_sm_blocks 2048))"
  have "read_obj_block ?dev (cib_paddr_of (demo_sm 2048) block) 256 = Ok demo_cib \<and>
      spaceman_covers (demo_sm 2048) demo_cib block \<and> bit_stored ?dev 256 (demo_sm 2048) demo_cib (\<lambda>block. block \<in> {0, 2}) block"
    if "block < 4096" for block :: u64
  proof (cases "unat block < 2048")
    case True
    have bits: "bit ((5 # replicate 255 0 :: bytes) ! (i div 8)) (i mod 8) \<longleftrightarrow> i \<in> {0, 2}" if "i < 2048" for i
    proof (cases "i < 8")
      case True
      then have "i \<in> {0, 1, 2, 3, 4, 5, 6, 7}" by auto
      then show ?thesis by auto
    next
      case False
      then have "(5 # replicate 255 0 :: bytes) ! (i div 8) = 0" using that by (simp add: nth_Cons' div_eq_0_iff)
      with False show ?thesis by simp
    qed
    have "unat block \<in> {0, 2} \<longleftrightarrow> block \<in> {0, 2}" by (auto simp: word_unat_eq_iff)
    then show ?thesis
      using True demo_sm_chunk0 [of block 2048] demo_sm_objects [of 2048] demo_sm_read [of 3 2048] bits [OF True]
      by (auto simp: bit_stored_def demo_sm_blocks_def demo_sm_fields)
  next
    case False
    have "unat block < 4096" using that by (simp add: word_less_nat_alt)
    with False have "unat block div 2048 = 1" by linarith
    then have "unat (chunk_of (demo_sm 2048) block) = unat (1 :: u64)"
      by (simp add: chunk_of_def demo_sm_fields unat_div_distrib)
    then have c: "chunk_of (demo_sm 2048) block = 1" by (simp only: word_unat_eq_iff)
    have "le_u64 demo_cib 96 = 0" by (simp add: demo_cib_def le_seal slice_simps)
    then have "cib_paddr_of (demo_sm 2048) block = 2" "bitmap_addr_of (demo_sm 2048) demo_cib block = 0"
      "spaceman_covers (demo_sm 2048) demo_cib block"
      using that by (simp_all add: cib_paddr_of_def bitmap_addr_of_def spaceman_covers_def c demo_sm_fields word_less_nat_alt)
    moreover have "block \<notin> {0, 2}" using False by auto
    ultimately show ?thesis using demo_sm_objects [of 2048] by (simp add: bit_stored_def)
  qed
  then show ?thesis
    using demo_sm_objects(1) [of 2048] by (auto simp: allocation_stored_def demo_sm_fields)
qed

theorem free_query_refines_allocation_witness:
  "is_block_free (cursor (concat (demo_sm_blocks 2048))) 1 1 256 = Ok True \<and>
   is_block_free (cursor (concat (demo_sm_blocks 2048))) 1 2 256 = Ok False \<and>
   is_block_free (cursor (concat (demo_sm_blocks 2048))) 1 3000 256 = Ok True \<and>
   is_block_free (cursor (concat (demo_sm_blocks 2048))) 1 5000 256 = Err (FieldOutOfRange ''spaceman_phys'' ''block'' 5000 4096)"
  by (simp add: free_query_refines_allocation [OF demo_allocation] word_less_nat_alt)

text \<open>
  C40 (safety): where a chunk has more blocks than its bitmap block has bits, the query does not report
  the inconsistency: every block whose bit lies past the bitmap is answered "free".
\<close>

theorem block_beyond_bitmap_reported_free:
  assumes "read_obj_block dev p bs = Ok sm" and "read_obj_block dev (cib_paddr_of sm block) bs = Ok cib"
    and "spaceman_covers sm cib block"
    and "read_at dev (saturating_mul (bitmap_addr_of sm cib block) (word_of_nat bs)) bs = Ok bitmap"
    and "8 * length bitmap \<le> unat block mod unat (le_u32 sm 36)"
  shows "is_block_free dev p block bs = Ok True"
  using is_block_free_covered [OF assms(1-3)] assms(4,5) by (simp add: bitmap_allocated_iff)

theorem block_beyond_bitmap_reported_free_witness:
  "is_block_free (cursor (concat (demo_sm_blocks 4096))) 1 3000 256 = Ok True"
proof -
  have "unat (3000 :: u64) < unat (4096 :: u32)" "unat (3000 :: u64) < 4096" by simp_all
  note c = demo_sm_chunk0 [OF this]
  show ?thesis
    by (rule block_beyond_bitmap_reported_free [of _ _ _ "demo_sm 4096" _ demo_cib "5 # replicate 255 0"])
      (use demo_sm_objects [of 4096] demo_sm_read [of 3 4096] c in
        \<open>simp_all add: demo_sm_blocks_def demo_sm_fields\<close>)
qed

end
