(* ===== verification/Reaper.thy ===== *)
theory Reaper
  imports Spaceman
begin

text \<open>
  \<^verbatim>\<open>src/src/reaper.rs\<close>: the objects pending deletion, collected over the chain of reap lists, whose
  ephemeral oids are resolved through the checkpoint mappings. The chain comes from the image: the
  lemmas show that the walk ends on every chain and is complete on every well-formed one.
\<close>

definition MAX_REAP_LISTS :: usize where "MAX_REAP_LISTS = 4096"

text \<open>Offsets in the reaper, in a reap list and in a list entry.\<close>

definition NR_HEAD :: usize where [simp]: "NR_HEAD = 48"
definition NR_TYPE :: usize where [simp]: "NR_TYPE = 72"
definition NR_OID :: usize where [simp]: "NR_OID = 88"
definition NRL_NEXT :: usize where [simp]: "NRL_NEXT = 32"
definition NRL_COUNT :: usize where [simp]: "NRL_COUNT = 48"
definition NRL_ENTRIES :: usize where [simp]: "NRL_ENTRIES = 64"
definition NRLE_LEN :: usize where [simp]: "NRLE_LEN = 40"
definition NRLE_TYPE :: usize where [simp]: "NRLE_TYPE = 8"
definition NRLE_OID :: usize where [simp]: "NRLE_OID = 24"

record ReapPending =
  rp_oid :: u64
  rp_obj_type :: u32

text \<open>The entries of one reap list that name an object.\<close>

definition reap_entries :: "bytes \<Rightarrow> usize \<Rightarrow> ReapPending list" where
  "reap_entries reap_list max_entries =
     (let count = min (unat (le_u32 reap_list NRL_COUNT)) max_entries in
      List.map_filter
        (\<lambda>i. let e = NRL_ENTRIES + i * NRLE_LEN; oid = le_u64 reap_list (e + NRLE_OID) in
           if oid \<noteq> 0 then Some \<lparr>rp_oid = oid, rp_obj_type = le_u32 reap_list (e + NRLE_TYPE)\<rparr> else None)
        [0..<count])"

text \<open>
  The loop over the chain. \<open>seen\<close> is the hash set of visited oids, as a list without duplicates
  whose length is the set's size.
\<close>

function reap_loop ::
  "device \<Rightarrow> CheckpointMapping list \<Rightarrow> usize \<Rightarrow> usize \<Rightarrow> u64 \<Rightarrow> u64 list \<Rightarrow> ReapPending list \<Rightarrow>
     ReapPending list res" where
  "reap_loop dev cp_maps block_size max_entries next_oid seen out =
     (if next_oid = 0 then Ok out
      else if next_oid \<in> set seen \<or> length (next_oid # seen) > MAX_REAP_LISTS
      then Err (CycleGuard MAX_REAP_LISTS)
      else and_then (ok_or (map_option cpm_paddr (List.find (\<lambda>m. cpm_oid m = next_oid) cp_maps))
                       (OmapUnresolved next_oid 0)) (\<lambda>paddr.
        and_then (read_obj_block dev paddr block_size) (\<lambda>reap_list.
          reap_loop dev cp_maps block_size max_entries (le_u64 reap_list NRL_NEXT) (next_oid # seen)
            (out @ reap_entries reap_list max_entries))))"
  by pat_completeness auto
termination
  by (relation "measure (\<lambda>(dev, ms, bs, me, oid, seen, out). 4096 - length seen)")
    (auto simp: MAX_REAP_LISTS_def)

declare reap_loop.simps [simp del]

definition pending_objects ::
  "device \<Rightarrow> u64 \<Rightarrow> CheckpointMapping list \<Rightarrow> usize \<Rightarrow> ReapPending list res" where
  "pending_objects dev paddr cp_maps block_size =
     and_then (read_obj_block dev paddr block_size) (\<lambda>reaper.
       let nr_oid = le_u64 reaper NR_OID;
           out = (if nr_oid \<noteq> 0 then [\<lparr>rp_oid = nr_oid, rp_obj_type = le_u32 reaper NR_TYPE\<rparr>] else []);
           max_entries = (block_size - NRL_ENTRIES) div NRLE_LEN in
       reap_loop dev cp_maps block_size max_entries (le_u64 reaper NR_HEAD) [] out)"

section \<open>Reap lists as the format lays them out\<close>

text \<open>\<^verbatim>\<open>nx_reap_list_entry_t\<close>, forty bytes.\<close>

record reap_entry =
  re_next :: u32
  re_flags :: u32
  re_type :: u32
  re_size :: u32
  re_fs_oid :: u64
  re_oid :: u64
  re_xid :: u64

definition reap_entry_image :: "reap_entry \<Rightarrow> bytes" where
  "reap_entry_image e = to_le_bytes (re_next e) @ to_le_bytes (re_flags e) @ to_le_bytes (re_type e) @
     to_le_bytes (re_size e) @ to_le_bytes (re_fs_oid e) @ to_le_bytes (re_oid e) @ to_le_bytes (re_xid e)"

text \<open>
  A block that holds a reap list: the object header, the oid of the next list, flags and capacity, the
  number of entries, three list indices, the entries, free space.
\<close>

definition holds_reap_list :: "usize \<Rightarrow> u64 \<Rightarrow> reap_entry list \<Rightarrow> bytes \<Rightarrow> bool" where
  "holds_reap_list bs nxt es l \<longleftrightarrow> length l = bs \<and> length es < 2 ^ 32 \<and>
     (\<exists>hdr caps idx free. length hdr = 32 \<and> length caps = 8 \<and> length idx = 12 \<and>
        l = hdr @ to_le_bytes nxt @ caps @ to_le_bytes (word_of_nat (length es) :: u32) @ idx @
            concat (map reap_entry_image es) @ free)"

text \<open>A block that holds the reaper: its first list and the object in progress, with other fields between.\<close>

definition holds_reaper :: "u64 \<Rightarrow> u32 \<Rightarrow> u64 \<Rightarrow> bytes \<Rightarrow> bool" where
  "holds_reaper head ty oid r \<longleftrightarrow> (\<exists>before between sizes after. length before = 48 \<and> length between = 16 \<and> length sizes = 12 \<and>
     r = before @ to_le_bytes head @ between @ to_le_bytes ty @ sizes @ to_le_bytes oid @ after)"

text \<open>The objects that given entries put on the list: those with an object id.\<close>

definition queued :: "reap_entry list \<Rightarrow> ReapPending list" where
  "queued es = map (\<lambda>e. \<lparr>rp_oid = re_oid e, rp_obj_type = re_type e\<rparr>) (filter (\<lambda>e. re_oid e \<noteq> 0) es)"

lemma length_reap_entry_image [simp]: "length (reap_entry_image e) = 40"
  by (simp add: reap_entry_image_def)

lemma length_reap_entry_images: "length (concat (map reap_entry_image es)) = 40 * length es"
  by (induction es) simp_all

lemma reap_entry_fields:
  assumes "holds_reap_list bs nxt es l" and "i < length es"
  shows "le_u32 l (64 + i * 40 + 8) = re_type (es ! i)" and "le_u64 l (64 + i * 40 + 24) = re_oid (es ! i)"
proof -
  obtain hdr caps idx free where l: "length hdr = 32" "length caps = 8" "length idx = 12"
    "l = hdr @ to_le_bytes nxt @ caps @ to_le_bytes (word_of_nat (length es) :: u32) @ idx @ concat (map reap_entry_image es) @ free"
    using assms(1) by (auto simp: holds_reap_list_def)
  define front where "front = hdr @ to_le_bytes nxt @ caps @ to_le_bytes (word_of_nat (length es) :: u32) @ idx @
      concat (map reap_entry_image (take i es))"
  have "l = front @ reap_entry_image (es ! i) @ concat (map reap_entry_image (drop (Suc i) es)) @ free"
    unfolding l(4) front_def by (subst id_take_nth_drop [OF assms(2)]) simp
  moreover have "length front = 64 + i * 40"
    using l(1-3) assms(2) by (simp add: front_def length_reap_entry_images del: length_concat)
  ultimately show "le_u32 l (64 + i * 40 + 8) = re_type (es ! i)" "le_u64 l (64 + i * 40 + 24) = re_oid (es ! i)"
    by (simp_all add: reap_entry_image_def slice_simps)
qed

lemma map_filter_queued: "List.map_filter (\<lambda>x. if P x then Some (f x) else None) xs = map f (filter P xs)"
  by (induction xs) (simp_all add: map_filter_simps)

lemma map_filter_cong: "(\<And>x. x \<in> set xs \<Longrightarrow> f x = g x) \<Longrightarrow> List.map_filter f xs = List.map_filter g xs"
  by (induction xs) (auto simp: map_filter_simps split: option.split)

lemma reap_entries_written:
  assumes "holds_reap_list bs nxt es l"
  shows "reap_entries l ((bs - 64) div 40) = queued es" and "le_u64 l 32 = nxt"
proof -
  obtain hdr caps idx free where l: "length hdr = 32" "length caps = 8" "length idx = 12"
    "l = hdr @ to_le_bytes nxt @ caps @ to_le_bytes (word_of_nat (length es) :: u32) @ idx @ concat (map reap_entry_image es) @ free"
    and len: "length l = bs" "length es < 2 ^ 32"
    using assms by (auto simp: holds_reap_list_def)
  show "le_u64 l 32 = nxt" using l by (simp add: slice_simps)
  have "le_u32 l 48 = word_of_nat (length es)" using l by (simp add: slice_simps)
  then have "unat (le_u32 l 48) = length es" using len(2) by (simp add: unat_of_nat)
  moreover have "64 + 40 * length es \<le> bs" using l len(1) by (simp add: length_reap_entry_images del: length_concat)
  ultimately have count: "min (unat (le_u32 l 48)) ((bs - 64) div 40) = length es" by simp
  have "reap_entries l ((bs - 64) div 40) =
      List.map_filter (\<lambda>i. if re_oid (es ! i) \<noteq> 0 then Some \<lparr>rp_oid = re_oid (es ! i), rp_obj_type = re_type (es ! i)\<rparr> else None)
        [0..<length es]"
    unfolding reap_entries_def Let_def NRL_COUNT_def count
    using reap_entry_fields [OF assms] by (intro map_filter_cong) (simp_all add: Let_def)
  also have "\<dots> = map (\<lambda>e. \<lparr>rp_oid = re_oid e, rp_obj_type = re_type e\<rparr>) (filter (\<lambda>e. re_oid e \<noteq> 0) (map ((!) es) [0..<length es]))"
    by (simp add: map_filter_queued filter_map comp_def)
  finally show "reap_entries l ((bs - 64) div 40) = queued es" by (simp add: queued_def map_nth)
qed

text \<open>The lists of entries \<open>ls\<close>, with their oids, form the chain that starts at \<open>oid\<close>.\<close>

fun reap_chain :: "device \<Rightarrow> CheckpointMapping list \<Rightarrow> usize \<Rightarrow> u64 \<Rightarrow> (u64 \<times> reap_entry list) list \<Rightarrow> bool" where
  "reap_chain dev ms bs oid [] \<longleftrightarrow> oid = 0"
| "reap_chain dev ms bs oid ((o', es) # ls) \<longleftrightarrow> oid = o' \<and> oid \<noteq> 0 \<and>
     (\<exists>p l nxt. map_option cpm_paddr (List.find (\<lambda>m. cpm_oid m = oid) ms) = Some p \<and> read_obj_block dev p bs = Ok l \<and>
        holds_reap_list bs nxt es l \<and> reap_chain dev ms bs nxt ls)"

lemma reap_loop_chain:
  "reap_chain dev ms bs oid ls \<Longrightarrow> distinct (map fst ls) \<Longrightarrow> set seen \<inter> set (map fst ls) = {} \<Longrightarrow>
     length seen + length ls \<le> 4096 \<Longrightarrow>
     reap_loop dev ms bs ((bs - 64) div 40) oid seen out = Ok (out @ concat (map (\<lambda>l. queued (snd l)) ls))"
proof (induction ls arbitrary: oid seen out)
  case Nil
  then show ?case by (simp add: reap_loop.simps)
next
  case (Cons l ls)
  obtain a es where l: "l = (a, es)" by (cases l)
  obtain p b nxt where p: "map_option cpm_paddr (List.find (\<lambda>m. cpm_oid m = oid) ms) = Some p"
    "read_obj_block dev p bs = Ok b" "oid = a" "oid \<noteq> 0" "holds_reap_list bs nxt es b" "reap_chain dev ms bs nxt ls"
    using Cons.prems(1) by (auto simp: l)
  have "reap_loop dev ms bs ((bs - 64) div 40) nxt (oid # seen) (out @ queued es) =
      Ok ((out @ queued es) @ concat (map (\<lambda>l. queued (snd l)) ls))"
    using Cons.prems p(3,6) by (intro Cons.IH) (auto simp: l)
  then show ?case
    using Cons.prems p reap_entries_written [OF p(5)] by (subst reap_loop.simps) (auto simp: l MAX_REAP_LISTS_def)
qed

text \<open>On any image the walk of the chain ends, with the named errors at worst.\<close>

definition reap_error :: "ApfsError \<Rightarrow> bool" where
  "reap_error e \<longleftrightarrow> walk_error e \<or> e = CycleGuard 4096 \<or> (\<exists>oid. e = OmapUnresolved oid 0)"

lemma reap_error_simps: "walk_error e \<Longrightarrow> reap_error e" "reap_error (CycleGuard 4096)" "reap_error (OmapUnresolved oid 0)"
  by (auto simp: reap_error_def)

lemma reap_loop_fails: "fails_only reap_error (reap_loop dev ms bs me oid seen out)"
proof (induction dev ms bs me oid seen out rule: reap_loop.induct)
  case (1 dev ms bs me oid seen out)
  then show ?case
    by (subst reap_loop.simps)
      (auto simp: reap_error_simps MAX_REAP_LISTS_def intro!: fails_only_and_then fails_only_mono [OF read_obj_block_fails])
qed

text \<open>The number of pending objects is bounded by the caps, whatever the image says.\<close>

lemma reap_loop_bound:
  "reap_loop dev ms bs me oid seen out = Ok res \<Longrightarrow>
     length res \<le> length out + (4096 - length seen) * me"
proof (induction dev ms bs me oid seen out rule: reap_loop.induct)
  case (1 dev ms bs me oid seen out)
  have ents: "length (reap_entries l me) \<le> me" for l
    using length_map_filter_le [of _ "[0..<min (unat (le_u32 l 48)) me]"]
    by (auto simp: reap_entries_def Let_def intro: order_trans)
  show ?case
  proof (cases "oid = 0")
    case True
    then show ?thesis using "1.prems" by (subst (asm) reap_loop.simps) simp
  next
    case False
    then obtain p l where step: "oid \<notin> set seen" "length seen < 4096"
      "map_option cpm_paddr (List.find (\<lambda>m. cpm_oid m = oid) ms) = Some p" "read_obj_block dev p bs = Ok l"
      "reap_loop dev ms bs me (le_u64 l 32) (oid # seen) (out @ reap_entries l me) = Ok res"
      using "1.prems" by (subst (asm) reap_loop.simps) (auto simp: res_simps MAX_REAP_LISTS_def split: if_splits)
    have "length res \<le> length (out @ reap_entries l me) + (4096 - length (oid # seen)) * me"
      using "1.IH" [of p l] False step by (auto simp: MAX_REAP_LISTS_def)
    moreover have "(4096 - length (oid # seen)) * me + me = (4096 - length seen) * me"
      using step(2) Suc_diff_Suc [of "length seen" 4096] by (metis add.commute length_Cons mult_Suc)
    ultimately show ?thesis using ents [of l] by simp
  qed
qed

section \<open>Properties\<close>

text \<open>
  C29 (functional): on a source whose reaper block names a first reap list, and whose blocks hold a chain of at most
  4096 different lists of any entries as the format lays them out, the pending objects are the
  reaper's own object, when it has one, followed by the object and type of every entry that names an
  object, list after list and in the order of the entries.
\<close>

theorem pending_objects_complete:
  assumes "read_obj_block dev p bs = Ok reaper" and "holds_reaper head ty oid reaper" and "reap_chain dev ms bs head ls"
    and "distinct (map fst ls)" and "length ls \<le> 4096"
  shows "pending_objects dev p ms bs =
    Ok ((if oid = 0 then [] else [\<lparr>rp_oid = oid, rp_obj_type = ty\<rparr>]) @
        concat (map (\<lambda>(o', es). map (\<lambda>e. \<lparr>rp_oid = re_oid e, rp_obj_type = re_type e\<rparr>) (filter (\<lambda>e. re_oid e \<noteq> 0) es)) ls))"
proof -
  have "le_u64 reaper 48 = head" "le_u32 reaper 72 = ty" "le_u64 reaper 88 = oid"
    using assms(2) by (auto simp: holds_reaper_def slice_simps)
  then show ?thesis
    using reap_loop_chain [OF assms(3,4), of "[]"] assms(1,5)
    by (simp add: pending_objects_def Let_def queued_def case_prod_unfold)
qed

definition demo_reaper :: bytes where
  "demo_reaper = seal (replicate 48 0 @ to_le_bytes (70 :: u64) @ replicate 16 0 @ to_le_bytes (13 :: u32) @ replicate 12 0 @
     to_le_bytes (500 :: u64) @ replicate 160 0)"

definition demo_reap_entries :: "reap_entry list" where
  "demo_reap_entries = map (\<lambda>(ty, oid). \<lparr>re_next = 0, re_flags = 1, re_type = ty, re_size = 0, re_fs_oid = 9, re_oid = oid, re_xid = 6\<rparr>)
     [(2, 600), (3, 0), (11, 601)]"

definition demo_reap_list :: bytes where
  "demo_reap_list = seal (replicate 32 0 @ to_le_bytes (0 :: u64) @ replicate 8 0 @ to_le_bytes (3 :: u32) @ replicate 12 0 @
     concat (map reap_entry_image demo_reap_entries) @ replicate 72 0)"

definition demo_reap_maps :: "CheckpointMapping list" where
  "demo_reap_maps = [\<lparr>cpm_oid = 70, cpm_paddr = 2, cpm_obj_type = 0, cpm_subtype = 0\<rparr>]"

definition demo_reap_image :: bytes where
  "demo_reap_image = concat [replicate 256 0, demo_reaper, demo_reap_list]"

lemma demo_reap_objects:
  "read_obj_block (cursor demo_reap_image) 1 256 = Ok demo_reaper"
  "read_obj_block (cursor demo_reap_image) 2 256 = Ok demo_reap_list"
proof -
  have len: "\<forall>b \<in> set [replicate 256 0, demo_reaper, demo_reap_list]. length b = 256"
    by (simp add: demo_reaper_def demo_reap_list_def length_reap_entry_images demo_reap_entries_def del: length_concat)
  have "cksum_ok demo_reaper" "cksum_ok demo_reap_list"
    unfolding demo_reaper_def demo_reap_list_def by (auto intro!: seal_cksum_ok)
  then show "read_obj_block (cursor demo_reap_image) 1 256 = Ok demo_reaper"
    "read_obj_block (cursor demo_reap_image) 2 256 = Ok demo_reap_list"
    using cursor_block [OF len, of 1 256] cursor_block [OF len, of 2 512]
    by (simp_all add: read_obj_block_Ok_iff read_at_def saturating_mul_def demo_reap_image_def del: concat.simps)
qed

lemma seal_header: "8 \<le> length h \<Longrightarrow> \<exists>h'. length h' = length h \<and> seal (h @ b) = h' @ b"
  by (intro exI [of _ "to_le_bytes (fletcher64_checksum (h @ b)) @ drop 8 h"]) (simp add: seal_def)

lemma demo_reap_layout:
  "holds_reaper 70 13 500 demo_reaper" "holds_reap_list 256 0 demo_reap_entries demo_reap_list"
proof -
  have long: "8 \<le> length (replicate 48 (0 :: u8))" "8 \<le> length (replicate 32 (0 :: u8))" by simp_all
  let ?r = "to_le_bytes (70 :: u64) @ replicate 16 0 @ to_le_bytes (13 :: u32) @ replicate 12 0 @ to_le_bytes (500 :: u64) @ replicate 160 0"
  obtain g where "length g = 48" "demo_reaper = g @ ?r"
    unfolding demo_reaper_def using seal_header [OF long(1), of ?r] unfolding length_replicate by blast
  then show "holds_reaper 70 13 500 demo_reaper"
    unfolding holds_reaper_def
    by (intro exI [of _ g] exI [of _ "replicate 16 0"] exI [of _ "replicate 12 0"] exI [of _ "replicate 160 0"]) simp
  let ?b = "to_le_bytes (0 :: u64) @ replicate 8 0 @ to_le_bytes (3 :: u32) @ replicate 12 0 @
      concat (map reap_entry_image demo_reap_entries) @ replicate 72 0"
  obtain h where h: "length h = 32" "demo_reap_list = h @ ?b"
    unfolding demo_reap_list_def using seal_header [OF long(2), of ?b] unfolding length_replicate by blast
  have three: "length demo_reap_entries = 3" by (simp add: demo_reap_entries_def)
  show "holds_reap_list 256 0 demo_reap_entries demo_reap_list"
    unfolding holds_reap_list_def h(2) three
    by (intro conjI exI [of _ h] exI [of _ "replicate 8 0"] exI [of _ "replicate 12 0"] exI [of _ "replicate 72 0"])
      (simp_all add: h(1) length_reap_entry_images three del: length_concat)
qed

theorem pending_objects_complete_witness:
  "pending_objects (cursor demo_reap_image) 1 demo_reap_maps 256 =
     Ok [\<lparr>rp_oid = 500, rp_obj_type = 13\<rparr>, \<lparr>rp_oid = 600, rp_obj_type = 2\<rparr>, \<lparr>rp_oid = 601, rp_obj_type = 11\<rparr>]"
proof -
  have "reap_chain (cursor demo_reap_image) demo_reap_maps 256 70 [(70, demo_reap_entries)]"
    using demo_reap_objects(2) demo_reap_layout(2) by (auto simp: demo_reap_maps_def)
  from pending_objects_complete [OF demo_reap_objects(1) demo_reap_layout(1) this] show ?thesis
    by (simp add: demo_reap_entries_def)
qed

text \<open>
  On any image, cyclic chains included, the walk ends: with at most one object
  more than 4096 full lists hold, or with a checksum, I/O, unresolved or cycle error, never a panic.
\<close>

lemma pending_objects_outcome:
  "case pending_objects dev p ms bs of
     Ok out \<Rightarrow> length out \<le> 1 + 4096 * ((bs - 64) div 40) | Err e \<Rightarrow> reap_error e | Panic \<Rightarrow> False"
proof -
  have fails: "fails_only reap_error (pending_objects dev p ms bs)"
    unfolding pending_objects_def Let_def
    by (intro fails_only_and_then reap_loop_fails fails_only_mono [OF read_obj_block_fails]) (simp add: reap_error_simps)
  moreover have "length out \<le> 1 + 4096 * ((bs - 64) div 40)" if "pending_objects dev p ms bs = Ok out" for out
    using that by (auto simp: pending_objects_def Let_def res_simps split: if_splits dest!: reap_loop_bound)
  ultimately show ?thesis by (cases "pending_objects dev p ms bs") simp_all
qed

end
