(* ===== verification/Damage.thy ===== *)
theory Damage
  imports Snapshot Compression Reaper
begin

text \<open>
  What happens when the source is not the one that was written: two sources compared, read by read.
  Damaged blocks: every metadata read of the crate (object maps, tree nodes, superblocks) is gated by
  a checksum, so on a source with damaged blocks each navigation call either gives the outcome it gives
  on the intact source or refuses with a checksum or type error. Later transactions: what is read at a
  transaction id does not depend on mappings added after it.
\<close>

section \<open>Damaged blocks\<close>

text \<open>The errors with which a block is refused.\<close>

definition refusal :: "ApfsError \<Rightarrow> bool" where
  "refusal e \<longleftrightarrow> (\<exists>b x y. e = ChecksumMismatch b x y \<and> x \<noteq> y) \<or> (\<exists>w x y. e = UnexpectedObjectType w x y)"

text \<open>
  The offsets at which the crate reads blocks: multiples of the block size, or the saturated product.
  At each of them the second source reads as the first one does, or a block whose checksum is wrong.
\<close>

definition block_offset :: "usize \<Rightarrow> u64 \<Rightarrow> bool" where
  "block_offset bs off \<longleftrightarrow> bs dvd unat off \<or> off = 0xffffffffffffffff"

definition damaged :: "usize \<Rightarrow> device \<Rightarrow> device \<Rightarrow> bool" where
  "damaged bs dev dev' \<longleftrightarrow> (\<forall>off. block_offset bs off \<longrightarrow>
     dev' off bs = dev off bs \<or> (\<exists>buf. dev' off bs = Inr buf \<and> \<not> cksum_ok buf))"

lemma damaged_read:
  assumes "damaged bs dev dev'" and "block_offset bs off"
  obtains "read_at dev' off bs = read_at dev off bs"
    | buf where "read_at dev' off bs = Ok buf" and "\<not> cksum_ok buf"
  using assms by (fastforce simp: damaged_def read_at_def)

text \<open>A gate that refuses every block with a wrong checksum turns damage into a refusal.\<close>

lemma gated_read:
  assumes "damaged bs dev dev'" and "block_offset bs off"
    and "\<And>buf. \<not> cksum_ok buf \<Longrightarrow> \<exists>e. gate buf = Err e \<and> refusal e"
  shows "same_unless refusal (and_then (read_at dev off bs) gate) (and_then (read_at dev' off bs) gate)"
  using damaged_read [OF assms(1,2)] assms(3) by cases (auto simp: same_unless_def)

lemma block_offset_mul [simp]:
  assumes "bs < 2 ^ 64"
  shows "block_offset bs (saturating_mul p (word_of_nat bs))"
    and "checked_mul p (word_of_nat bs) = Some off \<Longrightarrow> block_offset bs off"
proof -
  have bs: "unat (word_of_nat bs :: u64) = bs" using assms by (simp add: unat_of_nat)
  show "block_offset bs (saturating_mul p (word_of_nat bs))"
    using bs by (auto simp: block_offset_def saturating_mul_def unat_word_ariths)
  show "checked_mul p (word_of_nat bs) = Some off \<Longrightarrow> block_offset bs off"
    using unat_checked_mul [of p "word_of_nat bs" off] bs by (simp add: block_offset_def)
qed

subsection \<open>Object maps and nodes\<close>

lemma read_verified_node_damaged:
  assumes "damaged bs dev dev'" and "bs < 2 ^ 64"
  shows "same_unless refusal (read_verified_node dev p bs) (read_verified_node dev' p bs)"
proof (cases "checked_mul p (word_of_nat bs)")
  case (Some off)
  then show ?thesis
    using block_offset_mul(2) [OF assms(2) Some]
    by (auto simp: read_verified_node_def refusal_def Let_def intro!: gated_read [OF assms(1)])
qed (simp add: read_verified_node_def)

lemma find_leaf_damaged:
  assumes "damaged bs dev dev'" and "bs < 2 ^ 64"
  shows "same_unless refusal (find_leaf dev a bs st cmp visit s) (find_leaf dev' a bs st cmp visit s)"
proof -
  have "same_unless refusal (find_leaf_loop dev bs st cmp visit n V a s) (find_leaf_loop dev' bs st cmp visit n V a s)" for n V a
    by (induction n arbitrary: V a)
      (auto intro!: same_unless_and_then read_verified_node_damaged [OF assms] split: option.split list.split)
  then show ?thesis by (simp add: find_leaf_def)
qed

lemma resolve_damaged:
  assumes "damaged bs dev dev'" and "bs < 2 ^ 64"
  shows "same_unless refusal (resolve dev om oid xid bs) (resolve dev' om oid xid bs)"
  unfolding resolve_def by (intro same_unless_and_then find_leaf_damaged [OF assms]) simp

lemma read_virtual_node_damaged:
  assumes "damaged bs dev dev'" and "bs < 2 ^ 64"
  shows "same_unless refusal (read_virtual_node dev om xid bs oid) (read_virtual_node dev' om xid bs oid)"
  unfolding read_virtual_node_def
  using assms by (intro same_unless_and_then resolve_damaged gated_read) (auto simp: refusal_def Let_def)

lemma virtual_node_damaged:
  assumes "damaged bs dev dev'" and "bs < 2 ^ 64"
  shows "same_unless refusal (virtual_node dev om xid bs oid) (virtual_node dev' om xid bs oid)"
  unfolding virtual_node_def by (intro same_unless_and_then read_virtual_node_damaged [OF assms]) simp

lemma read_snap_node_damaged:
  assumes "damaged bs dev dev'" and "bs < 2 ^ 64"
  shows "same_unless refusal (read_snap_node dev om xid bs r oid) (read_snap_node dev' om xid bs r oid)"
  unfolding read_snap_node_def
  using assms by (intro same_unless_and_then gated_read) (auto simp: refusal_def Let_def intro!: same_unless_and_then resolve_damaged)

lemma ObjectMap_parse_refuses: "\<not> cksum_ok buf \<Longrightarrow> \<exists>e. ObjectMap_parse buf = Err e \<and> refusal e"
  by (auto simp: ObjectMap_parse_def refusal_def Let_def split: option.split)

lemma ApfsVolume_parse_refuses: "\<not> cksum_ok buf \<Longrightarrow> \<exists>e. ApfsVolume_parse buf = Err e \<and> refusal e"
  by (auto simp: ApfsVolume_parse_def refusal_def Let_def split: option.split)

text \<open>Reading the object map of a volume and going on with it.\<close>

lemma with_omap_damaged:
  assumes "damaged bs dev dev'" and "bs < 2 ^ 64" and "\<And>omap. same_unless refusal (f omap) (f' omap)"
  shows "same_unless refusal
    (and_then (read_at dev (saturating_mul p (word_of_nat bs)) bs) (\<lambda>buf. and_then (ObjectMap_parse buf) f))
    (and_then (read_at dev' (saturating_mul p (word_of_nat bs)) bs) (\<lambda>buf. and_then (ObjectMap_parse buf) f'))"
proof -
  have "same_unless refusal (and_then (read_at dev (saturating_mul p (word_of_nat bs)) bs) ObjectMap_parse)
      (and_then (read_at dev' (saturating_mul p (word_of_nat bs)) bs) ObjectMap_parse)"
    using assms(1,2) by (intro gated_read ObjectMap_parse_refuses) simp_all
  from same_unless_and_then [OF this assms(3)] show ?thesis by (simp add: and_then_assoc)
qed

subsection \<open>Navigation\<close>

lemma for_each_fs_record_damaged:
  assumes "damaged bs dev dev'" and "bs < 2 ^ 64"
  shows "same_unless refusal (for_each_fs_record_for_oid dev volume bs oid visit s)
    (for_each_fs_record_for_oid dev' volume bs oid visit s)"
proof -
  have "same_unless refusal (descend_virtual dev omap xid bs t visit d a V s) (descend_virtual dev' omap xid bs t visit d a V s)"
    for omap xid t d a V
    by (rule virt.walk_same_unless [OF virt.tree_walk_axioms virtual_node_damaged [OF assms]])
  then show ?thesis
    unfolding for_each_fs_record_for_oid_def walk_fs_tree_def
    by (intro with_omap_damaged [OF assms] same_unless_and_then) simp_all
qed

lemma for_each_snap_record_damaged:
  assumes "damaged bs dev dev'" and "bs < 2 ^ 64"
  shows "same_unless refusal (for_each_snap_record dev volume bs visit s) (for_each_snap_record dev' volume bs visit s)"
proof -
  have "same_unless refusal (descend_snap_children dev omap xid bs visit d cs V s)
      (descend_snap_children dev' omap xid bs visit d cs V s)" for omap xid d cs V s
    by (rule snap.walk_same_unless(2) [OF snap.tree_walk_axioms virtual_node_damaged [OF assms]])
  then show ?thesis
    unfolding for_each_snap_record_def descend_snap_root
    by (intro with_omap_damaged [OF assms] same_unless_and_then)
      (auto intro!: read_snap_node_damaged [OF assms] split: option.split)
qed

lemma listings_damaged:
  assumes "damaged bs dev dev'" and "bs < 2 ^ 64"
  shows "same_unless refusal (list_dir dev volume oid bs) (list_dir dev' volume oid bs)"
    and "same_unless refusal (lookup_child dev volume oid name bs) (lookup_child dev' volume oid name bs)"
    and "same_unless refusal (load_inode dev volume oid bs) (load_inode dev' volume oid bs)"
    and "same_unless refusal (list_extents dev volume oid bs) (list_extents dev' volume oid bs)"
    and "same_unless refusal (list_xattrs dev volume oid bs) (list_xattrs dev' volume oid bs)"
    and "same_unless refusal (list_snapshots dev volume bs) (list_snapshots dev' volume bs)"
    and "same_unless refusal (resolve_snapshot_xid dev volume name bs) (resolve_snapshot_xid dev' volume name bs)"
  unfolding list_dir_def lookup_child_def load_inode_def list_extents_def list_xattrs_def list_snapshots_def
    resolve_snapshot_xid_def
  by (intro same_unless_and_then for_each_fs_record_damaged [OF assms] for_each_snap_record_damaged [OF assms]; simp)+

lemma open_path_damaged:
  assumes "damaged bs dev dev'" and "bs < 2 ^ 64"
  shows "same_unless refusal (open_path dev volume path bs) (open_path dev' volume path bs)"
proof -
  have "same_unless refusal (open_path_loop dev volume bs cur cs) (open_path_loop dev' volume bs cur cs)" for cur cs
    by (induction cs arbitrary: cur)
      (auto intro!: same_unless_and_then listings_damaged [OF assms] split: option.split)
  then show ?thesis
    unfolding open_path_def by (intro same_unless_and_then listings_damaged [OF assms])
qed

lemma mount_snapshot_damaged:
  assumes "damaged bs dev dev'" and "bs < 2 ^ 64"
  shows "same_unless refusal (mount_snapshot dev live sn bs) (mount_snapshot dev' live sn bs)"
  unfolding mount_snapshot_def
  by (rule gated_read [OF assms(1)]) (use assms(2) ApfsVolume_parse_refuses in \<open>fastforce+\<close>)

subsection \<open>The container's own objects\<close>

lemma traverse_same_unless:
  "(\<And>x. same_unless P (f x) (g x)) \<Longrightarrow> same_unless P (traverse f xs) (traverse g xs)"
  by (induction xs) (auto intro!: same_unless_and_then)

lemma volume_superblock_addrs_damaged:
  assumes "damaged bs dev dev'" and "bs = unat (nx_block_size (superblock c))"
  shows "same_unless refusal (volume_superblock_addrs dev c) (volume_superblock_addrs dev' c)"
proof -
  have "bs < 2 ^ 64" using unat_bound [of "nx_block_size (superblock c)"] assms(2) by simp
  then have "same_unless refusal (traverse (\<lambda>oid. and_then (resolve dev om oid x bs) (\<lambda>e. Ok (oe_paddr e))) oids)
      (traverse (\<lambda>oid. and_then (resolve dev' om oid x bs) (\<lambda>e. Ok (oe_paddr e))) oids)" for om x oids
    using assms(1) by (intro traverse_same_unless same_unless_and_then resolve_damaged) simp_all
  with \<open>bs < 2 ^ 64\<close> show ?thesis
    unfolding volume_superblock_addrs_def Let_def assms(2) [symmetric]
    by (cases "block_size_ok (nx_block_size (superblock c))") (simp_all add: with_omap_damaged [OF assms(1)])
qed

lemma read_obj_block_damaged:
  assumes "damaged bs dev dev'" and "bs < 2 ^ 64"
  shows "same_unless refusal (read_obj_block dev p bs) (read_obj_block dev' p bs)"
  unfolding read_obj_block_def
  using assms by (intro gated_read) (auto simp: refusal_def Let_def)

lemma pending_objects_damaged:
  assumes "damaged bs dev dev'" and "bs < 2 ^ 64"
  shows "same_unless refusal (pending_objects dev p ms bs) (pending_objects dev' p ms bs)"
proof -
  have "same_unless refusal (reap_loop dev ms bs me oid seen out) (reap_loop dev' ms bs me oid seen out)" for me oid seen out
    using assms
  proof (induction dev ms bs me oid seen out rule: reap_loop.induct)
    case (1 dev ms bs me oid seen out)
    show ?case
      unfolding reap_loop.simps [of _ ms bs me oid]
      using 1 by (auto intro!: same_unless_and_then read_obj_block_damaged)
  qed
  then show ?thesis
    unfolding pending_objects_def Let_def by (intro same_unless_and_then read_obj_block_damaged [OF assms])
qed

subsection \<open>Damaged images\<close>

text \<open>
  One aligned word of the block after the checksum field is replaced, other than by the swap of the two
  encodings of zero that no Fletcher checksum sees.
\<close>

definition word_changed :: "bytes \<Rightarrow> bytes \<Rightarrow> bool" where
  "word_changed b b' \<longleftrightarrow> (\<exists>pre w w' post k. b = pre @ w @ post \<and> b' = pre @ w' @ post \<and> length pre = 4 * k \<and>
     2 \<le> k \<and> length w = 4 \<and> length w' = 4 \<and> w \<noteq> w' \<and> {le_nat w, le_nat w'} \<noteq> {0, 0xffffffff})"

lemma word_changed_cksum: "word_changed b b' \<Longrightarrow> cksum_ok b \<Longrightarrow> length b' = length b \<and> \<not> cksum_ok b'"
  unfolding word_changed_def by (elim exE conjE) (use cksum_word_change in simp)

text \<open>
  What happens to a block: it is left alone, overwritten by anything whose checksum is wrong, or, being a
  block with a right checksum, changed in one word.
\<close>

definition hit :: "bytes \<Rightarrow> bytes \<Rightarrow> bool" where
  "hit b b' \<longleftrightarrow> b' = b \<or> length b' = length b \<and> \<not> cksum_ok b' \<or> cksum_ok b \<and> word_changed b b'"

lemma hit_cases: "hit b b' \<Longrightarrow> b' = b \<or> length b' = length b \<and> \<not> cksum_ok b'"
  using word_changed_cksum by (auto simp: hit_def)

lemma hit_blocks_nth:
  assumes "\<forall>b \<in> set blks. length b = bs" and "list_all2 hit blks blks'"
  shows "length blks' = length blks" and "\<forall>b \<in> set blks'. length b = bs"
    and "i < length blks \<Longrightarrow> blks' ! i = blks ! i \<or> \<not> cksum_ok (blks' ! i)"
proof -
  show n: "length blks' = length blks" using assms(2) by (simp add: list_all2_lengthD)
  have nth: "blks' ! i = blks ! i \<or> length (blks' ! i) = length (blks ! i) \<and> \<not> cksum_ok (blks' ! i)" if "i < length blks" for i
    using hit_cases [OF list_all2_nthD [OF assms(2) that]] .
  then show "i < length blks \<Longrightarrow> blks' ! i = blks ! i \<or> \<not> cksum_ok (blks' ! i)" by blast
  show "\<forall>b \<in> set blks'. length b = bs"
    using nth assms(1) n by (metis in_set_conv_nth)
qed

lemma damaged_cursor:
  assumes len: "\<forall>b \<in> set blks. length b = bs" and bs: "0 < bs" and small: "length blks * bs < 2 ^ 64"
    and damage: "list_all2 hit blks blks'"
  shows "damaged bs (cursor (concat blks)) (cursor (concat blks'))"
  unfolding damaged_def
proof (intro allI impI)
  fix off
  assume off: "block_offset bs off"
  note n = hit_blocks_nth [OF len damage] and total = length_concat_blocks [where n = bs]
  show "cursor (concat blks') off bs = cursor (concat blks) off bs \<or>
      (\<exists>buf. cursor (concat blks') off bs = Inr buf \<and> \<not> cksum_ok buf)"
  proof (cases "unat off < length blks * bs")
    case True
    moreover have "off \<noteq> 0xffffffffffffffff" using True small by auto
    ultimately obtain i where i: "unat off = i * bs" "i < length blks"
      using off by (auto simp: block_offset_def mult.commute elim: dvdE)
    then show ?thesis
      using cursor_block [OF len i(2,1)] cursor_block [OF n(2) i(2) [folded n(1)] i(1)] n(3) [OF i(2)] by auto
  next
    case False
    then show ?thesis using total [OF len] total [OF n(2)] n(1) bs by (simp add: cursor_def del: length_concat)
  qed
qed

subsection \<open>Opening a damaged image\<close>

lemma read_block_image:
  assumes "\<forall>b \<in> set blks. length b = bs" and "0 < bs" and "length blks * bs < 2 ^ 64" and "bs < 2 ^ 64"
  shows "read_block (cursor (concat blks)) p bs = Ok (if unat p < length blks then Some (blks ! unat p) else None)"
proof (cases "unat p < length blks")
  case True
  then have "unat p * bs < 2 ^ 64" using assms(3) by (meson less_imp_le_nat mult_le_mono1 le_less_trans)
  then have off: "checked_mul p (word_of_nat bs) = Some (p * word_of_nat bs)" "unat (p * word_of_nat bs) = unat p * bs"
    using assms(4) by (simp_all add: checked_mul_def unat_of_nat unat_word_ariths)
  then show ?thesis using cursor_block [OF assms(1) True off(2)] True by (simp add: read_block_def)
next
  case False
  have "cursor (concat blks) off bs = Inl (UnexpectedEof ''failed to fill whole buffer'')"
    if "checked_mul p (word_of_nat bs) = Some off" for off
  proof -
    have "unat off = unat p * bs" using unat_checked_mul [OF that] assms(4) by (simp add: unat_of_nat)
    then have "length (concat blks) \<le> unat off" using length_concat_blocks [OF assms(1)] False by (simp del: length_concat)
    then show ?thesis using assms(2) by (simp add: cursor_def del: length_concat)
  qed
  then show ?thesis using False by (auto simp: read_block_def split: option.split)
qed

lemma list_all2_map_filter:
  "(\<And>x. x \<in> set xs \<Longrightarrow> rel_option R (f x) (g x)) \<Longrightarrow> list_all2 R (List.map_filter f xs) (List.map_filter g xs)"
proof (induction xs)
  case (Cons x xs)
  then have "rel_option R (f x) (g x)" by simp
  then show ?case using Cons by (cases "f x"; cases "g x") (simp_all add: map_filter_simps)
qed (simp add: map_filter_simps)

lemma ring_damaged:
  assumes "\<forall>b \<in> set blks. length b = bs" and "0 < bs" and "length blks * bs < 2 ^ 64" and "bs = unat (nx_block_size sb)"
    and "list_all2 hit blks blks'"
  shows "list_all2 (torn_keeping {p. blks' ! unat p = blks ! unat p}) (ring (cursor (concat blks)) sb) (ring (cursor (concat blks')) sb)"
proof -
  note n = hit_blocks_nth [OF assms(1,5)]
  have bs: "bs < 2 ^ 64" using unat_bound [of "nx_block_size sb"] assms(4) by simp
  have reads: "read_block (cursor (concat blks)) p bs = Ok (if unat p < length blks then Some (blks ! unat p) else None)"
    "read_block (cursor (concat blks')) p bs = Ok (if unat p < length blks then Some (blks' ! unat p) else None)" for p
    using read_block_image [OF assms(1-3) bs] read_block_image [OF n(2) assms(2) _ bs] n(1) assms(3) by simp_all
  have "rel_option (torn_keeping {p. blks' ! unat p = blks ! unat p})
      (case read_block (cursor (concat blks)) p bs of Ok (Some buf) \<Rightarrow> Some (p, buf) | _ \<Rightarrow> None)
      (case read_block (cursor (concat blks')) p bs of Ok (Some buf) \<Rightarrow> Some (p, buf) | _ \<Rightarrow> None)" for p
    using n(3) [of "unat p"] unfolding reads by (auto simp: torn_keeping_def)
  then show ?thesis
    unfolding ring_def Let_def assms(4) [symmetric] by (intro list_all2_map_filter)
qed

lemma NxSuperblock_parse_refuses:
  "\<not> cksum_ok buf \<Longrightarrow> \<exists>e. NxSuperblock_parse buf = Err e \<and> (refusal e \<or> (\<exists>n m. e = NoValidSuperblock n m))"
  by (auto simp: NxSuperblock_parse_def refusal_def Let_def)

text \<open>Opening reads a ring that lies in the address space, or it would not have returned.\<close>

lemma open_ring_readable:
  assumes "ApfsContainer_open (cursor img) = Ok c" and "bootstrap_ok (cursor img) boot"
  shows "ring_readable (cursor img) boot"
proof -
  have "resolve_live_checkpoint (cursor img) boot \<noteq> Panic"
    using assms by (auto simp: ApfsContainer_open_def bootstrap_ok_def NX_MINIMUM_BLOCK_SIZE_def)
  then show ?thesis
    using assms(2) cursor_only_eof by (auto simp: resolve_live_checkpoint_panic_iff bootstrap_ok_def ring_readable_def)
qed

lemma open_container:
  assumes "bootstrap_ok dev boot" and "ring_readable dev boot" and "ApfsContainer_open dev = Ok c"
  shows "nx_best (ring dev boot) None = Some (nx_xid (superblock c), live_superblock_paddr c) \<and>
    checkpoint_mappings c = concat (map block_mappings (filter (live_map (nx_xid (superblock c))) (map snd (ring dev boot)))) \<and>
    (\<exists>b. (live_superblock_paddr c, b) \<in> set (ring dev boot) \<and> valid_nx b \<and> NxSuperblock_parse b = Ok (superblock c))"
proof -
  obtain x p where best: "nx_best (ring dev boot) None = Some (x, p)"
    using open_no_valid [OF assms(1,2)] assms(3) by (cases "nx_best (ring dev boot) None") auto
  obtain b sb where b: "(p, b) \<in> set (ring dev boot)" "NxSuperblock_parse b = Ok sb" "nx_xid sb = x"
    and c: "c = \<lparr>superblock = sb, live_superblock_paddr = p,
      checkpoint_mappings = concat (map block_mappings (filter (live_map x) (map snd (ring dev boot))))\<rparr>"
    using open_live [OF assms(1,2) best] assms(3) by auto
  obtain b' where "(p, b') \<in> set (ring dev boot)" "valid_nx b'" using nx_best_Some [OF best] by blast
  moreover from this have "b' = b" using ring_member [OF b(1)] ring_member [of p b' dev boot] by simp
  ultimately show ?thesis using best b c by auto
qed

lemma open_torn_ring:
  assumes "bootstrap_ok dev boot" and "ring_readable dev boot" and "ApfsContainer_open dev = Ok c"
    and "bootstrap_ok dev' boot" and "ring_readable dev' boot" and "ApfsContainer_open dev' = Ok c'"
    and torn: "list_all2 (torn_keeping A) (ring dev boot) (ring dev' boot)"
  shows "nx_xid (superblock c') \<le> nx_xid (superblock c)"
    and "\<exists>b. (live_superblock_paddr c', b) \<in> set (ring dev boot) \<and> (live_superblock_paddr c', b) \<in> set (ring dev' boot) \<and>
      NxSuperblock_parse b = Ok (superblock c')"
    and "nx_xid (superblock c') = nx_xid (superblock c) \<Longrightarrow> set (checkpoint_mappings c') \<subseteq> set (checkpoint_mappings c)"
    and "live_superblock_paddr c \<in> A \<Longrightarrow> superblock c' = superblock c \<and> live_superblock_paddr c' = live_superblock_paddr c"
proof -
  note c = open_container [OF assms(1-3)] and c' = open_container [OF assms(4-6)]
  obtain b where b: "(live_superblock_paddr c', b) \<in> set (ring dev' boot)" "valid_nx b" "NxSuperblock_parse b = Ok (superblock c')"
    using c' by blast
  note old = torn_valid [OF torn b(1,2)]
  then show "\<exists>b. (live_superblock_paddr c', b) \<in> set (ring dev boot) \<and> (live_superblock_paddr c', b) \<in> set (ring dev' boot) \<and>
      NxSuperblock_parse b = Ok (superblock c')" using b by blast
  have "le_u64 b 16 = nx_xid (superblock c')" using valid_nx_parse [OF b(2)] b(3) by auto
  then show "nx_xid (superblock c') \<le> nx_xid (superblock c)"
    using old c nx_best_Some [of "ring dev boot" "nx_xid (superblock c)" "live_superblock_paddr c"] b(2) by fastforce
  show "set (checkpoint_mappings c') \<subseteq> set (checkpoint_mappings c)" if "nx_xid (superblock c') = nx_xid (superblock c)"
    using torn_mappings [OF torn, of "nx_xid (superblock c)"] c c' that by metis
  show "superblock c' = superblock c \<and> live_superblock_paddr c' = live_superblock_paddr c" if "live_superblock_paddr c \<in> A"
  proof -
    have p: "live_superblock_paddr c' = live_superblock_paddr c"
      using nx_best_torn [OF conjunct1 [OF c] torn that] c' by simp
    obtain b0 where b0: "(live_superblock_paddr c, b0) \<in> set (ring dev boot)" "NxSuperblock_parse b0 = Ok (superblock c)"
      using c by blast
    have "b0 = b" using ring_member [OF b0(1)] ring_member [OF old] p by simp
    then show ?thesis using b0(2) b(3) p by simp
  qed
qed

lemma open_damaged:
  assumes len: "\<forall>b \<in> set blks. length b = 4096" and small: "length blks * 4096 < 2 ^ 64" and damage: "list_all2 hit blks blks'"
    and boot: "NxSuperblock_parse (blks ! 0) = Ok boot" "nx_block_size boot = 4096"
    and opened: "ApfsContainer_open (cursor (concat blks)) = Ok c"
  shows "case ApfsContainer_open (cursor (concat blks')) of
      Ok c' \<Rightarrow> nx_xid (superblock c') \<le> nx_xid (superblock c) \<and>
        blks' ! unat (live_superblock_paddr c') = blks ! unat (live_superblock_paddr c') \<and>
        NxSuperblock_parse (blks ! unat (live_superblock_paddr c')) = Ok (superblock c') \<and>
        (nx_xid (superblock c') = nx_xid (superblock c) \<longrightarrow> set (checkpoint_mappings c') \<subseteq> set (checkpoint_mappings c)) \<and>
        (blks' ! unat (live_superblock_paddr c) = blks ! unat (live_superblock_paddr c) \<longrightarrow>
           superblock c' = superblock c \<and> live_superblock_paddr c' = live_superblock_paddr c)
    | Err e \<Rightarrow> refusal e \<or> (\<exists>n m. e = NoValidSuperblock n m)
    | Panic \<Rightarrow> False"
proof -
  let ?d = "cursor (concat blks)" and ?d' = "cursor (concat blks')"
  note n = hit_blocks_nth [OF len damage]
  have "blks \<noteq> []" using opened by (auto simp: ApfsContainer_open_def cursor_def NX_MINIMUM_BLOCK_SIZE_def)
  then have zero: "?d 0 4096 = Inr (blks ! 0)" "?d' 0 4096 = Inr (blks' ! 0)"
    using cursor_block [OF len, of 0 0] cursor_block [OF n(2), of 0 0] n(1) by simp_all
  obtain boot0 where "bootstrap_ok ?d boot0" using open_Ok [OF opened] by blast
  then have ok: "bootstrap_ok ?d boot" using zero(1) boot(1) by (auto simp: bootstrap_ok_def)
  note rd = open_ring_readable [OF opened ok]
  show ?thesis
  proof (cases "blks' ! 0 = blks ! 0")
    case False
    then have "\<not> cksum_ok (blks' ! 0)" using n(3) [of 0] \<open>blks \<noteq> []\<close> by simp
    then obtain e where "NxSuperblock_parse (blks' ! 0) = Err e" "refusal e \<or> (\<exists>n m. e = NoValidSuperblock n m)"
      using NxSuperblock_parse_refuses by blast
    then show ?thesis using zero(2) by (simp add: ApfsContainer_open_def NX_MINIMUM_BLOCK_SIZE_def)
  next
    case True
    have ok': "bootstrap_ok ?d' boot" using ok True zero by (simp add: bootstrap_ok_def)
    have rd': "ring_readable ?d' boot" using rd cursor_only_eof by (auto simp: ring_readable_def)
    have torn: "list_all2 (torn_keeping {p. blks' ! unat p = blks ! unat p}) (ring ?d boot) (ring ?d' boot)"
      by (rule ring_damaged [OF len _ small _ damage]) (simp_all add: boot(2))
    show ?thesis
    proof (cases "nx_best (ring ?d' boot) None")
      case None
      then show ?thesis using open_no_valid [OF ok' rd'] by auto
    next
      case (Some y)
      then obtain x p where "nx_best (ring ?d' boot) None = Some (x, p)" by (cases y) auto
      then obtain c' where opened': "ApfsContainer_open ?d' = Ok c'" using open_live [OF ok' rd'] by blast
      note c' = open_torn_ring [OF ok rd opened ok' rd' opened' torn]
      have at: "q' = blks ! unat q" if "(q, q') \<in> set (ring ?d boot)" for q q'
        using ring_member [OF that] read_block_image [OF len, of q] small boot(2) by (simp split: if_splits)
      have at': "q' = blks' ! unat q" if "(q, q') \<in> set (ring ?d' boot)" for q q'
        using ring_member [OF that] read_block_image [OF n(2), of q] n(1) small boot(2) by (simp split: if_splits)
      obtain b where b: "(live_superblock_paddr c', b) \<in> set (ring ?d boot)" "(live_superblock_paddr c', b) \<in> set (ring ?d' boot)"
        "NxSuperblock_parse b = Ok (superblock c')" using c'(2) by blast
      show ?thesis using opened' c'(1,3,4) b(3) at [OF b(1)] at' [OF b(2)] by simp
    qed
  qed
qed

section \<open>Later transactions\<close>

text \<open>
  The object map of a volume, as an abstract tree, and its mappings up to a transaction id.
\<close>

definition omap_stored :: "device \<Rightarrow> ApfsVolume \<Rightarrow> usize \<Rightarrow> ptree \<Rightarrow> bool" where
  "omap_stored dev volume bs t \<longleftrightarrow>
     (\<exists>buf omap. read_at dev (saturating_mul (vol_omap_oid volume) (word_of_nat bs)) bs = Ok buf \<and>
        ObjectMap_parse buf = Ok omap \<and> root t = om_tree_oid omap) \<and>
     stored (\<lambda>a. read_verified_node dev a bs) Omap t \<and> height t \<le> 64 \<and> distinct (addrs t) \<and> seps_ok t"

definition mappings_until :: "u64 \<Rightarrow> ptree \<Rightarrow> Entry list" where
  "mappings_until xid t = filter (\<lambda>e. le_u64 (fst e) 8 \<le> xid) (all_entries t)"

text \<open>Resolution at a transaction id looks at nothing newer.\<close>

lemma omap_scan_until: "omap_scan oid xid (all_entries t) = omap_scan oid xid (mappings_until xid t)"
  unfolding omap_scan_def mappings_until_def
  by (rule visit_all_filter [where P = "\<lambda>k. le_u64 k 8 \<le> xid", symmetric]) (simp add: omap_visit_def not_le)

text \<open>
  The second state of the source is a later one: the mappings up to the id are the same, and the blocks
  they name hold what they held (the format writes new nodes elsewhere).
\<close>

definition same_until :: "u64 \<Rightarrow> usize \<Rightarrow> device \<Rightarrow> ptree \<Rightarrow> device \<Rightarrow> ptree \<Rightarrow> bool" where
  "same_until xid bs dev t dev' t' \<longleftrightarrow> mappings_until xid t' = mappings_until xid t \<and>
     (\<forall>e \<in> set (mappings_until xid t). let off = saturating_mul (oe_paddr (entry_of e)) (word_of_nat bs) in
        dev' off bs = dev off bs)"

lemma read_virtual_node_later:
  assumes "stored (\<lambda>a. read_verified_node dev a bs) Omap t" "root t = om_tree_oid om" "height t \<le> 64" "distinct (addrs t)"
      "seps_ok t"
    and "stored (\<lambda>a. read_verified_node dev' a bs) Omap t'" "root t' = om_tree_oid om'" "height t' \<le> 64"
      "distinct (addrs t')" "seps_ok t'"
    and same: "same_until xid bs dev t dev' t'"
  shows "read_virtual_node dev' om' xid bs oid = read_virtual_node dev om xid bs oid"
proof -
  have res: "resolve dev' om' oid xid bs = resolve dev om oid xid bs"
    using same by (simp add: resolve_stored [OF assms(1-5)] resolve_stored [OF assms(6-10)] omap_scan_until same_until_def)
  have "read_at dev' (saturating_mul (oe_paddr e) (word_of_nat bs)) bs = read_at dev (saturating_mul (oe_paddr e) (word_of_nat bs)) bs"
    if "resolve dev om oid xid bs = Ok e" for e
  proof -
    have "omap_scan oid xid (mappings_until xid t) = Some e"
      using that by (simp add: resolve_stored [OF assms(1-5)] omap_scan_until res_simps)
    then obtain m where "m \<in> set (mappings_until xid t)" "e = entry_of m" using omap_scan_Some by blast
    then show ?thesis using same by (simp add: same_until_def read_at_def Let_def)
  qed
  then show ?thesis unfolding read_virtual_node_def res by (intro and_then_cong) simp_all
qed

lemma for_each_fs_record_later:
  assumes "omap_stored dev v bs t" and "omap_stored dev' v' bs t'" and "same_until (vol_xid v) bs dev t dev' t'"
    and "vol_xid v' = vol_xid v" and "vol_root_tree_oid v' = vol_root_tree_oid v"
  shows "for_each_fs_record_for_oid dev' v' bs oid visit s = for_each_fs_record_for_oid dev v bs oid visit s"
proof -
  obtain buf om where 1: "read_at dev (saturating_mul (vol_omap_oid v) (word_of_nat bs)) bs = Ok buf"
      "ObjectMap_parse buf = Ok om" "root t = om_tree_oid om"
    using assms(1) by (auto simp: omap_stored_def)
  obtain buf' om' where 2: "read_at dev' (saturating_mul (vol_omap_oid v') (word_of_nat bs)) bs = Ok buf'"
      "ObjectMap_parse buf' = Ok om'" "root t' = om_tree_oid om'"
    using assms(2) by (auto simp: omap_stored_def)
  have "virtual_node dev' om' (vol_xid v) bs a = virtual_node dev om (vol_xid v) bs a" for a
    using read_virtual_node_later [of dev bs t om dev' t' om' "vol_xid v" a] 1 2 assms(1-3)
    by (simp add: virtual_node_def omap_stored_def)
  then have "descend_virtual dev' om' (vol_xid v) bs k visit d a V s = descend_virtual dev om (vol_xid v) bs k visit d a V s"
    for k d a V
    by (rule virt.walk_same_unless(1) [OF virt.tree_walk_axioms, where P = "\<lambda>_. False", unfolded same_unless_never])
  then show ?thesis
    by (simp add: for_each_fs_record_for_oid_def walk_fs_tree_def 1 2 assms(4,5))
qed

text \<open>The data blocks of an extent hold what they held.\<close>

definition extent_kept :: "device \<Rightarrow> device \<Rightarrow> usize \<Rightarrow> FileExtent \<Rightarrow> bool" where
  "extent_kept dev dev' bs e \<longleftrightarrow> (\<forall>n \<le> unat (ext_len e).
     dev' (phys_block_num e * word_of_nat bs) n = dev (phys_block_num e * word_of_nat bs) n)"

lemma copy_extents_kept:
  "list_all (extent_kept dev dev' bs) es \<Longrightarrow> copy_extents dev' bs sz es out = copy_extents dev bs sz es out"
proof (induction es arbitrary: out)
  case (Cons e es)
  have "copy_extent dev' bs sz e out = copy_extent dev bs sz e out"
    unfolding copy_extent_def Let_def
    by (intro if_cong and_then_cong refl)
      (use Cons.prems in \<open>auto simp: res_simps checked_mul_def read_at_def extent_kept_def split: if_splits\<close>)
  then show ?case using Cons by (simp cong: and_then_cong)
qed simp

text \<open>The view of a volume at its transaction id, in two states of the source.\<close>

definition unchanged_since :: "device \<Rightarrow> ApfsVolume \<Rightarrow> usize \<Rightarrow> device \<Rightarrow> ApfsVolume \<Rightarrow> bool" where
  "unchanged_since dev v bs dev' v' \<longleftrightarrow> vol_xid v' = vol_xid v \<and> vol_root_tree_oid v' = vol_root_tree_oid v \<and>
     (\<exists>t t'. omap_stored dev v bs t \<and> omap_stored dev' v' bs t' \<and> same_until (vol_xid v) bs dev t dev' t') \<and>
     (\<forall>oid es. list_extents dev v oid bs = Ok es \<longrightarrow> list_all (extent_kept dev dev' bs) es)"

lemma listings_later:
  assumes "unchanged_since dev v bs dev' v'"
  shows "list_dir dev' v' oid bs = list_dir dev v oid bs"
    and "lookup_child dev' v' oid name bs = lookup_child dev v oid name bs"
    and "load_inode dev' v' oid bs = load_inode dev v oid bs"
    and "list_extents dev' v' oid bs = list_extents dev v oid bs"
    and "list_xattrs dev' v' oid bs = list_xattrs dev v oid bs"
    and "get_xattr dev' v' oid name bs = get_xattr dev v oid name bs"
proof -
  obtain t t' where t: "omap_stored dev v bs t" "omap_stored dev' v' bs t'" "same_until (vol_xid v) bs dev t dev' t'"
    "vol_xid v' = vol_xid v" "vol_root_tree_oid v' = vol_root_tree_oid v"
    using assms by (auto simp: unchanged_since_def)
  note same = for_each_fs_record_later [OF this]
  show "list_dir dev' v' oid bs = list_dir dev v oid bs"
    "lookup_child dev' v' oid name bs = lookup_child dev v oid name bs"
    "load_inode dev' v' oid bs = load_inode dev v oid bs"
    "list_extents dev' v' oid bs = list_extents dev v oid bs"
    "list_xattrs dev' v' oid bs = list_xattrs dev v oid bs"
    "get_xattr dev' v' oid name bs = get_xattr dev v oid name bs"
    by (simp_all add: list_dir_def lookup_child_def load_inode_def list_extents_def list_xattrs_def get_xattr_def same t(4))
qed

lemma open_path_later:
  assumes "unchanged_since dev v bs dev' v'"
  shows "open_path dev' v' path bs = open_path dev v path bs"
proof -
  have "open_path_loop dev' v' bs cur cs = open_path_loop dev v bs cur cs" for cur cs
  proof (induction cs arbitrary: cur)
    case (Cons c cs)
    show ?case unfolding open_path_loop.simps Cons.IH listings_later [OF assms]
      using assms by (simp add: unchanged_since_def)
  qed simp
  then show ?thesis by (simp add: open_path_def listings_later [OF assms])
qed

lemma read_stream_later:
  assumes "unchanged_since dev v bs dev' v'"
  shows "read_stream dev' v' oid sz bs = read_stream dev v oid sz bs"
  unfolding read_stream_def listings_later [OF assms]
  by (intro if_cong and_then_cong copy_extents_kept refl) (use assms in \<open>auto simp: unchanged_since_def\<close>)

lemma read_data_later:
  assumes "unchanged_since dev v bs dev' v'"
  shows "read_data cs dev' v' inode bs = read_data cs dev v inode bs"
  unfolding read_data_def read_compressed_def decmpfs_header_def resource_fork_def listings_later [OF assms]
    read_stream_later [OF assms] ..

text \<open>The same snapshot mounted in both states.\<close>

lemma mount_snapshot_later:
  assumes "mount_snapshot dev live sn bs = Ok v"
    and "dev' (saturating_mul (sn_sblock_oid sn) (word_of_nat bs)) bs = dev (saturating_mul (sn_sblock_oid sn) (word_of_nat bs)) bs"
  shows "mount_snapshot dev' live' sn bs = Ok (v\<lparr>vol_omap_oid := vol_omap_oid live'\<rparr>)"
  using assms by (auto simp: mount_snapshot_def res_simps read_at_def with_omap_oid_def Let_def)

end
