(* ===== verification/Sample_States.thy ===== *)
theory Sample_States
  imports Sample_Volume Damage
begin

text \<open>
  Two other states of the sample image: one with a changed word in the object map of the volume, and
  a later one, to which a transaction after the snapshot has added an object map with a newer mapping.
\<close>

section \<open>A changed word\<close>

text \<open>The first word of the object id is no longer zero.\<close>

definition smp_hit :: bytes where
  "smp_hit = take 8 (smp_blocks ! 6) @ [1, 0, 0, 0] @ drop 12 (smp_blocks ! 6)"

definition hit_blocks :: "bytes list" where
  "hit_blocks = smp_blocks[6 := smp_hit]"

lemma smp_hit_changed: "word_changed (smp_blocks ! 6) smp_hit"
proof -
  have "take 4 (drop 8 (smp_blocks ! 6)) = replicate 4 0"
    by (simp add: smp_nth smp_omap_phys_def drop_seal)
  moreover have "smp_blocks ! 6 = take 8 (smp_blocks ! 6) @ take 4 (drop 8 (smp_blocks ! 6)) @ drop 12 (smp_blocks ! 6)"
    using append_take_drop_id [of 4 "drop 8 (smp_blocks ! 6)"] by simp
  ultimately have "smp_blocks ! 6 = take 8 (smp_blocks ! 6) @ [0, 0, 0, 0] @ drop 12 (smp_blocks ! 6)"
    by (simp add: numeral_eq_Suc)
  moreover have "length (take 8 (smp_blocks ! 6)) = 4 * 2" using smp_lengths by simp
  moreover have "{le_nat [0, 0, 0, 0], le_nat [1, 0, 0, 0]} \<noteq> {0, 0xffffffff}" by (simp add: doubleton_eq_iff)
  ultimately show ?thesis unfolding word_changed_def smp_hit_def
    by (intro exI [of _ "take 8 (smp_blocks ! 6)"] exI [of _ "[0, 0, 0, 0]"] exI [of _ "[1, 0, 0, 0]"]
        exI [of _ "drop 12 (smp_blocks ! 6)"] exI [of _ 2]) simp
qed

lemma smp_omap_cksum: "cksum_ok (smp_blocks ! 6)"
  by (simp add: smp_nth smp_omap_phys_def seal_cksum_ok)

lemma hit_damage: "list_all2 hit smp_blocks hit_blocks"
proof -
  have "hit (smp_blocks ! i) (hit_blocks ! i)" for i
    using smp_hit_changed smp_omap_cksum smp_lengths(2) by (cases "i = 6") (simp_all add: hit_blocks_def hit_def)
  then show ?thesis by (simp add: list_all2_conv_all_nth hit_blocks_def)
qed

text \<open>The listing stops at the damaged block.\<close>

lemma hit_listing: "list_dir (cursor (concat hit_blocks)) (smp_volume 6) 2 4096 \<noteq> Ok ds"
proof -
  have bad: "length smp_hit = 4096 \<and> \<not> cksum_ok smp_hit"
    using word_changed_cksum [OF smp_hit_changed smp_omap_cksum] smp_lengths by simp
  have "\<forall>b \<in> set hit_blocks. length b = 4096" "length hit_blocks = 14" "hit_blocks ! 6 = smp_hit"
    using bad smp_lengths by (auto simp: hit_blocks_def dest!: set_update_subset_insert [THEN subsetD])
  then have "read_at (cursor (concat hit_blocks)) (saturating_mul 6 4096) 4096 = Ok smp_hit"
    using cursor_block [of hit_blocks 4096 6 "saturating_mul 6 4096"] by (simp add: read_at_def saturating_mul_def)
  moreover obtain e where "ObjectMap_parse smp_hit = Err e" using ObjectMap_parse_refuses bad by blast
  ultimately show ?thesis
    using smp_volume_fields(2) [of 6] by (simp add: list_dir_def for_each_fs_record_for_oid_def walk_fs_tree_def)
qed

section \<open>A later transaction\<close>

definition later_leaf :: "Entry list" where
  "later_leaf = [(demo_key 1026 4, demo_val 8), (demo_key 1027 4, demo_val 9), (demo_key 1027 7, demo_val 15),
     (demo_key 1028 4, demo_val 10)]"

definition later_omap_phys :: bytes where
  "later_omap_phys = seal (replicate 24 0 @ to_le_bytes (0xb :: u32) @ replicate 20 0 @
     to_le_bytes (15 :: u64) @ replicate 4040 0)"

definition later_blocks :: "bytes list" where
  "later_blocks = smp_blocks @ [later_omap_phys, node_block 4096 demo_obj 0x7 0 later_leaf]"

definition later_live :: ApfsVolume where
  "later_live = (smp_volume 6)\<lparr>vol_omap_oid := 14\<rparr>"

lemma later_lengths: "\<forall>b \<in> set later_blocks. length b = 4096" "length later_blocks = 16"
proof -
  have "length (node_block 4096 demo_obj 7 0 later_leaf) = 4096" "length later_omap_phys = 4096"
    by (auto simp: later_leaf_def later_omap_phys_def demo_defs node_used_def node_flags intro!: length_node_block)
  then show "\<forall>b \<in> set later_blocks. length b = 4096" "length later_blocks = 16"
    using smp_lengths by (auto simp: later_blocks_def)
qed

lemma later_read:
  assumes "unat p < 16"
  shows "read_at (cursor (concat later_blocks)) (saturating_mul p 4096) 4096 = Ok (later_blocks ! unat p)"
proof -
  have "saturating_mul p 4096 = p * 4096" "unat (p * 4096) = unat p * 4096"
    using assms by (simp_all add: saturating_mul_def unat_word_ariths)
  then show ?thesis
    using cursor_block [OF later_lengths(1), of "unat p" "p * 4096"] assms later_lengths(2) by (simp add: read_at_def)
qed

text \<open>What lies in the old image is read as before.\<close>

lemma later_cursor:
  assumes "unat off + n \<le> 14 * 4096"
  shows "cursor (concat later_blocks) off n = smp off n"
proof -
  have "length (concat smp_blocks) = 14 * 4096" using smp_length by simp
  then show ?thesis using assms by (simp add: later_blocks_def cursor_def del: length_concat)
qed

lemma later_omap:
  "\<exists>om. ObjectMap_parse later_omap_phys = Ok om \<and> om_tree_oid om = 15"
proof -
  have "cksum_ok later_omap_phys" unfolding later_omap_phys_def by (rule seal_cksum_ok) simp
  moreover have "le_u32 later_omap_phys 24 = 0xb" "le_u64 later_omap_phys 48 = 15" "length later_omap_phys = 4096"
    by (simp_all add: later_omap_phys_def le_seal slice_simps)
  ultimately show ?thesis
    by (simp add: ObjectMap_parse_def ObjPhys_parse_def obj_type_def OBJ_PHYS_LEN_def OBJECT_TYPE_OMAP_def
        OMAP_PHYS_MIN_LEN_def)
qed

lemma later_omap_stored: "omap_stored (cursor (concat later_blocks)) (v\<lparr>vol_omap_oid := 14\<rparr>) 4096 (PLeaf 15 later_leaf)"
proof -
  have nth: "later_blocks ! 14 = later_omap_phys" "later_blocks ! 15 = node_block 4096 demo_obj 7 0 later_leaf"
    using smp_lengths(2) by (simp_all add: later_blocks_def nth_append)
  have "read_verified_node (cursor (concat later_blocks)) 15 4096 = Ok (Some (later_blocks ! unat (15 :: u64)))"
    using later_lengths by (intro read_verified_node_block) (simp_all add: nth node_block_cksum_ok demo_obj_def)
  then have "stored (\<lambda>a. read_verified_node (cursor (concat later_blocks)) a 4096) Omap (PLeaf 15 later_leaf)"
    by (intro stored_leaf [of _ 15 demo_obj 7 0 later_leaf "replicate (4096 - node_used 7 later_leaf) 0" "node_footer 7"])
      (simp_all add: nth node_block_def layout_ok_def later_leaf_def demo_defs node_flags)
  then show ?thesis
    using later_read [of 14] nth later_omap by (auto simp: omap_stored_def)
qed

lemma smp_omap_stored_volume: "omap_stored smp (smp_volume xid) 4096 (PLeaf 7 smp_omap_leaf)"
  using smp_omap_stored smp_read [of 6] smp_omap_parse by (simp add: omap_stored_def smp_nth smp_omap_def)

lemma later_same_until: "same_until 4 4096 smp (PLeaf 7 smp_omap_leaf) (cursor (concat later_blocks)) (PLeaf 15 later_leaf)"
proof -
  have "mappings_until 4 (PLeaf 15 later_leaf) = smp_omap_leaf" "mappings_until 4 (PLeaf 7 smp_omap_leaf) = smp_omap_leaf"
    by (simp_all add: mappings_until_def later_leaf_def smp_omap_leaf_def word_le_nat_alt)
  then show ?thesis
    by (auto simp: same_until_def smp_omap_leaf_def entry_of_def saturating_mul_def intro!: later_cursor)
qed

lemma smp_extents_all:
  "list_all (\<lambda>e. e = \<lparr>logical_offset = 0, ext_len = 4096, phys_block_num = 11\<rparr>) (spec_extents smp_tree oid)"
proof (cases "oid = 16")
  case False
  have "fs_records smp_tree oid RT_FileExtent = []"
    using False by (simp add: fs_records_def smp_tree_def smp_left_def smp_right_def key_oid_jk key_oid_jk_alone
        xattr_key_def drec_key_plain_def)
  then show ?thesis by (simp add: spec_extents_def)
qed (simp add: smp_spec_extents)

lemma later_unchanged:
  "unchanged_since smp (smp_volume 4) 4096 (cursor (concat later_blocks)) ((smp_volume 4)\<lparr>vol_omap_oid := vol_omap_oid later_live\<rparr>)"
proof -
  have "extent_kept smp (cursor (concat later_blocks)) 4096 \<lparr>logical_offset = 0, ext_len = 4096, phys_block_num = 11\<rparr>"
    by (simp add: extent_kept_def later_cursor)
  then have "list_all (extent_kept smp (cursor (concat later_blocks)) 4096) (spec_extents smp_tree oid)" for oid
    using smp_extents_all [of oid] by (auto simp: list_all_iff)
  then show ?thesis
    using smp_omap_stored_volume [of 4] later_omap_stored [of "smp_volume 4"] later_same_until
      list_extents_stored [OF smp_stored, of 4]
    by (auto simp: unchanged_since_def later_live_def)
qed

end
