(* ===== verification/Tree_Image.thy ===== *)
theory Tree_Image
  imports Omap
begin

text \<open>
  The inverse of the walks: any abstract tree laid out on an image, one sealed node per address, as the
  format writes it. The walks of \<^verbatim>\<open>btree.rs\<close> read such an image back, so the trees the other theorems
  speak of (\<open>stored\<close>) exist for every choice of entries that fits its nodes.
\<close>

section \<open>Laying out a tree\<close>

fun subtrees :: "ptree \<Rightarrow> ptree list" and subtrees_of :: "(bytes \<times> ptree) list \<Rightarrow> ptree list" where
  "subtrees (PLeaf a es) = [PLeaf a es]"
| "subtrees (PNode a cs) = PNode a cs # subtrees_of cs"
| "subtrees_of [] = []"
| "subtrees_of ((k, t) # cs) = subtrees t @ subtrees_of cs"

text \<open>What a node holds: the entries of a leaf, or separators with the addresses of the children.\<close>

fun node_contents :: "ptree \<Rightarrow> Entry list" where
  "node_contents (PLeaf a es) = es"
| "node_contents (PNode a cs) = map (\<lambda>(k, t). (k, to_le_bytes (root t))) cs"

text \<open>The flags of a node: fixed-size entries or not, leaf or not, root or not.\<close>

fun flags_for :: "bool \<Rightarrow> u64 \<Rightarrow> ptree \<Rightarrow> u16" where
  "flags_for fixed r (PLeaf a es) = (if fixed then 4 else 0) + 2 + (if a = r then 1 else 0)"
| "flags_for fixed r (PNode a cs) = (if fixed then 4 else 0) + (if a = r then 1 else 0)"

definition level_for :: "ptree \<Rightarrow> u16" where
  "level_for t = word_of_nat (height t - 1)"

definition tree_node :: "usize \<Rightarrow> (u64 \<Rightarrow> bytes) \<Rightarrow> bool \<Rightarrow> u64 \<Rightarrow> ptree \<Rightarrow> bytes" where
  "tree_node bs obj fixed r t = node_block bs (obj (root t)) (flags_for fixed r t) (level_for t) (node_contents t)"

text \<open>Writing the nodes of a tree; \<open>place\<close> gives the block of a node, which for virtual nodes is not its address.\<close>

definition write_tree :: "(u64 \<Rightarrow> u64) \<Rightarrow> usize \<Rightarrow> (u64 \<Rightarrow> bytes) \<Rightarrow> bool \<Rightarrow> ptree \<Rightarrow> bytes list \<Rightarrow> bytes list" where
  "write_tree place bs obj fixed t blks =
     fold (\<lambda>u blks. blks[unat (place (root u)) := tree_node bs obj fixed (root t) u]) (subtrees t) blks"

text \<open>Every node fits its block, and index nodes have children.\<close>

definition writable :: "BTreeSubtype \<Rightarrow> usize \<Rightarrow> (u64 \<Rightarrow> bytes) \<Rightarrow> bool \<Rightarrow> u64 \<Rightarrow> ptree \<Rightarrow> bool" where
  "writable st bs obj fixed r u \<longleftrightarrow>
     layout_ok st (obj (root u)) (flags_for fixed r u) (level_for u) (node_contents u) (node_footer (flags_for fixed r u)) \<and>
     node_used (flags_for fixed r u) (node_contents u) \<le> bs \<and> (case u of PLeaf a es \<Rightarrow> True | PNode a cs \<Rightarrow> cs \<noteq> [])"

section \<open>Reading it back\<close>

lemma map_root_subtrees: "map root (subtrees t) = addrs t" "map root (subtrees_of cs) = addrs_of cs"
  by (induction t and cs rule: subtrees_subtrees_of.induct) auto

lemma height_pos: "0 < height t" "cs \<noteq> [] \<Longrightarrow> 0 < heights cs"
  by (induction t and cs rule: height_heights.induct) auto

text \<open>Placing one block per address.\<close>

lemma fold_place_other:
  "i \<notin> ix ` set us \<Longrightarrow> fold (\<lambda>u blks. blks[ix u := f u]) us blks ! i = blks ! i"
  by (induction us arbitrary: blks) auto

lemma fold_place:
  assumes "distinct (map ix us)" and "u \<in> set us" and "ix u < length blks"
  shows "fold (\<lambda>u blks. blks[ix u := f u]) us blks ! ix u = f u"
  using assms
proof (induction us arbitrary: blks)
  case (Cons v us)
  show ?case
  proof (cases "u = v")
    case True
    then show ?thesis using Cons.prems fold_place_other [of "ix v" ix us f] by simp
  next
    case False
    then show ?thesis using Cons by simp
  qed
qed simp

lemma fold_place_length: "length (fold (\<lambda>u blks. blks[ix u := f u]) us blks) = length blks"
  by (induction us arbitrary: blks) auto

lemma fold_place_all:
  "(\<forall>b \<in> set blks. P b) \<Longrightarrow> (\<forall>u \<in> set us. P (f u)) \<Longrightarrow> \<forall>b \<in> set (fold (\<lambda>u blks. blks[ix u := f u]) us blks). P b"
  by (induction us arbitrary: blks) (auto dest!: set_update_subset_insert [THEN subsetD])

text \<open>Nodes read back one by one make up the tree.\<close>

lemma tree_node_layout:
  "tree_node bs obj fixed r t = seal (node_image (obj (root t)) (flags_for fixed r t) (level_for t) (node_contents t)
     (replicate (bs - node_used (flags_for fixed r t) (node_contents t)) 0) (node_footer (flags_for fixed r t)))"
  by (simp add: tree_node_def node_block_def)

lemma stored_written:
  "(\<forall>u \<in> set (subtrees t). fetch (root u) = Ok (Some (tree_node bs obj fixed r u)) \<and> writable st bs obj fixed r u) \<Longrightarrow>
     height t \<le> 64 \<Longrightarrow> stored fetch st t"
  "(\<forall>u \<in> set (subtrees_of cs). fetch (root u) = Ok (Some (tree_node bs obj fixed r u)) \<and> writable st bs obj fixed r u) \<Longrightarrow>
     heights cs \<le> 64 \<Longrightarrow> stored_all fetch st cs"
proof (induction t and cs rule: subtrees_subtrees_of.induct)
  case (1 a es)
  then have w: "fetch a = Ok (Some (tree_node bs obj fixed r (PLeaf a es)))" "writable st bs obj fixed r (PLeaf a es)" by auto
  have leaf: "level_for (PLeaf a es) = 0" by (simp add: level_for_def)
  show ?case
    using w leaf unfolding tree_node_layout by (intro stored_leaf) (auto simp: writable_def)
next
  case (2 a cs)
  let ?t = "PNode a cs"
  have w: "fetch a = Ok (Some (tree_node bs obj fixed r ?t))" "writable st bs obj fixed r ?t" using "2.prems"(1) by auto
  then have "0 < heights cs" using height_pos(2) by (auto simp: writable_def)
  then have "unat (level_for ?t) = heights cs" using "2.prems"(2) by (simp add: level_for_def unat_of_nat)
  then have "level_for ?t \<noteq> 0" using \<open>0 < heights cs\<close> by auto
  moreover have "flags_for fixed r ?t AND BTNODE_LEAF = 0" by (simp add: BTNODE_LEAF_def)
  moreover have "stored_all fetch st cs" using 2 by simp
  ultimately show ?case
    using w unfolding tree_node_layout by (intro stored_index) (auto simp: writable_def)
qed auto

lemma writable_node:
  assumes "writable st bs obj fixed r u"
  shows "length (tree_node bs obj fixed r u) = bs" and "cksum_ok (tree_node bs obj fixed r u)"
proof -
  have "length (obj (root u)) = 32" "node_used (flags_for fixed r u) (node_contents u) \<le> bs"
    using assms by (auto simp: writable_def layout_ok_def)
  then show "length (tree_node bs obj fixed r u) = bs" "cksum_ok (tree_node bs obj fixed r u)"
    unfolding tree_node_def by (auto intro: length_node_block node_block_cksum_ok)
qed

text \<open>What writing a tree does to the blocks of an image.\<close>

lemma length_write_tree [simp]: "length (write_tree place bs obj fixed t blks) = length blks"
  by (simp add: write_tree_def fold_place_length)

lemma write_tree_lengths:
  assumes "list_all (writable st bs obj fixed (root t)) (subtrees t)" and "\<forall>b \<in> set blks. length b = bs"
  shows "\<forall>b \<in> set (write_tree place bs obj fixed t blks). length b = bs"
  unfolding write_tree_def
  using assms by (intro fold_place_all) (auto simp: list_all_iff intro: writable_node(1))

lemma write_tree_other:
  assumes "i \<notin> (\<lambda>a. unat (place a)) ` set (addrs t)"
  shows "write_tree place bs obj fixed t blks ! i = blks ! i"
  unfolding write_tree_def
  using assms by (intro fold_place_other) (auto simp flip: map_root_subtrees(1))

lemma write_tree_node:
  assumes "u \<in> set (subtrees t)" and "distinct (map place (addrs t))"
    and "list_all (\<lambda>a. unat (place a) < length blks) (addrs t)"
  shows "write_tree place bs obj fixed t blks ! unat (place (root u)) = tree_node bs obj fixed (root t) u"
proof -
  have "map (\<lambda>u. unat (place (root u))) (subtrees t) = map unat (map place (addrs t))"
    by (simp flip: map_root_subtrees(1) add: comp_def)
  moreover have "distinct (map unat (map place (addrs t)))"
    using assms(2) by (subst distinct_map) (auto simp: inj_on_def word_unat_eq_iff)
  ultimately have "distinct (map (\<lambda>u. unat (place (root u))) (subtrees t))" by simp
  moreover have "root u \<in> set (addrs t)" using assms(1) map_root_subtrees(1) [of t] by (metis image_eqI list.set_map)
  then have "unat (place (root u)) < length blks" using assms(3) by (simp add: list_all_iff)
  ultimately show ?thesis
    unfolding write_tree_def by (intro fold_place [where ix = "\<lambda>u. unat (place (root u))"] assms(1))
qed

text \<open>An image that holds the nodes of a tree at their addresses stores the tree.\<close>

lemma image_stores_tree:
  assumes "list_all (writable st bs obj fixed (root t)) (subtrees t)" and "height t \<le> 64"
    and "\<And>u. u \<in> set (subtrees t) \<Longrightarrow> unat (root u) < length img \<and> img ! unat (root u) = tree_node bs obj fixed (root t) u"
    and "\<forall>b \<in> set img. length b = bs" and "length img * bs < 2 ^ 64" and "0 < bs"
  shows "stored (\<lambda>a. read_verified_node (cursor (concat img)) a bs) st t"
proof (rule stored_written(1) [OF _ assms(2)], intro ballI conjI)
  fix u
  assume u: "u \<in> set (subtrees t)"
  then show w: "writable st bs obj fixed (root t) u" using assms(1) by (simp add: list_all_iff)
  show "read_verified_node (cursor (concat img)) (root u) bs = Ok (Some (tree_node bs obj fixed (root t) u))"
    using read_verified_node_block [OF assms(4), of "root u"] assms(3) [OF u] assms(5,6) writable_node(2) [OF w] by simp
qed

lemma written_tree_stored:
  assumes "list_all (writable st bs obj fixed (root t)) (subtrees t)" and "height t \<le> 64" and "distinct (addrs t)"
    and "list_all (\<lambda>a. unat a < length blks) (addrs t)" and "\<forall>b \<in> set blks. length b = bs"
    and "length blks * bs < 2 ^ 64" and "0 < bs"
  shows "stored (\<lambda>a. read_verified_node (cursor (concat (write_tree (\<lambda>a. a) bs obj fixed t blks))) a bs) st t"
proof (rule image_stores_tree [OF assms(1,2)])
  fix u
  assume u: "u \<in> set (subtrees t)"
  then have "root u \<in> set (addrs t)" using map_root_subtrees(1) [of t] by (metis image_eqI list.set_map)
  then show "unat (root u) < length (write_tree (\<lambda>a. a) bs obj fixed t blks) \<and>
      write_tree (\<lambda>a. a) bs obj fixed t blks ! unat (root u) = tree_node bs obj fixed (root t) u"
    using write_tree_node [OF u, where place = "\<lambda>a. a"] assms(3,4) by (simp add: list_all_iff)
qed (use write_tree_lengths [OF assms(1,5)] assms(6,7) in auto)

lemma visit_all_push: "visit_all (\<lambda>k v out. out @ [(k, v)]) es out = out @ es"
  by (induction es arbitrary: out) auto

section \<open>Properties\<close>

text \<open>
  C12 (roundtrip): every tree of at most 64 levels whose nodes fit their blocks, written at any distinct
  addresses of an image, is read back by \<^verbatim>\<open>for_each_leaf_entry\<close> entry for entry in key order, whatever
  the other blocks of the image hold.
\<close>

theorem written_tree_reads_back:
  assumes "list_all (writable st bs obj fixed (root t)) (subtrees t)" and "height t \<le> 64" and "distinct (addrs t)"
    and "list_all (\<lambda>a. unat a < length blks) (addrs t)" and "\<forall>b \<in> set blks. length b = bs"
    and "length blks * bs < 2 ^ 64" and "0 < bs"
  shows "for_each_leaf_entry (cursor (concat (write_tree (\<lambda>a. a) bs obj fixed t blks))) (root t) bs st (\<lambda>k v out. out @ [(k, v)]) [] =
    Ok (all_entries t)"
  by (simp add: for_each_leaf_entry_stored [OF written_tree_stored [OF assms] assms(2,3)] visit_all_push)

text \<open>The two-level tree of the examples, written over an image of other data.\<close>

lemma demo_writable: "list_all (writable Omap 256 (\<lambda>_. demo_obj) True 1) (subtrees demo_tree)"
  by (simp add: demo_tree_def writable_def layout_ok_def level_for_def demo_defs node_used_def toc_entry_len_def node_footer_def
      BTNODE_FIXED_KV_SIZE_def BTNODE_ROOT_def BTNODE_LEAF_def)

theorem written_tree_reads_back_witness:
  "for_each_leaf_entry (cursor (concat (write_tree (\<lambda>a. a) 256 (\<lambda>_. demo_obj) True demo_tree (replicate 5 (replicate 256 0xa5))))) 1 256
     Omap (\<lambda>k v out. out @ [(k, v)]) [] = Ok (demo_left @ demo_right)"
proof -
  have "list_all (\<lambda>a. unat a < 5) (addrs demo_tree)" by (simp add: demo_tree_def)
  then show ?thesis
    using written_tree_reads_back [of Omap 256 "\<lambda>_. demo_obj" True demo_tree "replicate 5 (replicate 256 0xa5)"] demo_writable
    by simp
qed

end
