(* ===== verification/Volume_Image.thy ===== *)
theory Volume_Image
  imports Tree_Image Xattr
begin

text \<open>
  A whole volume written to an image: the object map header, the object-map tree at physical addresses
  and the file-system tree at the blocks that the object map gives for its virtual nodes. Every such
  image is a stored volume (\<open>fs_stored\<close>), so what was written is what navigation finds.
\<close>

definition omap_phys_image :: "usize \<Rightarrow> u64 \<Rightarrow> bytes" where
  "omap_phys_image bs tree_oid = seal (replicate 24 0 @ to_le_bytes (0xb :: u32) @ replicate 20 0 @
     to_le_bytes tree_oid @ replicate (bs - 56) 0)"

definition write_volume ::
  "(u64 \<Rightarrow> u64) \<Rightarrow> usize \<Rightarrow> (u64 \<Rightarrow> bytes) \<Rightarrow> u64 \<Rightarrow> ptree \<Rightarrow> ptree \<Rightarrow> bytes list \<Rightarrow> bytes list" where
  "write_volume place bs obj om_addr ot t blks =
     write_tree place bs obj False t
       (write_tree (\<lambda>a. a) bs obj True ot (blks[unat om_addr := omap_phys_image bs (root ot)]))"

text \<open>
  The trees fit: nodes fit their blocks, all blocks are different ones of the image, both trees are in
  order, and the object map gives every node of the file-system tree its block at the transaction id.
\<close>

definition volume_fits ::
  "(u64 \<Rightarrow> u64) \<Rightarrow> usize \<Rightarrow> (u64 \<Rightarrow> bytes) \<Rightarrow> u64 \<Rightarrow> u64 \<Rightarrow> ptree \<Rightarrow> ptree \<Rightarrow> bytes list \<Rightarrow> bool" where
  "volume_fits place bs obj xid om_addr ot t blks \<longleftrightarrow>
     list_all (writable Omap bs obj True (root ot)) (subtrees ot) \<and> height ot \<le> 64 \<and> seps_ok ot \<and>
     list_all (writable FsTree bs obj False (root t)) (subtrees t) \<and> height t \<le> 64 \<and> oid_ordered t \<and>
     distinct (om_addr # addrs ot @ map place (addrs t)) \<and>
     list_all (\<lambda>a. unat a < length blks) (om_addr # addrs ot @ map place (addrs t)) \<and>
     list_all (\<lambda>a. map_option oe_paddr (omap_scan a xid (all_entries ot)) = Some (place a)) (addrs t) \<and>
     (\<forall>b \<in> set blks. length b = bs) \<and> length blks * bs < 2 ^ 64 \<and> 64 \<le> bs"

section \<open>The object map header\<close>

lemma length_omap_phys_image: "56 \<le> bs \<Longrightarrow> length (omap_phys_image bs a) = bs"
  by (simp add: omap_phys_image_def)

lemma omap_phys_image_parse:
  assumes "64 \<le> bs"
  shows "\<exists>om. ObjectMap_parse (omap_phys_image bs a) = Ok om \<and> om_tree_oid om = a"
proof -
  have "cksum_ok (omap_phys_image bs a)" unfolding omap_phys_image_def by (rule seal_cksum_ok) simp
  moreover have "le_u32 (omap_phys_image bs a) 24 = 0xb" "le_u64 (omap_phys_image bs a) 48 = a"
    by (simp_all add: omap_phys_image_def le_seal slice_simps)
  ultimately show ?thesis
    using assms length_omap_phys_image [of bs a]
    by (simp add: ObjectMap_parse_def ObjPhys_parse_def obj_type_def OBJ_PHYS_LEN_def OBJECT_TYPE_OMAP_def
        OMAP_PHYS_MIN_LEN_def)
qed

section \<open>The blocks of the image\<close>

lemma subtree_root: "u \<in> set (subtrees t) \<Longrightarrow> root u \<in> set (addrs t)"
  using map_root_subtrees(1) [of t] by (metis image_eqI list.set_map)

lemma unat_place_notin: "p \<notin> f ` A \<Longrightarrow> unat (p :: u64) \<notin> (\<lambda>a. unat (f a)) ` A"
  by (auto simp: word_unat_eq_iff [symmetric])

lemma volume_blocks:
  assumes "volume_fits place bs obj xid om_addr ot t blks"
  defines "img \<equiv> write_volume place bs obj om_addr ot t blks"
  shows "\<forall>b \<in> set img. length b = bs" and "length img = length blks"
    and "img ! unat om_addr = omap_phys_image bs (root ot)"
    and "u \<in> set (subtrees ot) \<Longrightarrow> img ! unat (root u) = tree_node bs obj True (root ot) u"
    and "u \<in> set (subtrees t) \<Longrightarrow> img ! unat (place (root u)) = tree_node bs obj False (root t) u"
proof -
  note fits = assms(1) [unfolded volume_fits_def]
  let ?b0 = "blks[unat om_addr := omap_phys_image bs (root ot)]"
  let ?b1 = "write_tree (\<lambda>a. a) bs obj True ot ?b0"
  have img: "img = write_tree place bs obj False t ?b1" by (simp add: img_def write_volume_def)
  have "\<forall>b \<in> set ?b0. length b = bs"
    using fits length_omap_phys_image [of bs "root ot"] by (auto dest!: set_update_subset_insert [THEN subsetD])
  then have b1: "\<forall>b \<in> set ?b1. length b = bs" using fits by (intro write_tree_lengths [where st = Omap]) simp_all
  show "\<forall>b \<in> set img. length b = bs"
    unfolding img by (rule write_tree_lengths [OF _ b1, where st = FsTree]) (use fits in simp)
  show "length img = length blks" by (simp add: img)
  have fresh: "img ! unat a = ?b1 ! unat a" if "a \<in> set (om_addr # addrs ot)" for a
    unfolding img using fits that by (intro write_tree_other unat_place_notin) auto
  have "?b1 ! unat om_addr = ?b0 ! unat om_addr"
    using fits by (intro write_tree_other) (auto simp: word_unat_eq_iff [symmetric])
  then show "img ! unat om_addr = omap_phys_image bs (root ot)" using fits fresh [of om_addr] by simp
  show "img ! unat (root u) = tree_node bs obj True (root ot) u" if "u \<in> set (subtrees ot)"
    using fresh [of "root u"] write_tree_node [OF that, where place = "\<lambda>a. a" and blks = ?b0] fits subtree_root [OF that]
    by simp
  show "img ! unat (place (root u)) = tree_node bs obj False (root t) u" if "u \<in> set (subtrees t)"
    unfolding img using fits by (intro write_tree_node [OF that]) (auto simp: list_all_iff)
qed

section \<open>Reading it back\<close>

lemma read_at_block:
  assumes "\<forall>b \<in> set img. length b = bs" and "unat a < length img" and "length img * bs < 2 ^ 64" and "0 < bs"
  shows "read_at (cursor (concat img)) (saturating_mul a (word_of_nat bs)) bs = Ok (img ! unat a)"
proof -
  have "unat a * bs < length img * bs" using assms(2,4) by simp
  then have small: "unat a * bs < 2 ^ 64" using assms(3) by (rule less_trans)
  moreover have "bs \<le> length img * bs" using assms(2) by (cases "length img") auto
  then have "bs < 2 ^ 64" using assms(3) by (rule le_less_trans)
  then have "unat (word_of_nat bs :: u64) = bs" by (simp add: unat_of_nat)
  ultimately have "unat (saturating_mul a (word_of_nat bs)) = unat a * bs"
    by (simp add: saturating_mul_def unat_word_ariths)
  then show ?thesis using cursor_block [OF assms(1,2)] by (simp add: read_at_def)
qed

text \<open>A node at the block that the object map gives for it is read back, and so is a tree of such nodes.\<close>

lemma virtual_node_placed:
  assumes img: "\<forall>b \<in> set img. length b = bs" "length img * bs < 2 ^ 64" "0 < bs"
    and omap: "stored (\<lambda>a. read_verified_node (cursor (concat img)) a bs) Omap ot" "root ot = om_tree_oid om"
      "height ot \<le> 64" "distinct (addrs ot)" "seps_ok ot"
    and node: "map_option oe_paddr (omap_scan oid xid (all_entries ot)) = Some p" "unat p < length img"
      "img ! unat p = blk" "cksum_ok blk"
  shows "virtual_node (cursor (concat img)) om xid bs oid = Ok (Some blk)"
proof -
  obtain e where e: "omap_scan oid xid (all_entries ot) = Some e" "oe_paddr e = p" using node(1) by auto
  have "read_at (cursor (concat img)) (saturating_mul p (word_of_nat bs)) bs = Ok blk"
    using read_at_block [OF img(1) node(2) img(2,3)] node(3) by simp
  then show ?thesis
    using node(4) resolve_stored [OF omap, of oid xid] e by (simp add: virtual_node_def read_virtual_node_def)
qed

lemma virtual_tree_stored:
  assumes img: "\<forall>b \<in> set img. length b = bs" "length img * bs < 2 ^ 64" "0 < bs"
    and omap: "stored (\<lambda>a. read_verified_node (cursor (concat img)) a bs) Omap ot" "root ot = om_tree_oid om"
      "height ot \<le> 64" "distinct (addrs ot)" "seps_ok ot"
    and nodes: "\<And>u. u \<in> set (subtrees t) \<Longrightarrow> unat (place (root u)) < length img \<and>
      img ! unat (place (root u)) = tree_node bs obj False (root t) u"
    and fits: "list_all (writable FsTree bs obj False (root t)) (subtrees t)" "height t \<le> 64"
      "list_all (\<lambda>a. map_option oe_paddr (omap_scan a xid (all_entries ot)) = Some (place a)) (addrs t)"
  shows "stored (virtual_node (cursor (concat img)) om xid bs) FsTree t"
proof (rule stored_written(1) [OF _ fits(2)], intro ballI conjI)
  fix u
  assume u: "u \<in> set (subtrees t)"
  then show w: "writable FsTree bs obj False (root t) u" using fits(1) by (simp add: list_all_iff)
  show "virtual_node (cursor (concat img)) om xid bs (root u) = Ok (Some (tree_node bs obj False (root t) u))"
    using fits(3) subtree_root [OF u] nodes [OF u] writable_node(2) [OF w]
    by (intro virtual_node_placed [OF img omap, where p = "place (root u)"]) (auto simp: list_all_iff)
qed

text \<open>What reading the object map of a written volume gives.\<close>

lemma written_volume_omap:
  assumes fits: "volume_fits place bs obj xid om_addr ot t blks"
  shows "\<exists>buf om. read_at (cursor (concat (write_volume place bs obj om_addr ot t blks)))
      (saturating_mul om_addr (word_of_nat bs)) bs = Ok buf \<and> ObjectMap_parse buf = Ok om \<and> root ot = om_tree_oid om \<and>
    stored (\<lambda>a. read_verified_node (cursor (concat (write_volume place bs obj om_addr ot t blks))) a bs) Omap ot"
proof -
  note f = fits [unfolded volume_fits_def] and b = volume_blocks [OF fits]
  have bounds: "length (write_volume place bs obj om_addr ot t blks) * bs < 2 ^ 64" "0 < bs" using f b(2) by simp_all
  obtain om where "ObjectMap_parse (omap_phys_image bs (root ot)) = Ok om" "om_tree_oid om = root ot"
    using omap_phys_image_parse f by blast
  moreover have "read_at (cursor (concat (write_volume place bs obj om_addr ot t blks)))
      (saturating_mul om_addr (word_of_nat bs)) bs = Ok (omap_phys_image bs (root ot))"
    using read_at_block [OF b(1) _ bounds, of om_addr] f b(2,3) by simp
  moreover have "stored (\<lambda>a. read_verified_node (cursor (concat (write_volume place bs obj om_addr ot t blks))) a bs) Omap ot"
    using f b(1,2,4) bounds subtree_root [of _ ot] by (intro image_stores_tree) (auto simp: list_all_iff)
  ultimately show ?thesis by auto
qed

lemma written_volume_stored:
  assumes fits: "volume_fits place bs obj (vol_xid v) (vol_omap_oid v) ot t blks" and "vol_root_tree_oid v = root t"
  shows "fs_stored (cursor (concat (write_volume place bs obj (vol_omap_oid v) ot t blks))) v bs t"
proof -
  note f = fits [unfolded volume_fits_def] and b = volume_blocks [OF fits]
  obtain buf om where om: "read_at (cursor (concat (write_volume place bs obj (vol_omap_oid v) ot t blks)))
      (saturating_mul (vol_omap_oid v) (word_of_nat bs)) bs = Ok buf" "ObjectMap_parse buf = Ok om" "root ot = om_tree_oid om"
    "stored (\<lambda>a. read_verified_node (cursor (concat (write_volume place bs obj (vol_omap_oid v) ot t blks))) a bs) Omap ot"
    using written_volume_omap [OF fits] by blast
  have "stored (virtual_node (cursor (concat (write_volume place bs obj (vol_omap_oid v) ot t blks))) om (vol_xid v) bs) FsTree t"
    using f b(1,2) b(5) subtree_root [of _ t]
    by (intro virtual_tree_stored [OF b(1) _ _ om(4,3), where place = place and obj = obj]) (auto simp: list_all_iff)
  moreover have "distinct (addrs t)" using f by (simp add: distinct_map)
  ultimately show ?thesis using om(1,2) f assms(2) by (auto simp: fs_stored_def)
qed

end
