(* ===== verification/Superblock_Image.thy ===== *)
theory Superblock_Image
  imports Lib_Container Volume
begin

text \<open>
  The two superblocks as the format lays them out, every field the crate reads at its offset and zeros
  between: any container or volume superblock with fields in range, written this way and sealed, is
  parsed back to itself.
\<close>

section \<open>Arrays\<close>

lemma arr_whole: "length xs = n \<Longrightarrow> arr n xs 0 = xs"
  using arr_here [of xs n "[]"] by simp

lemma takeWhile_padded: "0 \<notin> set xs \<Longrightarrow> takeWhile (\<lambda>b. b \<noteq> 0) (xs @ replicate n 0) = (xs :: bytes)"
  by (induction xs) (auto simp: takeWhile_eq_Nil_iff)

lemma length_concat_u64 [simp]: "length (concat (map to_le_bytes (ws :: u64 list))) = 8 * length ws"
  by (induction ws) simp_all

lemma le_u64_array:
  "map (\<lambda>i. le_u64 (concat (map to_le_bytes ws) @ rest) (i * 8)) [0..<length ws] = (ws :: u64 list)"
proof (induction ws)
  case (Cons w ws)
  have "[0..<length (w # ws)] = 0 # map Suc [0..<length ws]" by (simp add: map_Suc_upt upt_conv_Cons del: upt_Suc)
  moreover have "le_u64 (to_le_bytes w @ xs) (Suc i * 8) = le_u64 xs (i * 8)" for i and xs :: bytes
    by (simp add: le_append_right)
  ultimately show ?case using Cons by (simp add: comp_def le_to_le_bytes)
qed simp

section \<open>The container superblock\<close>

definition tree_flag :: "bool \<Rightarrow> u32" where
  "tree_flag b = (if b then XP_BLOCKS_TREE_FLAG else 0)"

definition nx_head :: "NxSuperblock \<Rightarrow> bytes" where
  "nx_head sb = replicate 8 0 @ to_le_bytes (1 :: u64) @ to_le_bytes (nx_xid sb) @ to_le_bytes (0x80000001 :: u32) @
     replicate 4 0 @ to_le_bytes NX_MAGIC @ to_le_bytes (nx_block_size sb) @ to_le_bytes (nx_block_count sb) @
     replicate 16 0 @ to_le_bytes (nx_incompatible_features sb) @ nx_uuid sb @ replicate 16 0 @
     to_le_bytes (xp_desc_blocks sb OR tree_flag (desc_is_tree sb)) @
     to_le_bytes (xp_data_blocks sb OR tree_flag (data_is_tree sb)) @
     to_le_bytes (xp_desc_base sb) @ to_le_bytes (xp_data_base sb) @ replicate 24 0 @
     to_le_bytes (spaceman_oid sb) @ to_le_bytes (nx_omap_oid sb) @ to_le_bytes (reaper_oid sb) @ replicate 4 0 @
     to_le_bytes (word_of_nat (length (fs_oids sb)) :: u32)"

definition nx_image :: "NxSuperblock \<Rightarrow> bytes" where
  "nx_image sb = seal (nx_head sb @ concat (map to_le_bytes (fs_oids sb)) @ replicate (3912 - 8 * length (fs_oids sb)) 0)"

definition nx_fields_ok :: "NxSuperblock \<Rightarrow> bool" where
  "nx_fields_ok sb \<longleftrightarrow> length (nx_uuid sb) = 16 \<and> unat (xp_desc_blocks sb) < 2 ^ 31 \<and> unat (xp_data_blocks sb) < 2 ^ 31 \<and>
     length (fs_oids sb) \<le> 100 \<and> 0 \<notin> set (fs_oids sb)"

lemma length_nx_head: "nx_fields_ok sb \<Longrightarrow> length (nx_head sb) = 184"
  by (simp add: nx_head_def nx_fields_ok_def)

lemma length_nx_image: "nx_fields_ok sb \<Longrightarrow> length (nx_image sb) = 4096"
  unfolding nx_image_def by (subst length_seal) (simp_all add: length_nx_head nx_fields_ok_def)

lemma tree_flag_bit: "bit XP_BLOCKS_TREE_FLAG i \<longleftrightarrow> i = 31"
proof -
  have flag: "XP_BLOCKS_TREE_FLAG = 2 ^ 31" by (simp add: XP_BLOCKS_TREE_FLAG_def)
  show ?thesis unfolding flag bit_exp_iff by auto
qed

lemma xp_blocks_flag:
  assumes "unat n < 2 ^ 31"
  shows "(n OR tree_flag b) AND NOT XP_BLOCKS_TREE_FLAG = n"
    and "(n OR tree_flag b) AND XP_BLOCKS_TREE_FLAG \<noteq> 0 \<longleftrightarrow> b"
proof -
  have "n = take_bit 31 n" using assms by (simp add: word_unat_eq_iff unsigned_take_bit_eq take_bit_nat_eq_self)
  then have n: "\<not> bit n 31" by (metis bit_take_bit_iff less_irrefl)
  show "(n OR tree_flag b) AND NOT XP_BLOCKS_TREE_FLAG = n"
    using n by (intro bit_eqI) (auto simp: tree_flag_def tree_flag_bit bit_simps)
  have "n AND XP_BLOCKS_TREE_FLAG = 0" using n by (intro bit_eqI) (auto simp: tree_flag_bit bit_simps)
  moreover have "XP_BLOCKS_TREE_FLAG \<noteq> 0" by (simp add: XP_BLOCKS_TREE_FLAG_def)
  ultimately show "(n OR tree_flag b) AND XP_BLOCKS_TREE_FLAG \<noteq> 0 \<longleftrightarrow> b"
    by (simp add: tree_flag_def bit.conj_disj_distrib2)
qed

lemma nx_image_fields:
  assumes "nx_fields_ok sb"
  shows "le_u64 (nx_image sb) 16 = nx_xid sb" "le_u32 (nx_image sb) 24 = 0x80000001" "le_u32 (nx_image sb) 32 = NX_MAGIC"
    "le_u32 (nx_image sb) 36 = nx_block_size sb" "le_u64 (nx_image sb) 40 = nx_block_count sb"
    "le_u64 (nx_image sb) 64 = nx_incompatible_features sb" "arr 16 (nx_image sb) 72 = nx_uuid sb"
    "le_u32 (nx_image sb) 104 = xp_desc_blocks sb OR tree_flag (desc_is_tree sb)"
    "le_u32 (nx_image sb) 108 = xp_data_blocks sb OR tree_flag (data_is_tree sb)"
    "le_u64 (nx_image sb) 112 = xp_desc_base sb" "le_u64 (nx_image sb) 120 = xp_data_base sb"
    "le_u64 (nx_image sb) 152 = spaceman_oid sb" "le_u64 (nx_image sb) 160 = nx_omap_oid sb"
    "le_u64 (nx_image sb) 168 = reaper_oid sb" "le_u32 (nx_image sb) 180 = word_of_nat (length (fs_oids sb))"
  using assms by (simp_all add: nx_image_def le_seal nx_head_def nx_fields_ok_def slice_simps arr_whole)

lemma nx_image_cksum_ok: "cksum_ok (nx_image sb)"
  unfolding nx_image_def by (rule seal_cksum_ok) (simp add: nx_head_def)

lemma nx_image_fs_oids:
  assumes "nx_fields_ok sb"
  shows "nx_fs_oids (nx_image sb) (length (fs_oids sb)) = fs_oids sb"
proof -
  let ?rest = "replicate (3912 - 8 * length (fs_oids sb)) (0 :: u8)"
  have "le_u64 (nx_image sb) (184 + i * 8) = le_u64 (concat (map to_le_bytes (fs_oids sb)) @ ?rest) (i * 8)" for i
    using length_nx_head [OF assms] by (simp add: nx_image_def le_seal le_append_right)
  then have "map (\<lambda>i. le_u64 (nx_image sb) (184 + i * 8)) [0..<length (fs_oids sb)] = fs_oids sb"
    by (simp add: le_u64_array)
  moreover have "filter (\<lambda>oid. oid \<noteq> 0) (fs_oids sb) = fs_oids sb"
    using assms by (auto simp: nx_fields_ok_def filter_id_conv)
  ultimately show ?thesis by (simp add: nx_fs_oids_def)
qed

lemma nx_image_parse:
  assumes "nx_fields_ok sb"
  shows "NxSuperblock_parse (nx_image sb) = Ok sb"
proof -
  have "unat (min (word_of_nat (length (fs_oids sb))) NX_MAX_FILE_SYSTEMS) = length (fs_oids sb)"
    using assms by (simp add: nx_fields_ok_def NX_MAX_FILE_SYSTEMS_def min_def word_le_nat_alt unat_of_nat)
  then have "NxSuperblock_parse (nx_image sb) = Ok \<lparr>nx_xid = nx_xid sb, nx_uuid = nx_uuid sb, nx_block_size = nx_block_size sb,
      nx_block_count = nx_block_count sb, nx_incompatible_features = nx_incompatible_features sb, xp_desc_base = xp_desc_base sb,
      xp_desc_blocks = xp_desc_blocks sb, xp_data_base = xp_data_base sb, xp_data_blocks = xp_data_blocks sb,
      nx_omap_oid = nx_omap_oid sb, spaceman_oid = spaceman_oid sb, reaper_oid = reaper_oid sb, fs_oids = fs_oids sb,
      desc_is_tree = desc_is_tree sb, data_is_tree = data_is_tree sb\<rparr>"
    using assms length_nx_image [OF assms] nx_image_cksum_ok [of sb] nx_image_fields [OF assms]
      nx_image_fs_oids [OF assms] xp_blocks_flag [of "xp_desc_blocks sb"] xp_blocks_flag [of "xp_data_blocks sb"]
    by (simp add: NxSuperblock_parse_def Let_def nx_fields_ok_def)
  then show ?thesis by simp
qed

lemma nx_image_valid: "nx_fields_ok sb \<Longrightarrow> valid_nx (nx_image sb)"
  using length_nx_image [of sb] nx_image_fields [of sb] nx_image_cksum_ok [of sb]
  by (simp add: valid_nx_def ObjPhys_parse_def obj_type_def OBJ_PHYS_LEN_def OBJECT_TYPE_NX_SUPERBLOCK_def)

section \<open>The volume superblock\<close>

definition apsb_image :: "usize \<Rightarrow> ApfsVolume \<Rightarrow> bytes" where
  "apsb_image bs v = seal (replicate 8 0 @ to_le_bytes (vol_oid v) @ to_le_bytes (vol_xid v) @ to_le_bytes (0xd :: u32) @
     replicate 4 0 @ to_le_bytes APFS_MAGIC @ to_le_bytes (vol_fs_index v) @ to_le_bytes (vol_features v) @
     to_le_bytes (vol_readonly_compatible_features v) @ to_le_bytes (vol_incompatible_features v) @ replicate 52 0 @
     to_le_bytes (vol_root_tree_type v) @ replicate 8 0 @ to_le_bytes (vol_omap_oid v) @ to_le_bytes (vol_root_tree_oid v) @
     to_le_bytes (vol_extentref_tree_oid v) @ to_le_bytes (vol_snap_meta_tree_oid v) @ replicate 80 0 @ vol_uuid v @
     to_le_bytes (vol_fs_flags v) @ replicate 440 0 @ vol_name v @ replicate (256 - length (vol_name v)) 0 @
     replicate (bs - 960) 0)"

definition vol_fields_ok :: "ApfsVolume \<Rightarrow> bool" where
  "vol_fields_ok v \<longleftrightarrow> length (vol_uuid v) = 16 \<and> length (vol_name v) \<le> 256 \<and> name_ok (vol_name v)"

lemma length_apsb_image: "vol_fields_ok v \<Longrightarrow> 960 \<le> bs \<Longrightarrow> length (apsb_image bs v) = bs"
  unfolding apsb_image_def by (subst length_seal) (simp_all add: vol_fields_ok_def)

lemma apsb_image_fields:
  assumes "vol_fields_ok v"
  shows "le_u64 (apsb_image bs v) 8 = vol_oid v" "le_u64 (apsb_image bs v) 16 = vol_xid v" "le_u32 (apsb_image bs v) 24 = 0xd"
    "le_u32 (apsb_image bs v) 32 = APFS_MAGIC" "le_u32 (apsb_image bs v) 36 = vol_fs_index v"
    "le_u64 (apsb_image bs v) 40 = vol_features v" "le_u64 (apsb_image bs v) 48 = vol_readonly_compatible_features v"
    "le_u64 (apsb_image bs v) 56 = vol_incompatible_features v" "le_u32 (apsb_image bs v) 116 = vol_root_tree_type v"
    "le_u64 (apsb_image bs v) 128 = vol_omap_oid v" "le_u64 (apsb_image bs v) 136 = vol_root_tree_oid v"
    "le_u64 (apsb_image bs v) 144 = vol_extentref_tree_oid v" "le_u64 (apsb_image bs v) 152 = vol_snap_meta_tree_oid v"
    "arr 16 (apsb_image bs v) 240 = vol_uuid v" "le_u64 (apsb_image bs v) 256 = vol_fs_flags v"
  using assms by (simp_all add: apsb_image_def le_seal vol_fields_ok_def slice_simps arr_whole)

lemma apsb_image_name:
  assumes "vol_fields_ok v"
  shows "decode_volname (apsb_image bs v) 704 256 = vol_name v"
proof -
  let ?field = "vol_name v @ replicate (256 - length (vol_name v)) 0"
  have "drop 704 (apsb_image bs v) = ?field @ replicate (bs - 960) 0"
    using assms unfolding apsb_image_def by (subst drop_seal) (simp_all add: vol_fields_ok_def)
  moreover have "704 + 256 \<le> length (apsb_image bs v)"
    using assms unfolding apsb_image_def by (subst length_seal) (simp_all add: vol_fields_ok_def)
  ultimately have "get_range (apsb_image bs v) 704 (704 + 256) = Some ?field"
    using assms by (simp add: get_range_def vol_fields_ok_def)
  moreover have "takeWhile (\<lambda>b. b \<noteq> 0) ?field = vol_name v"
    using assms by (intro takeWhile_padded) (simp add: vol_fields_ok_def name_ok_def)
  ultimately show ?thesis
    using assms by (simp add: decode_volname_def vol_fields_ok_def name_ok_def from_utf8_lossy_valid)
qed

lemma apsb_image_parse:
  assumes "vol_fields_ok v" and "960 \<le> bs"
  shows "ApfsVolume_parse (apsb_image bs v) = Ok v"
proof -
  have "cksum_ok (apsb_image bs v)" unfolding apsb_image_def by (rule seal_cksum_ok) simp
  then have "ApfsVolume_parse (apsb_image bs v) = Ok \<lparr>vol_oid = vol_oid v, vol_xid = vol_xid v, vol_fs_index = vol_fs_index v,
      vol_features = vol_features v, vol_readonly_compatible_features = vol_readonly_compatible_features v,
      vol_incompatible_features = vol_incompatible_features v, vol_root_tree_type = vol_root_tree_type v,
      vol_omap_oid = vol_omap_oid v, vol_root_tree_oid = vol_root_tree_oid v,
      vol_extentref_tree_oid = vol_extentref_tree_oid v, vol_snap_meta_tree_oid = vol_snap_meta_tree_oid v,
      vol_uuid = vol_uuid v, vol_fs_flags = vol_fs_flags v, vol_name = vol_name v\<rparr>"
    using assms length_apsb_image [OF assms] apsb_image_fields [OF assms(1)] apsb_image_name [OF assms(1)]
    by (simp add: ApfsVolume_parse_def ObjPhys_parse_def obj_type_def OBJ_PHYS_LEN_def OBJECT_TYPE_FS_def APSB_MIN_LEN_def
        OFF_VOLNAME_def VOLNAME_LEN_def Let_def)
  then show ?thesis by simp
qed

end
