(* ===== verification/Container_Image.thy ===== *)
theory Container_Image
  imports Volume_Image Superblock_Image Vfs
begin

text \<open>
  A whole container written to an image: block zero, the live superblock in its slot of the checkpoint
  ring, the container object map, the volume superblock and the volume (\<open>write_volume\<close>). Opening the
  image finds the volume that was written, whatever else the ring and the other blocks hold, as long as
  no other superblock of the ring is as recent.
\<close>

record layout =
  lay_boot :: NxSuperblock       \<comment> \<open>written to block zero\<close>
  lay_live :: NxSuperblock       \<comment> \<open>the live superblock\<close>
  lay_slot :: u64                \<comment> \<open>its block in the ring\<close>
  lay_comap :: ptree             \<comment> \<open>the tree of the container object map\<close>
  lay_volume :: ApfsVolume
  lay_vaddr :: u64               \<comment> \<open>the block of the volume superblock\<close>
  lay_vomap :: ptree             \<comment> \<open>the tree of the volume object map\<close>
  lay_tree :: ptree              \<comment> \<open>the file-system tree\<close>
  lay_place :: "u64 \<Rightarrow> u64"     \<comment> \<open>the blocks of its nodes\<close>
  lay_obj :: "u64 \<Rightarrow> bytes"     \<comment> \<open>the object headers of tree nodes\<close>

definition write_heads :: "layout \<Rightarrow> bytes list \<Rightarrow> bytes list" where
  "write_heads l blks =
     blks[0 := nx_image (lay_boot l), unat (lay_slot l) := nx_image (lay_live l),
          unat (nx_omap_oid (lay_live l)) := omap_phys_image 4096 (root (lay_comap l)),
          unat (lay_vaddr l) := apsb_image 4096 (lay_volume l)]"

definition write_container :: "layout \<Rightarrow> bytes list \<Rightarrow> bytes list" where
  "write_container l blks =
     write_volume (lay_place l) 4096 (lay_obj l) (vol_omap_oid (lay_volume l)) (lay_vomap l) (lay_tree l)
       (write_tree (\<lambda>a. a) 4096 (lay_obj l) True (lay_comap l) (write_heads l blks))"

text \<open>The blocks of the metadata, and the addresses of the ring.\<close>

definition head_addrs :: "layout \<Rightarrow> u64 list" where
  "head_addrs l = [0, lay_slot l, nx_omap_oid (lay_live l), lay_vaddr l]"

definition volume_addrs :: "layout \<Rightarrow> u64 list" where
  "volume_addrs l = vol_omap_oid (lay_volume l) # addrs (lay_vomap l) @ map (lay_place l) (addrs (lay_tree l))"

definition meta_addrs :: "layout \<Rightarrow> u64 list" where
  "meta_addrs l = head_addrs l @ addrs (lay_comap l) @ volume_addrs l"

definition ring_addrs :: "layout \<Rightarrow> u64 list" where
  "ring_addrs l = map (\<lambda>i. xp_desc_base (lay_boot l) + word_of_nat i) [0..<unat (xp_desc_blocks (lay_boot l))]"

text \<open>
  What the parts of a container ask of each other: superblocks with fields in range and the default
  block size, a slot in the ring, no other block of the ring that is metadata or as recent a superblock,
  a container object map that gives the volumes their blocks, the first one that of the volume superblock.
\<close>

definition superblocks_fit :: "layout \<Rightarrow> bool" where
  "superblocks_fit l \<longleftrightarrow> nx_fields_ok (lay_boot l) \<and> nx_fields_ok (lay_live l) \<and> vol_fields_ok (lay_volume l) \<and>
     nx_block_size (lay_boot l) = NX_DEFAULT_BLOCK_SIZE \<and> nx_block_size (lay_live l) = NX_DEFAULT_BLOCK_SIZE \<and>
     \<not> is_fusion (lay_boot l) \<and> \<not> xp_desc_is_tree (lay_boot l) \<and> vol_root_tree_oid (lay_volume l) = root (lay_tree l)"

definition ring_fits :: "layout \<Rightarrow> bytes list \<Rightarrow> bool" where
  "ring_fits l blks \<longleftrightarrow>
     unat (xp_desc_base (lay_boot l)) + unat (xp_desc_blocks (lay_boot l)) \<le> length blks \<and>
     lay_slot l \<in> set (ring_addrs l) \<and>
     list_all (\<lambda>a. a = lay_slot l \<or> a \<notin> set (meta_addrs l) \<and>
        (valid_nx (blks ! unat a) \<longrightarrow> le_u64 (blks ! unat a) 16 < nx_xid (lay_live l))) (ring_addrs l)"

definition comap_fits :: "layout \<Rightarrow> bool" where
  "comap_fits l \<longleftrightarrow>
     list_all (writable Omap 4096 (lay_obj l) True (root (lay_comap l))) (subtrees (lay_comap l)) \<and>
     height (lay_comap l) \<le> 64 \<and> seps_ok (lay_comap l) \<and>
     (\<exists>oid oids rest. fs_oids (lay_live l) = oid # oids \<and>
        map (\<lambda>oid. map_option oe_paddr (omap_scan oid (nx_xid (lay_live l)) (all_entries (lay_comap l)))) (oid # oids) =
        map Some (lay_vaddr l # rest))"

definition container_fits :: "layout \<Rightarrow> bytes list \<Rightarrow> bool" where
  "container_fits l blks \<longleftrightarrow> superblocks_fit l \<and> ring_fits l blks \<and> comap_fits l \<and> distinct (meta_addrs l) \<and>
     list_all (\<lambda>a. unat a < length blks) (meta_addrs l) \<and>
     volume_fits (lay_place l) 4096 (lay_obj l) (vol_xid (lay_volume l)) (vol_omap_oid (lay_volume l)) (lay_vomap l) (lay_tree l) blks"

section \<open>The blocks of the image\<close>

lemma write_volume_other:
  assumes "a \<notin> set (om_addr # addrs ot @ map place (addrs t))"
  shows "write_volume place bs obj om_addr ot t blks ! unat a = blks ! unat a"
proof -
  have "unat a \<noteq> unat om_addr" using assms by (auto simp: word_unat_eq_iff)
  moreover have "write_volume place bs obj om_addr ot t blks ! unat a =
      write_tree (\<lambda>a. a) bs obj True ot (blks[unat om_addr := omap_phys_image bs (root ot)]) ! unat a"
    unfolding write_volume_def using assms by (intro write_tree_other unat_place_notin) auto
  moreover have "\<dots> = blks[unat om_addr := omap_phys_image bs (root ot)] ! unat a"
    using assms by (intro write_tree_other) (auto simp: word_unat_eq_iff [symmetric])
  ultimately show ?thesis by simp
qed

lemma update_all: "(\<forall>b \<in> set xs. P b) \<Longrightarrow> P x \<Longrightarrow> \<forall>b \<in> set (xs[i := x]). P b"
  by (auto dest!: set_update_subset_insert [THEN subsetD])

lemma volume_fits_blocks:
  assumes "volume_fits place bs obj xid om_addr ot t blks" and "length blks' = length blks" and "\<forall>b \<in> set blks'. length b = bs"
  shows "volume_fits place bs obj xid om_addr ot t blks'"
  using assms by (simp add: volume_fits_def)

lemma heads_lengths:
  assumes "superblocks_fit l" and "\<forall>b \<in> set blks. length b = 4096"
  shows "\<forall>b \<in> set (write_heads l blks). length b = 4096" and "length (write_heads l blks) = length blks"
proof -
  have "length (nx_image (lay_boot l)) = 4096" "length (nx_image (lay_live l)) = 4096"
    "length (omap_phys_image 4096 (root (lay_comap l))) = 4096" "length (apsb_image 4096 (lay_volume l)) = 4096"
    using assms(1) length_nx_image length_apsb_image length_omap_phys_image by (simp_all add: superblocks_fit_def)
  then show "\<forall>b \<in> set (write_heads l blks). length b = 4096"
    unfolding write_heads_def by (intro update_all assms(2))
  show "length (write_heads l blks) = length blks" by (simp add: write_heads_def)
qed

lemma heads_nth:
  assumes "distinct (head_addrs l)" and "list_all (\<lambda>a. unat a < length blks) (head_addrs l)"
  shows "write_heads l blks ! 0 = nx_image (lay_boot l)"
    and "write_heads l blks ! unat (lay_slot l) = nx_image (lay_live l)"
    and "write_heads l blks ! unat (nx_omap_oid (lay_live l)) = omap_phys_image 4096 (root (lay_comap l))"
    and "write_heads l blks ! unat (lay_vaddr l) = apsb_image 4096 (lay_volume l)"
    and "a \<notin> set (head_addrs l) \<Longrightarrow> write_heads l blks ! unat a = blks ! unat a"
  using assms by (simp_all add: write_heads_def head_addrs_def word_unat_eq_iff nth_list_update)

lemma container_image_blocks:
  assumes "container_fits l blks"
  defines "img \<equiv> write_container l blks"
  shows "\<forall>b \<in> set img. length b = 4096" and "length img = length blks"
    and "img ! 0 = nx_image (lay_boot l)" and "img ! unat (lay_slot l) = nx_image (lay_live l)"
    and "img ! unat (nx_omap_oid (lay_live l)) = omap_phys_image 4096 (root (lay_comap l))"
    and "img ! unat (lay_vaddr l) = apsb_image 4096 (lay_volume l)"
    and "u \<in> set (subtrees (lay_comap l)) \<Longrightarrow>
      img ! unat (root u) = tree_node 4096 (lay_obj l) True (root (lay_comap l)) u"
    and "a \<notin> set (meta_addrs l) \<Longrightarrow> img ! unat a = blks ! unat a"
    and "fs_stored (cursor (concat img)) (lay_volume l) 4096 (lay_tree l)"
    and "u \<in> set (subtrees (lay_tree l)) \<Longrightarrow>
      img ! unat (lay_place l (root u)) = tree_node 4096 (lay_obj l) False (root (lay_tree l)) u"
    and "\<exists>buf om. read_at (cursor (concat img)) (saturating_mul (vol_omap_oid (lay_volume l)) (word_of_nat 4096)) 4096 = Ok buf \<and>
      ObjectMap_parse buf = Ok om \<and> root (lay_vomap l) = om_tree_oid om \<and>
      stored (\<lambda>a. read_verified_node (cursor (concat img)) a 4096) Omap (lay_vomap l)"
proof -
  note fits = assms(1) [unfolded container_fits_def]
  let ?b1 = "write_tree (\<lambda>a. a) 4096 (lay_obj l) True (lay_comap l) (write_heads l blks)"
  have blks: "\<forall>b \<in> set blks. length b = 4096" using fits by (simp add: volume_fits_def)
  have b0: "\<forall>b \<in> set (write_heads l blks). length b = 4096" "length (write_heads l blks) = length blks"
    using heads_lengths [OF _ blks] fits by blast+
  have b1: "\<forall>b \<in> set ?b1. length b = 4096" "length ?b1 = length blks"
    using write_tree_lengths [OF _ b0(1), of Omap "lay_obj l" True "lay_comap l"] fits b0(2) by (simp_all add: comap_fits_def)
  have vol: "volume_fits (lay_place l) 4096 (lay_obj l) (vol_xid (lay_volume l)) (vol_omap_oid (lay_volume l))
      (lay_vomap l) (lay_tree l) ?b1"
    using volume_fits_blocks [OF _ b1(2,1)] fits by blast
  have img: "img = write_volume (lay_place l) 4096 (lay_obj l) (vol_omap_oid (lay_volume l)) (lay_vomap l) (lay_tree l) ?b1"
    by (simp add: img_def write_container_def)
  show "\<forall>b \<in> set img. length b = 4096" "length img = length blks"
    using volume_blocks(1,2) [OF vol] b1(2) by (simp_all add: img)
  show "img ! unat (lay_place l (root u)) = tree_node 4096 (lay_obj l) False (root (lay_tree l)) u"
    if "u \<in> set (subtrees (lay_tree l))"
    unfolding img by (rule volume_blocks(5) [OF vol that])
  show "\<exists>buf om. read_at (cursor (concat img)) (saturating_mul (vol_omap_oid (lay_volume l)) (word_of_nat 4096)) 4096 = Ok buf \<and>
      ObjectMap_parse buf = Ok om \<and> root (lay_vomap l) = om_tree_oid om \<and>
      stored (\<lambda>a. read_verified_node (cursor (concat img)) a 4096) Omap (lay_vomap l)"
    unfolding img by (rule written_volume_omap [OF vol])
  show "fs_stored (cursor (concat img)) (lay_volume l) 4096 (lay_tree l)"
    unfolding img using fits by (intro written_volume_stored [OF vol]) (simp add: superblocks_fit_def)
  have d: "distinct (head_addrs l)" "distinct (addrs (lay_comap l))" "set (head_addrs l) \<inter> set (addrs (lay_comap l)) = {}"
    "(set (head_addrs l) \<union> set (addrs (lay_comap l))) \<inter> set (volume_addrs l) = {}"
    "list_all (\<lambda>a. unat a < length blks) (head_addrs l)" "list_all (\<lambda>a. unat a < length blks) (addrs (lay_comap l))"
    using fits by (auto simp: meta_addrs_def)
  have outer: "img ! unat a = ?b1 ! unat a" if "a \<notin> set (volume_addrs l)" for a
    unfolding img by (rule write_volume_other) (use that in \<open>simp add: volume_addrs_def\<close>)
  have inner: "?b1 ! unat a = write_heads l blks ! unat a" if "a \<notin> set (addrs (lay_comap l))" for a
    using that by (intro write_tree_other) (auto simp: word_unat_eq_iff [symmetric])
  have head: "img ! unat a = write_heads l blks ! unat a" if "a \<in> set (head_addrs l)" for a
  proof -
    have "a \<notin> set (volume_addrs l)" "a \<notin> set (addrs (lay_comap l))" using that d(3,4) by blast+
    then show ?thesis using outer [of a] inner [of a] by simp
  qed
  have mem: "0 \<in> set (head_addrs l)" "lay_slot l \<in> set (head_addrs l)" "nx_omap_oid (lay_live l) \<in> set (head_addrs l)"
    "lay_vaddr l \<in> set (head_addrs l)" by (simp_all add: head_addrs_def)
  show "img ! 0 = nx_image (lay_boot l)"
    using trans [OF head [OF mem(1), unfolded unat_0] heads_nth(1) [OF d(1,5)]] .
  show "img ! unat (lay_slot l) = nx_image (lay_live l)"
    by (rule trans [OF head [OF mem(2)] heads_nth(2) [OF d(1,5)]])
  show "img ! unat (nx_omap_oid (lay_live l)) = omap_phys_image 4096 (root (lay_comap l))"
    by (rule trans [OF head [OF mem(3)] heads_nth(3) [OF d(1,5)]])
  show "img ! unat (lay_vaddr l) = apsb_image 4096 (lay_volume l)"
    by (rule trans [OF head [OF mem(4)] heads_nth(4) [OF d(1,5)]])
  show "img ! unat (root u) = tree_node 4096 (lay_obj l) True (root (lay_comap l)) u" if "u \<in> set (subtrees (lay_comap l))"
    using outer [of "root u"] subtree_root [OF that] d(2,4,6) b0(2)
      write_tree_node [OF that, where place = "\<lambda>a. a" and blks = "write_heads l blks"] by auto
  show "img ! unat a = blks ! unat a" if "a \<notin> set (meta_addrs l)"
    using outer [of a] inner [of a] heads_nth(5) [OF d(1,5), of a] that by (simp add: meta_addrs_def)
qed

section \<open>Opening the image\<close>

lemma map_filter_Some: "(\<And>x. x \<in> set xs \<Longrightarrow> f x = Some (g x)) \<Longrightarrow> List.map_filter f xs = map g xs"
  by (induction xs) (simp_all add: map_filter_simps)

lemma ring_of_image:
  assumes "\<forall>b \<in> set img. length b = 4096" and "length img * 4096 < 2 ^ 64" and "nx_block_size (lay_boot l) = 4096"
    and "unat (xp_desc_base (lay_boot l)) + unat (xp_desc_blocks (lay_boot l)) \<le> length img"
  shows "ring (cursor (concat img)) (lay_boot l) = map (\<lambda>a. (a, img ! unat a)) (ring_addrs l)"
proof -
  let ?a = "\<lambda>i. xp_desc_base (lay_boot l) + word_of_nat i"
  have "unat (?a i) < length img" if "i < unat (xp_desc_blocks (lay_boot l))" for i
    using that assms(2,4) by (simp add: unat_word_ariths unat_of_nat)
  then have "read_block (cursor (concat img)) (?a i) 4096 = Ok (Some (img ! unat (?a i)))"
    if "i < unat (xp_desc_blocks (lay_boot l))" for i
    using assms(2) that by (intro read_block_cursor [OF assms(1)]) simp_all
  then have "ring (cursor (concat img)) (lay_boot l) = map (\<lambda>i. (?a i, img ! unat (?a i))) [0..<unat (xp_desc_blocks (lay_boot l))]"
    unfolding ring_def assms(3) by (intro map_filter_Some) (auto simp: Let_def)
  then show ?thesis by (simp add: ring_addrs_def comp_def)
qed

text \<open>Of the ring, the live superblock is the first of the greatest transaction id.\<close>

lemma live_slot_best:
  assumes "container_fits l blks"
  shows "nx_best (map (\<lambda>a. (a, write_container l blks ! unat a)) (ring_addrs l)) None =
    Some (nx_xid (lay_live l), lay_slot l)"
proof -
  note fits = assms [unfolded container_fits_def superblocks_fit_def ring_fits_def NX_DEFAULT_BLOCK_SIZE_def] and img = container_image_blocks [OF assms]
  let ?r = "\<lambda>a. (a, write_container l blks ! unat a)"
  obtain as bs where split: "ring_addrs l = as @ lay_slot l # bs" "lay_slot l \<notin> set as"
    using fits split_list_first [of "lay_slot l" "ring_addrs l"] by blast
  have live: "valid_nx (nx_image (lay_live l))" "le_u64 (nx_image (lay_live l)) 16 = nx_xid (lay_live l)"
    using fits nx_image_valid nx_image_fields(1) by blast+
  have older: "le_u64 (write_container l blks ! unat a) 16 < nx_xid (lay_live l)"
    if "a \<in> set (ring_addrs l)" "a \<noteq> lay_slot l" "valid_nx (write_container l blks ! unat a)" for a
    using fits that img(8) [of a] by (auto simp: list_all_iff)
  have "nx_best (map ?r as @ (lay_slot l, nx_image (lay_live l)) # map ?r bs) None = Some (nx_xid (lay_live l), lay_slot l)"
    unfolding live(2) [symmetric]
  proof (rule nx_best_intro [OF live(1)]; unfold live(2))
    show "\<forall>(q, c) \<in> set (map ?r as). valid_nx c \<longrightarrow> le_u64 c 16 < nx_xid (lay_live l)"
      using older split by auto
    show "\<forall>(q, c) \<in> set (map ?r bs). valid_nx c \<longrightarrow> le_u64 c 16 \<le> nx_xid (lay_live l)"
    proof -
      have "le_u64 (write_container l blks ! unat a) 16 \<le> nx_xid (lay_live l)"
        if "a \<in> set bs" "valid_nx (write_container l blks ! unat a)" for a
        using older [of a] that split(1) live(2) img(4) by (cases "a = lay_slot l") auto
      then show ?thesis by auto
    qed
  qed
  then show ?thesis by (simp add: split(1) img(4))
qed

lemma container_opens:
  assumes "container_fits l blks"
  shows "\<exists>ms. ApfsContainer_open (cursor (concat (write_container l blks))) =
    Ok \<lparr>superblock = lay_live l, live_superblock_paddr = lay_slot l, checkpoint_mappings = ms\<rparr>"
proof -
  let ?img = "write_container l blks" and ?boot = "lay_boot l"
  let ?dev = "cursor (concat ?img)"
  note fits = assms [unfolded container_fits_def superblocks_fit_def ring_fits_def NX_DEFAULT_BLOCK_SIZE_def] and img = container_image_blocks [OF assms]
  have bound: "length ?img * 4096 < 2 ^ 64" using fits img(2) by (simp add: volume_fits_def)
  have size: "nx_block_size ?boot = 4096" using fits by simp
  have "0 < length ?img" using fits img(2) by (auto simp: meta_addrs_def head_addrs_def)
  then have "?dev 0 4096 = Inr (nx_image ?boot)"
    using cursor_block [OF img(1), of 0 0] img(3) by simp
  then have boot: "bootstrap_ok ?dev ?boot"
    using fits size nx_image_parse [of ?boot]
    by (simp add: bootstrap_ok_def block_size_ok_def NX_MINIMUM_BLOCK_SIZE_def NX_MAXIMUM_BLOCK_SIZE_def)
  have readable: "ring_readable ?dev ?boot"
    using fits bound img(2) by (auto simp: ring_readable_def dest: cursor_only_eof)
  have ring: "ring ?dev ?boot = map (\<lambda>a. (a, ?img ! unat a)) (ring_addrs l)"
    using fits img(2) by (intro ring_of_image [OF img(1) bound size]) simp
  obtain b sb where "(lay_slot l, b) \<in> set (ring ?dev ?boot)" "NxSuperblock_parse b = Ok sb"
    and opened: "\<exists>ms. ApfsContainer_open ?dev = Ok \<lparr>superblock = sb, live_superblock_paddr = lay_slot l, checkpoint_mappings = ms\<rparr>"
    using open_live [OF boot readable, of "nx_xid (lay_live l)" "lay_slot l"] live_slot_best [OF assms] ring by auto
  then have "sb = lay_live l" using ring img(4) nx_image_parse [of "lay_live l"] fits by auto
  then show ?thesis using opened by simp
qed

lemma traverse_found:
  "map f xs = map Some ys \<Longrightarrow> traverse (\<lambda>x. ok_or (f x) (e x)) xs = Ok ys"
  by (induction xs arbitrary: ys) auto

lemma container_mounts:
  assumes "container_fits l blks"
  shows "open_first_volume (cursor (concat (write_container l blks))) = Ok (lay_volume l, 4096)"
proof -
  let ?img = "write_container l blks" and ?live = "lay_live l"
  let ?dev = "cursor (concat ?img)"
  note fits = assms [unfolded container_fits_def superblocks_fit_def comap_fits_def NX_DEFAULT_BLOCK_SIZE_def] and img = container_image_blocks [OF assms]
  have bound: "length ?img * 4096 < 2 ^ 64" using fits img(2) by (simp add: volume_fits_def)
  have in_img: "unat (nx_omap_oid ?live) < length ?img" "unat (lay_vaddr l) < length ?img"
    using fits img(2) by (simp_all add: meta_addrs_def head_addrs_def)
  have size: "nx_block_size ?live = 4096" using fits by simp
  note read = read_at_block [OF img(1) _ bound]
  obtain ms where c: "ApfsContainer_open ?dev =
      Ok \<lparr>superblock = ?live, live_superblock_paddr = lay_slot l, checkpoint_mappings = ms\<rparr>" (is "_ = Ok ?c")
    using container_opens [OF assms] by blast
  obtain om where om: "ObjectMap_parse (omap_phys_image 4096 (root (lay_comap l))) = Ok om" "om_tree_oid om = root (lay_comap l)"
    using omap_phys_image_parse [of 4096] by auto
  have tree: "stored (\<lambda>a. read_verified_node ?dev a 4096) Omap (lay_comap l)"
    using fits img(1,2,7) bound subtree_root [of _ "lay_comap l"]
    by (intro image_stores_tree) (auto simp: list_all_iff meta_addrs_def)
  obtain rest where "map (\<lambda>oid. map_option oe_paddr (omap_scan oid (nx_xid ?live) (all_entries (lay_comap l)))) (fs_oids ?live) =
      map Some (lay_vaddr l # rest)" using fits by auto
  note found = traverse_found [OF this]
  have head: "read_at ?dev (saturating_mul (nx_omap_oid ?live) (ucast (nx_block_size ?live))) (unat (nx_block_size ?live)) =
      Ok (omap_phys_image 4096 (root (lay_comap l)))"
    using read [OF in_img(1)] by (simp add: size img(5))
  have "volume_superblock_addrs ?dev ?c = Ok (lay_vaddr l # rest)"
  proof (rule trans [OF volume_superblock_addrs_stored [where c = ?c and t = "lay_comap l" and om = om, unfolded ApfsContainer.simps]])
    show "root (lay_comap l) = om_tree_oid om" using om(2) by (rule sym)
    show "block_size_ok (nx_block_size ?live)"
      by (simp add: size block_size_ok_def NX_MINIMUM_BLOCK_SIZE_def NX_MAXIMUM_BLOCK_SIZE_def)
    show "stored (\<lambda>a. read_verified_node ?dev a (unat (nx_block_size ?live))) Omap (lay_comap l)"
      using tree by (simp add: size)
  qed (use head om(1) found fits in \<open>simp_all add: meta_addrs_def\<close>)
  moreover have "ApfsVolume_parse (apsb_image 4096 (lay_volume l)) = Ok (lay_volume l)"
    using fits by (intro apsb_image_parse) simp_all
  ultimately show ?thesis
    using c read [OF in_img(2)] img(6) size by (simp add: open_first_volume_def)
qed

end
