(* ===== verification/File_View.thy ===== *)
theory File_View
  imports Vfs
begin

text \<open>
  The contents of a file as the records of a volume define them, and what a client of the adapter
  sees of it: the chain of lookups from the root, the reported size, the windows it reads and the
  runs it is given. The specification \<open>file_contents\<close> covers plain files and every supported kind of
  compressed file, with attributes embedded or in a stream.
\<close>

section \<open>Contents by the records\<close>

text \<open>The bytes of an extended attribute, in the record or in a data stream of the image.\<close>

inductive attr_contents :: "bytes \<Rightarrow> usize \<Rightarrow> ptree \<Rightarrow> u64 \<Rightarrow> rstring \<Rightarrow> bytes \<Rightarrow> bool"
  for img :: bytes and bs :: usize and t :: ptree and oid :: u64 and name :: rstring where
  embedded: "spec_xattr t oid name = Some (Embedded d) \<Longrightarrow> attr_contents img bs t oid name d"
| streamed: "spec_xattr t oid name = Some (Stream s sz) \<Longrightarrow> sz \<le> MAX_FILE_BYTES \<Longrightarrow>
    list_all (extent_in_image img bs (unat sz)) (spec_extents t s) \<Longrightarrow>
    attr_contents img bs t oid name (map (stream_byte img bs (spec_extents t s)) [0..<unat sz])"

definition spec_size :: "Inode \<Rightarrow> u64" where
  "spec_size inode = (case ino_size inode of Some sz \<Rightarrow> sz | None \<Rightarrow> 0)"

inductive file_contents :: "Codecs \<Rightarrow> bytes \<Rightarrow> usize \<Rightarrow> ptree \<Rightarrow> Inode \<Rightarrow> bytes \<Rightarrow> bool"
  for cs :: Codecs and img :: bytes and bs :: usize and t :: ptree and inode :: Inode where
  plain_file: "spec_xattr t (ino_oid inode) XATTR_NAME_DECMPFS = None \<Longrightarrow> spec_size inode \<le> MAX_FILE_BYTES \<Longrightarrow>
    list_all (extent_in_image img bs (unat (spec_size inode))) (spec_extents t (ino_private_id inode)) \<Longrightarrow>
    file_contents cs img bs t inode
      (map (stream_byte img bs (spec_extents t (ino_private_id inode))) [0..<unat (spec_size inode)])"
| compressed_file: "attr_contents img bs t (ino_oid inode) XATTR_NAME_DECMPFS header \<Longrightarrow>
    length header \<le> unat MAX_DECMPFS_XATTR_BYTES \<Longrightarrow> decmpfs_file cs header fork plain \<Longrightarrow>
    pred_option (attr_contents img bs t (ino_oid inode) XATTR_NAME_RESOURCE_FORK) fork \<Longrightarrow>
    length plain < 2 ^ 64 \<Longrightarrow> file_contents cs img bs t inode plain"

text \<open>The fork is read only for the types that need it, and those cannot be decoded without it.\<close>

lemma decompress_ignores_fork:
  assumes "decmpfs_le_u32 header COMPRESSION_TYPE_OFFSET = Ok ty"
    and "\<not> (case classify ty of None \<Rightarrow> False | Some c \<Rightarrow> storage c = ResourceFork)"
  shows "decompress_decmpfs cs header None = decompress_decmpfs cs header fork"
  using assms
  by (cases "uncompressed_size header"; cases "classify ty")
    (auto simp: decompress_decmpfs_def Let_def split: Storage.split)

lemma decompress_needs_fork:
  assumes "decmpfs_le_u32 header COMPRESSION_TYPE_OFFSET = Ok ty"
    and "case classify ty of None \<Rightarrow> False | Some c \<Rightarrow> storage c = ResourceFork"
  shows "decompress_decmpfs cs header None \<noteq> Ok plain"
  using assms
  by (cases "uncompressed_size header") (auto simp: decompress_decmpfs_def Let_def split: option.splits if_splits)

lemma decompress_type:
  "decompress_decmpfs cs header fork = Ok plain \<Longrightarrow> \<exists>ty. decmpfs_le_u32 header COMPRESSION_TYPE_OFFSET = Ok ty"
  by (auto simp: decompress_decmpfs_def Let_def res_simps)

lemma read_compressed_file:
  assumes "decompress_decmpfs cs header fork = Ok plain"
    and "\<And>f. fork = Some f \<Longrightarrow> resource_fork dev volume (ino_oid inode) bs = Ok (Some f)"
  shows "read_compressed cs dev volume inode header bs = Ok plain"
proof -
  obtain ty where ty: "decmpfs_le_u32 header COMPRESSION_TYPE_OFFSET = Ok ty"
    using decompress_type [OF assms(1)] by blast
  show ?thesis
  proof (cases "case classify ty of None \<Rightarrow> False | Some c \<Rightarrow> storage c = ResourceFork")
    case True
    then obtain f where "fork = Some f" using decompress_needs_fork [OF ty] assms(1) by (cases fork) auto
    then show ?thesis using assms True ty by (simp add: read_compressed_def Let_def)
  next
    case False
    then show ?thesis
      using decompress_ignores_fork [OF ty False, of cs fork] assms(1) ty by (simp add: read_compressed_def Let_def)
  qed
qed

section \<open>Reading what the records define\<close>

lemma read_stream_contents:
  assumes "fs_stored (cursor img) volume bs t" and "0 < bs" and "bs < 2 ^ 64" and "length img < 2 ^ 64"
    and "sz \<le> MAX_FILE_BYTES" and "list_all (extent_in_image img bs (unat sz)) (spec_extents t s)"
  shows "read_stream (cursor img) volume s sz bs = Ok (map (stream_byte img bs (spec_extents t s)) [0..<unat sz])"
  using assms by (intro read_stream_cursor) (simp_all add: list_all_iff)

lemma resource_fork_contents:
  assumes "fs_stored (cursor img) volume bs t" and "0 < bs" and "bs < 2 ^ 64" and "length img < 2 ^ 64"
    and "attr_contents img bs t oid XATTR_NAME_RESOURCE_FORK d"
  shows "resource_fork (cursor img) volume oid bs = Ok (Some d)"
  using assms(5)
  by (cases rule: attr_contents.cases)
    (simp_all add: resource_fork_def get_xattr_stored [OF assms(1)] read_stream_contents [OF assms(1-4)])

lemma decmpfs_header_contents:
  assumes "fs_stored (cursor img) volume bs t" and "0 < bs" and "bs < 2 ^ 64" and "length img < 2 ^ 64"
    and "attr_contents img bs t oid XATTR_NAME_DECMPFS d" and "length d \<le> unat MAX_DECMPFS_XATTR_BYTES"
  shows "decmpfs_header (cursor img) volume oid bs = Ok (Some d)"
  using assms(5,6)
  by (cases rule: attr_contents.cases)
    (simp_all add: decmpfs_header_def get_xattr_stored [OF assms(1)] read_stream_contents [OF assms(1-4)]
      word_less_nat_alt)

lemma read_data_file:
  assumes "fs_stored (cursor img) volume bs t" and "0 < bs" and "bs < 2 ^ 64" and "length img < 2 ^ 64"
    and "file_contents cs img bs t inode data"
  shows "read_data cs (cursor img) volume inode bs = Ok data"
  using assms(5)
proof (cases rule: file_contents.cases)
  case plain_file
  then show ?thesis
    by (simp add: read_data_def decmpfs_header_def get_xattr_stored [OF assms(1)] spec_size_def
        read_stream_contents [OF assms(1-4)])
next
  case (compressed_file header fork)
  have "read_compressed cs (cursor img) volume inode header bs = Ok data"
    using decompress_file [OF compressed_file(3,5)] compressed_file(4) resource_fork_contents [OF assms(1-4)]
    by (intro read_compressed_file) auto
  then show ?thesis
    using decmpfs_header_contents [OF assms(1-4) compressed_file(1,2)] by (simp add: read_data_def)
qed

section \<open>Looking a path up through the adapter\<close>

text \<open>A client that follows names from a node, one lookup each.\<close>

fun follow :: "device \<Rightarrow> ApfsFs \<Rightarrow> 'o FileId \<Rightarrow> rstring list \<Rightarrow> 'o FileId option" where
  "follow dev fs ino [] = Some ino"
| "follow dev fs ino (name # names) =
     (case fst (lookup dev fs ino name) of VOk (Some child) \<Rightarrow> follow dev fs child names | _ \<Rightarrow> None)"

lemma spec_child_name: "spec_child t parent name = Some oid \<Longrightarrow> valid_utf8 name"
  by (auto simp: spec_child_def find_Some_iff spec_dir_def set_map_filter name_ok_def split: prod.splits
      dest!: nth_mem parse_dir_entry_name)

lemma follow_path:
  assumes "serving fs" and "fs_stored dev (fs_volume fs) (fs_block_size fs) t"
  shows "spec_path t xid cur names = Ok oid \<Longrightarrow>
    follow dev fs (ApfsOid cur (fs_root_xid fs) :: 'o FileId) names = Some (ApfsOid oid (fs_root_xid fs))"
proof (induction names arbitrary: cur)
  case (Cons name names)
  from Cons.prems obtain child where child: "spec_child t cur name = Some child" "spec_path t xid child names = Ok oid"
    by (auto split: option.splits)
  have "fst (lookup dev fs (ApfsOid cur (fs_root_xid fs) :: 'o FileId) name) = VOk (Some (ApfsOid child (fs_root_xid fs)))"
    using child(1) assms(1) spec_child_name [OF child(1)]
    by (simp add: lookup_def checked_def oid_of_def locked_def lift_res_def lookup_child_stored [OF assms(2)] serving_def)
  then show ?case using Cons.IH [OF child(2)] by simp
qed simp

section \<open>The runs of a file\<close>

text \<open>Extents that follow each other without a gap from an offset on, each inside the image or sparse.\<close>

fun contiguous :: "bytes \<Rightarrow> usize \<Rightarrow> nat \<Rightarrow> FileExtent list \<Rightarrow> bool" where
  "contiguous img bs pos [] = True"
| "contiguous img bs pos (e # es) =
     (unat (logical_offset e) = pos \<and>
      (phys_block_num e = 0 \<or> unat (phys_block_num e) * bs + unat (ext_len e) \<le> length img) \<and>
      contiguous img bs (pos + unat (ext_len e)) es)"

definition extents_len :: "FileExtent list \<Rightarrow> nat" where
  "extents_len es = sum_list (map (unat \<circ> ext_len) es)"

text \<open>What a client that carves a run from the image gets.\<close>

definition run_bytes :: "bytes \<Rightarrow> RunInfo \<Rightarrow> bytes" where
  "run_bytes img r =
     (if run_sparse r then replicate (unat (run_len r)) 0
      else take (unat (run_len r)) (drop (unat (run_image_offset r)) img))"

definition run_of :: "usize \<Rightarrow> FileExtent \<Rightarrow> RunInfo" where
  "run_of bs x = \<lparr>run_image_offset = saturating_mul (phys_block_num x) (word_of_nat bs),
     run_len = ext_len x, run_sparse = (phys_block_num x = 0), run_allocated = True\<rparr>"

lemma contiguous_not_before: "contiguous img bs pos es \<Longrightarrow> i < pos \<Longrightarrow> List.find (covers i) (rev es) = None"
  by (induction es arbitrary: pos) (auto simp: find_snoc covers_def split: option.splits)

lemma run_bytes_extent:
  assumes "phys_block_num e = 0 \<or> unat (phys_block_num e) * bs + unat (ext_len e) \<le> length img"
    and "bs < 2 ^ 64" and "length img < 2 ^ 64"
  shows "run_bytes img (run_of bs e) = map (\<lambda>j. if phys_block_num e = 0 then 0
    else img ! (unat (phys_block_num e) * bs + j)) [0..<unat (ext_len e)]"
proof (cases "phys_block_num e = 0")
  case True
  then show ?thesis by (simp add: run_bytes_def run_of_def map_replicate_const)
next
  case False
  have bs: "unat (word_of_nat bs :: u64) = bs" using assms(2) by (simp add: unat_of_nat)
  have mul: "checked_mul (phys_block_num e) (word_of_nat bs) = Some (phys_block_num e * word_of_nat bs)"
    using False assms by (simp add: checked_mul_def bs)
  have "unat (saturating_mul (phys_block_num e) (word_of_nat bs)) = unat (phys_block_num e) * bs"
    using False assms unat_checked_mul [OF mul] by (simp add: saturating_mul_def bs)
  then show ?thesis
    using False assms(1) by (intro nth_equalityI) (auto simp: run_bytes_def run_of_def)
qed

lemma runs_contents:
  assumes "contiguous img bs pos es" and "bs < 2 ^ 64" and "length img < 2 ^ 64"
  shows "concat (map (run_bytes img \<circ> run_of bs) es) =
    map (stream_byte img bs es) [pos..<pos + extents_len es]"
  using assms(1)
proof (induction es arbitrary: pos)
  case Nil
  then show ?case by (simp add: extents_len_def)
next
  case (Cons e es)
  define mid where "mid = pos + unat (ext_len e)"
  have e: "unat (logical_offset e) = pos" "contiguous img bs mid es"
    "phys_block_num e = 0 \<or> unat (phys_block_num e) * bs + unat (ext_len e) \<le> length img"
    using Cons.prems by (simp_all add: mid_def)
  have low: "map (stream_byte img bs (e # es)) [pos..<mid] = run_bytes img (run_of bs e)"
  proof -
    have "stream_byte img bs (e # es) (pos + j) = (if phys_block_num e = 0 then 0
        else img ! (unat (phys_block_num e) * bs + j))" if "j < unat (ext_len e)" for j
      using that contiguous_not_before [OF e(2), of "pos + j"] e(1)
      by (simp add: stream_byte_def find_snoc covers_def extent_byte_def mid_def)
    then have "map (\<lambda>j. stream_byte img bs (e # es) (pos + j)) [0..<unat (ext_len e)] = run_bytes img (run_of bs e)"
      by (simp add: run_bytes_extent [OF e(3) assms(2,3)])
    moreover have "[pos..<mid] = map (\<lambda>j. pos + j) [0..<unat (ext_len e)]"
      using map_add_upt [of pos "unat (ext_len e)"] by (simp add: mid_def add.commute)
    ultimately show ?thesis by (simp add: comp_def)
  qed
  have high: "map (stream_byte img bs (e # es)) [mid..<mid + extents_len es] =
      map (stream_byte img bs es) [mid..<mid + extents_len es]"
    using e(1) by (auto simp: stream_byte_def find_snoc covers_def mid_def split: option.split)
  have "[pos..<pos + extents_len (e # es)] = [pos..<mid] @ [mid..<mid + extents_len es]"
    using upt_add_eq_append [of pos mid "extents_len es"] by (simp add: extents_len_def mid_def add.assoc)
  then show ?case using low high Cons.IH [OF e(2)] by simp
qed

lemma contiguous_in_image: "contiguous img bs pos es \<Longrightarrow> list_all (extent_in_image img bs sz) es"
  by (induction es arbitrary: pos) (auto simp: extent_in_image_def min_def)

lemma extents_Ok:
  assumes "serving fs" and "fs_stored dev (fs_volume fs) (fs_block_size fs) t"
    and "load_inode dev (fs_volume fs) oid (fs_block_size fs) = Ok inode"
  shows "extents dev fs (ApfsOid oid x) DefaultStream =
    (VOk (map (run_of (fs_block_size fs)) (spec_extents t (ino_private_id inode))), fs)"
  using assms(1,3)
  by (simp add: extents_def checked_def oid_of_def require_default_stream_def locked_def lift_res_def Let_def serving_def
      list_extents_stored [OF assms(2)] run_of_def)

lemma load_inode_spec:
  assumes "fs_stored dev volume bs t" and "spec_inode t oid = Some rec" and "Inode_parse oid rec = Ok inode"
  shows "load_inode dev volume oid bs = Ok inode"
  using assms(2,3) by (simp add: load_inode_stored [OF assms(1)])

lemma runs_of_file:
  assumes "serving fs" and "fs_stored (cursor img) (fs_volume fs) (fs_block_size fs) t" and "length img < 2 ^ 64"
    and "spec_inode t oid = Some rec" and "Inode_parse oid rec = Ok inode"
    and "spec_xattr t (ino_oid inode) XATTR_NAME_DECMPFS = None" and "spec_size inode \<le> MAX_FILE_BYTES"
    and "contiguous img (fs_block_size fs) 0 (spec_extents t (ino_private_id inode))"
    and "unat (spec_size inode) \<le> extents_len (spec_extents t (ino_private_id inode))"
  shows "\<exists>runs. extents (cursor img) fs (ApfsOid oid x :: 'o FileId) DefaultStream = (VOk runs, fs) \<and>
    read_data cs (cursor img) (fs_volume fs) inode (fs_block_size fs) =
      Ok (take (unat (spec_size inode)) (concat (map (run_bytes img) runs)))"
proof -
  let ?es = "spec_extents t (ino_private_id inode)" and ?bs = "fs_block_size fs"
  have bs: "0 < ?bs" "?bs < 2 ^ 64" using assms(1) by (simp_all add: serving_def)
  have "read_data cs (cursor img) (fs_volume fs) inode ?bs =
      Ok (map (stream_byte img ?bs ?es) [0..<unat (spec_size inode)])"
    by (rule read_data_file [OF assms(2) bs assms(3) plain_file [OF assms(6,7) contiguous_in_image [OF assms(8)]]])
  also have "map (stream_byte img ?bs ?es) [0..<unat (spec_size inode)] =
      take (unat (spec_size inode)) (map (stream_byte img ?bs ?es) [0..<extents_len ?es])"
    using assms(9) by (simp add: take_map)
  also have "map (stream_byte img ?bs ?es) [0..<extents_len ?es] = concat (map (run_bytes img) (map (run_of ?bs) ?es))"
    using runs_contents [OF assms(8) bs(2) assms(3)] by simp
  finally show ?thesis
    using extents_Ok [OF assms(1,2) load_inode_spec [OF assms(2,4,5)]] by blast
qed

section \<open>A file through the adapter\<close>

lemma file_view:
  assumes "serving fs" and "fs_stored (cursor img) (fs_volume fs) (fs_block_size fs) t" and "length img < 2 ^ 64"
    and "spec_path t (vol_xid (fs_volume fs)) ROOT_DIR_INO_NUM names = Ok oid"
    and "spec_inode t oid = Some rec" and "Inode_parse oid rec = Ok inode"
    and "file_contents cs img (fs_block_size fs) t inode data"
    and "length data \<le> n * k" and "n * k < 2 ^ 64"
  shows "\<exists>node m. follow (cursor img) fs (vfs_root fs :: 'o FileId) names = Some node \<and>
    meta (cursor img) fs node = (VOk m, fs) \<and> meta_kind m = mode_to_kind (ino_mode inode) \<and>
    unat (meta_size m) = length data \<and> concat (map (window cs (cursor img) fs node k) [0..<n]) = data"
proof -
  let ?node = "ApfsOid oid (fs_root_xid fs) :: 'o FileId"
  have bs: "0 < fs_block_size fs" "fs_block_size fs < 2 ^ 64" "\<not> fs_poisoned fs"
    using assms(1) by (simp_all add: serving_def)
  have load: "load_inode (cursor img) (fs_volume fs) oid (fs_block_size fs) = Ok inode"
    by (rule load_inode_spec [OF assms(2,5,6)])
  have data: "read_data cs (cursor img) (fs_volume fs) inode (fs_block_size fs) = Ok data"
    by (rule read_data_file [OF assms(2) bs(1,2) assms(3,7)])
  obtain sz where "data_size (cursor img) (fs_volume fs) inode (fs_block_size fs) = Ok sz" "unat sz = length data"
    using cur.read_data_length [OF data] by blast
  then have "meta (cursor img) fs ?node = (VOk (build_meta inode sz), fs)" "unat (meta_size (build_meta inode sz)) = length data"
    "meta_kind (build_meta inode sz) = mode_to_kind (ino_mode inode)"
    using load bs(3)
    by (simp_all add: meta_def checked_def oid_of_def locked_def lift_res_def build_meta_def)
  moreover have "follow (cursor img) fs (vfs_root fs :: 'o FileId) names = Some ?node"
    unfolding vfs_root_def by (rule follow_path [OF assms(1,2,4)])
  ultimately show ?thesis using windows_contents [OF bs(3) load data assms(8,9)] by blast
qed

end
