(* ===== verification/Disk_Image.thy ===== *)
theory Disk_Image
  imports Container_Image Fs_Objects File_View
begin

text \<open>
  A disk with files: a written container (\<open>write_container\<close>) whose file-system tree holds given objects
  (\<open>holds_objects\<close>), and file data in blocks that are not metadata. Mounting it gives the objects back,
  and reading a file gives the bytes that its data blocks hold.
\<close>

section \<open>The mounted objects\<close>

definition mounted_fs :: "layout \<Rightarrow> ApfsFs" where
  "mounted_fs l = \<lparr>fs_volume = lay_volume l, fs_block_size = 4096, fs_root_xid = vol_xid (lay_volume l), fs_poisoned = False\<rparr>"

lemma disk_mounts:
  "container_fits l blks \<Longrightarrow> ApfsFs_open (cursor (concat (write_container l blks))) = Ok (mounted_fs l)"
  by (simp add: ApfsFs_open_def container_mounts mounted_fs_def)

lemma mounted_serving: "serving (mounted_fs l)"
  by (simp add: serving_def mounted_fs_def)

definition object_inode :: "fs_object list \<Rightarrow> u64 \<Rightarrow> u64 \<Rightarrow> Inode res" where
  "object_inode obs xid oid = (case find_object obs oid of
      None \<Rightarrow> Err (OmapUnresolved oid xid)
    | Some ob \<Rightarrow> ok_or (fo_inode ob) (OmapUnresolved oid xid))"

lemma load_inode_object:
  assumes "fs_stored dev v bs t" and "holds_objects hash t obs"
  shows "load_inode dev v oid bs = object_inode obs (vol_xid v) oid"
proof (cases "find_object obs oid")
  case None
  then show ?thesis
    by (simp add: load_inode_stored [OF assms(1)] spec_inode_def fs_records_missing [OF assms(2) None] object_inode_def)
next
  case (Some ob)
  note ob = find_objectD [OF Some]
  have ok: "object_ok ob" using assms(2) ob by (auto simp: holds_objects_def list_all_iff)
  have "spec_inode t oid = map_option (inode_image []) (fo_inode ob)"
    using spec_object(4) [OF assms(2)] ob by blast
  then show ?thesis
    using inode_of_object [OF ok] ob Some
    by (auto simp: load_inode_stored [OF assms(1)] object_inode_def ok_or_def split: option.split)
qed

lemma open_path_object:
  assumes "fs_stored dev v bs t" and "holds_objects hash t obs"
  shows "open_path dev v path bs =
    and_then (object_path obs (vol_xid v) ROOT_DIR_INO_NUM (path_components path)) (object_inode obs (vol_xid v))"
  using load_inode_object [OF assms] load_inode_stored [OF assms(1)]
  by (simp add: open_path_stored [OF assms(1)] spec_path_objects [OF assms(2)] ROOT_DIR_INO_NUM_def)

text \<open>What a volume shows is given objects: their entries, attributes, extents and inodes, and all paths.\<close>

definition shows_objects :: "device \<Rightarrow> ApfsVolume \<Rightarrow> fs_object list \<Rightarrow> bool" where
  "shows_objects dev v obs \<longleftrightarrow>
     (\<forall>ob \<in> set obs. list_dir dev v (fo_oid ob) 4096 = Ok (fo_entries ob) \<and> list_xattrs dev v (fo_oid ob) 4096 = Ok (fo_xattrs ob) \<and>
        list_extents dev v (fo_oid ob) 4096 = Ok (fo_extents ob)) \<and>
     (\<forall>oid. load_inode dev v oid 4096 = object_inode obs (vol_xid v) oid) \<and>
     (\<forall>path. open_path dev v path 4096 =
        and_then (object_path obs (vol_xid v) ROOT_DIR_INO_NUM (path_components path)) (object_inode obs (vol_xid v)))"

lemma shows_stored_objects:
  assumes "fs_stored dev v 4096 t" and "holds_objects hash t obs"
  shows "shows_objects dev v obs"
  unfolding shows_objects_def
  using spec_object [OF assms(2)] list_dir_stored [OF assms(1)] list_xattrs_stored [OF assms(1)] list_extents_stored [OF assms(1)]
    load_inode_object [OF assms] open_path_object [OF assms]
  by simp

section \<open>File data\<close>

text \<open>The blocks that the part of an extent below the size takes are blocks of the image and no metadata.\<close>

definition data_extent :: "layout \<Rightarrow> bytes list \<Rightarrow> nat \<Rightarrow> FileExtent \<Rightarrow> bool" where
  "data_extent l blks sz e \<longleftrightarrow> phys_block_num e = 0 \<or>
     (let p = unat (phys_block_num e); n = (min (unat (ext_len e)) (sz - unat (logical_offset e)) + 4095) div 4096 in
      p + n \<le> length blks \<and> list_all (\<lambda>q. word_of_nat q \<notin> set (meta_addrs l)) [p..<p + n])"

lemma data_extent_in_image:
  assumes "container_fits l blks" and "data_extent l blks sz e"
  shows "extent_in_image (concat (write_container l blks)) 4096 sz e"
proof -
  define m where "m = min (unat (ext_len e)) (sz - unat (logical_offset e))"
  note img = container_image_blocks(1,2) [OF assms(1)]
  have "unat (phys_block_num e) * 4096 + m \<le> (unat (phys_block_num e) + (m + 4095) div 4096) * 4096" by simp
  also have "\<dots> \<le> length blks * 4096" if "phys_block_num e \<noteq> 0"
    using assms(2) that unfolding data_extent_def Let_def m_def by (intro mult_right_mono) auto
  finally show ?thesis
    using length_concat_blocks [OF img(1)] img(2)
    by (auto simp: extent_in_image_def m_def [symmetric] simp del: length_concat)
qed

text \<open>The bytes of such an extent are those the data blocks held before the metadata was written.\<close>

lemma data_extent_byte:
  assumes "container_fits l blks" and "data_extent l blks sz e" and "covers i e" and "i < sz"
  shows "extent_byte (concat (write_container l blks)) 4096 i e = extent_byte (concat blks) 4096 i e"
proof -
  define j where "j = i - unat (logical_offset e)"
  define q where "q = unat (phys_block_num e) + j div 4096"
  define m where "m = min (unat (ext_len e)) (sz - unat (logical_offset e))"
  note img = container_image_blocks [OF assms(1)]
  have blks: "\<forall>b \<in> set blks. length b = 4096" "length blks * 4096 < 2 ^ 64"
    using assms(1) by (simp_all add: container_fits_def volume_fits_def)
  have "j < m" using assms(3,4) by (auto simp: covers_def j_def m_def)
  then have "j div 4096 < (m + 4095) div 4096" by (simp add: div_less_iff_less_mult)
  moreover have "unat (phys_block_num e) + (m + 4095) div 4096 \<le> length blks"
    "list_all (\<lambda>q. word_of_nat q \<notin> set (meta_addrs l)) [unat (phys_block_num e)..<unat (phys_block_num e) + (m + 4095) div 4096]"
    using assms(2,3) unfolding data_extent_def Let_def m_def covers_def by blast+
  ultimately have q: "q < length blks" "word_of_nat q \<notin> set (meta_addrs l)"
    by (simp_all add: q_def list_all_iff del: of_nat_add)
  then have "unat (word_of_nat q :: u64) = q" using blks(2) by (simp add: unat_of_nat)
  then have "write_container l blks ! q = blks ! q" using img(8) [OF q(2)] by simp
  moreover have "unat (phys_block_num e) * 4096 + j = q * 4096 + j mod 4096" by (simp add: q_def algebra_simps)
  ultimately show ?thesis
    using nth_concat_blocks [OF img(1), of q "j mod 4096"] nth_concat_blocks [OF blks(1) q(1), of "j mod 4096"] q(1) img(2)
    by (simp add: extent_byte_def j_def [symmetric])
qed

lemma data_stream_bytes:
  assumes "container_fits l blks" and "list_all (data_extent l blks sz) es"
  shows "map (stream_byte (concat (write_container l blks)) 4096 es) [0..<sz] = map (stream_byte (concat blks) 4096 es) [0..<sz]"
proof (rule map_cong [OF refl])
  fix i
  assume "i \<in> set [0..<sz]"
  then have i: "i < sz" by simp
  show "stream_byte (concat (write_container l blks)) 4096 es i = stream_byte (concat blks) 4096 es i"
  proof (cases "List.find (covers i) (rev es)")
    case (Some e)
    then have "e \<in> set es" "covers i e"
      by (auto simp: find_Some_iff) (metis length_rev nth_mem set_rev)
    then show ?thesis
      using data_extent_byte [OF assms(1) _ _ i, of e] assms(2) Some by (simp add: stream_byte_def list_all_iff)
  qed (simp add: stream_byte_def)
qed

section \<open>A file of the disk\<close>

text \<open>A plain file among the objects: its inode, no compression attribute, and the extents of its stream.\<close>

definition plain_object :: "fs_object list \<Rightarrow> u64 \<Rightarrow> Inode \<Rightarrow> FileExtent list \<Rightarrow> bool" where
  "plain_object obs oid inode es \<longleftrightarrow>
     (\<exists>ob st. find_object obs oid = Some ob \<and> fo_inode ob = Some inode \<and>
        find_object obs (ino_private_id inode) = Some st \<and> fo_extents st = es \<and>
        List.find (\<lambda>x. xa_name x = XATTR_NAME_DECMPFS) (fo_xattrs ob) = None) \<and> spec_size inode \<le> MAX_FILE_BYTES"

lemma plain_object_contents:
  assumes "container_fits l blks" and "holds_objects hash (lay_tree l) obs" and "plain_object obs oid inode es"
    and "list_all (data_extent l blks (unat (spec_size inode))) es"
  shows "file_contents cs (concat (write_container l blks)) 4096 (lay_tree l) inode
      (map (stream_byte (concat blks) 4096 es) [0..<unat (spec_size inode)])"
    and "\<exists>rec. spec_inode (lay_tree l) oid = Some rec \<and> Inode_parse oid rec = Ok inode"
proof -
  obtain ob st where ob: "ob \<in> set obs" "fo_oid ob = oid" "fo_inode ob = Some inode"
    and st: "st \<in> set obs" "fo_oid st = ino_private_id inode" "fo_extents st = es"
    and attrs: "List.find (\<lambda>x. xa_name x = XATTR_NAME_DECMPFS) (fo_xattrs ob) = None"
    and size: "spec_size inode \<le> MAX_FILE_BYTES"
    using assms(3) by (auto simp: plain_object_def dest!: find_objectD)
  have ok: "object_ok ob" using assms(2) ob(1) by (auto simp: holds_objects_def list_all_iff)
  then have oid: "ino_oid inode = oid" using ob by (simp add: object_ok_def)
  note so = spec_object [OF assms(2) ob(1)] and ss = spec_object [OF assms(2) st(1)]
  have es: "spec_extents (lay_tree l) (ino_private_id inode) = es" using ss(3) st by simp
  have "spec_xattr (lay_tree l) (ino_oid inode) XATTR_NAME_DECMPFS = None"
    using so(2) ob(2) oid attrs by (simp add: spec_xattr_def)
  from plain_file [OF this size, of "concat (write_container l blks)" 4096 cs]
  show "file_contents cs (concat (write_container l blks)) 4096 (lay_tree l) inode
      (map (stream_byte (concat blks) 4096 es) [0..<unat (spec_size inode)])"
    using assms(4) data_stream_bytes [OF assms(1,4)] data_extent_in_image [OF assms(1)]
    by (simp add: es list_all_iff)
  show "\<exists>rec. spec_inode (lay_tree l) oid = Some rec \<and> Inode_parse oid rec = Ok inode"
    using so(4) ob inode_of_object [OF ok ob(3)] by simp
qed

lemma disk_file_view:
  assumes "container_fits l blks" and "holds_objects hash (lay_tree l) obs"
    and "object_path obs (vol_xid (lay_volume l)) ROOT_DIR_INO_NUM names = Ok oid" and "plain_object obs oid inode es"
    and "list_all (data_extent l blks (unat (spec_size inode))) es"
    and "unat (spec_size inode) \<le> n * k" and "n * k < 2 ^ 64" and "dev = cursor (concat (write_container l blks))"
  shows "\<exists>node m. follow dev (mounted_fs l) (vfs_root (mounted_fs l) :: 'o FileId) names = Some node \<and>
    meta dev (mounted_fs l) node = (VOk m, mounted_fs l) \<and> meta_kind m = mode_to_kind (ino_mode inode) \<and>
    unat (meta_size m) = unat (spec_size inode) \<and>
    concat (map (window cs dev (mounted_fs l) node k) [0..<n]) = map (stream_byte (concat blks) 4096 es) [0..<unat (spec_size inode)]"
proof -
  note img = container_image_blocks [OF assms(1)]
  have "length (concat (write_container l blks)) < 2 ^ 64"
    using length_concat_blocks [OF img(1)] img(2) assms(1) by (simp add: container_fits_def volume_fits_def)
  moreover obtain rec where "spec_inode (lay_tree l) oid = Some rec" "Inode_parse oid rec = Ok inode"
    using plain_object_contents(2) [OF assms(1,2,4,5)] by blast
  ultimately show ?thesis
    using file_view [OF mounted_serving, of "concat (write_container l blks)" l "lay_tree l" names oid rec inode cs
        "map (stream_byte (concat blks) 4096 es) [0..<unat (spec_size inode)]" n k, where 'o = 'o]
      img(9) assms(3,6,7,8) spec_path_objects [OF assms(2)] plain_object_contents(1) [OF assms(1,2,4,5)]
    by (simp add: mounted_fs_def del: length_concat)
qed

end
