(* ===== verification/Snapshot_Image.thy ===== *)
theory Snapshot_Image
  imports Disk_Image
begin

text \<open>
  A disk with a snapshot: beside the live container, the frozen volume superblock, the file-system tree
  of its time, placed by the older mappings of the live object map, and the snapshot metadata tree with
  its physical root. The two file-system trees may share blocks, as copy-on-write leaves them.
\<close>

section \<open>Snapshot records\<close>

definition snap_meta_val :: "Snapshot \<Rightarrow> bytes" where
  "snap_meta_val s = to_le_bytes (sn_extentref_tree_oid s) @ to_le_bytes (sn_sblock_oid s) @ to_le_bytes (sn_create_time s) @
     to_le_bytes (sn_change_time s) @ to_le_bytes (sn_inum s) @ replicate 4 0 @ to_le_bytes (sn_flags s) @
     to_le_bytes (word_of_nat (Suc (length (sn_name s))) :: u16) @ sn_name s @ [0]"

definition snap_meta_record :: "Snapshot \<Rightarrow> Entry" where
  "snap_meta_record s = (jk (sn_xid s) RT_SnapMetadata, snap_meta_val s)"

definition snap_name_record :: "Snapshot \<Rightarrow> Entry" where
  "snap_name_record s = (xattr_key (jk OBJ_ID_MASK RT_SnapName) (sn_name s), to_le_bytes (sn_xid s))"

definition snapshot_fits :: "Snapshot \<Rightarrow> bool" where
  "snapshot_fits s \<longleftrightarrow> snapshot_ok s \<and> Suc (length (sn_name s)) \<le> 4096"

text \<open>A tree that holds the records of the snapshots, metadata by transaction id and then names.\<close>

definition holds_snapshots :: "ptree \<Rightarrow> Snapshot list \<Rightarrow> bool" where
  "holds_snapshots t sns \<longleftrightarrow> all_entries t = map snap_meta_record sns @ map snap_name_record sns \<and>
     list_all snapshot_fits sns \<and> sorted (map sn_xid sns)"

lemma snap_name_len:
  assumes "snapshot_fits s"
  shows "unat (word_of_nat (Suc (length (sn_name s))) :: u16) = Suc (length (sn_name s))"
    and "decode_cstr (sn_name s @ [0]) = sn_name s"
  using assms decode_cstr_terminated [of "sn_name s" "[]"]
  by (simp_all add: snapshot_fits_def snapshot_ok_def name_ok_def unat_of_nat del: of_nat_Suc)

lemma parse_snap_metadata_record:
  assumes "snapshot_fits s"
  shows "parse_snap_metadata (sn_xid s) (snap_meta_val s) = s"
proof -
  have "le_u16 (snap_meta_val s) 48 = word_of_nat (Suc (length (sn_name s)))"
    by (simp add: snap_meta_val_def slice_simps del: of_nat_Suc)
  moreover have "get_range (snap_meta_val s) 50 (50 + Suc (length (sn_name s))) = Some (sn_name s @ [0])"
    by (simp add: snap_meta_val_def get_range_def)
  ultimately have "parse_snap_metadata (sn_xid s) (snap_meta_val s) = \<lparr>sn_xid = sn_xid s, sn_name = sn_name s,
      sn_create_time = sn_create_time s, sn_change_time = sn_change_time s, sn_sblock_oid = sn_sblock_oid s,
      sn_extentref_tree_oid = sn_extentref_tree_oid s, sn_inum = sn_inum s, sn_flags = sn_flags s\<rparr>"
    using assms snap_name_len [OF assms]
    by (simp add: parse_snap_metadata_def Let_def MAX_SNAP_NAME_LEN_def snapshot_fits_def del: of_nat_Suc)
      (simp add: snap_meta_val_def slice_simps)
  then show ?thesis by simp
qed

lemma decode_snap_name_record:
  assumes "snapshot_fits s"
  shows "decode_snap_name_key (fst (snap_name_record s)) = Some (sn_name s)"
proof -
  let ?key = "fst (snap_name_record s)"
  have "le_u16 ?key 8 = word_of_nat (Suc (length (sn_name s)))"
    by (simp add: snap_name_record_def xattr_key_def slice_simps del: of_nat_Suc)
  moreover have "get_range ?key 10 (10 + Suc (length (sn_name s))) = Some (sn_name s @ [0])"
    by (simp add: snap_name_record_def xattr_key_def get_range_def)
  ultimately show ?thesis
    using assms snap_name_len [OF assms]
    by (simp add: decode_snap_name_key_def Let_def MAX_SNAP_NAME_LEN_def snapshot_fits_def del: of_nat_Suc)
qed

lemma snap_record_keys:
  "snapshot_fits s \<Longrightarrow> key_oid (fst (snap_meta_record s)) = sn_xid s"
  "snapshot_fits s \<Longrightarrow> key_type (fst (snap_meta_record s)) = Some RT_SnapMetadata"
  "key_type (fst (snap_name_record s)) = Some RT_SnapName"
proof -
  have "unat OBJ_ID_MASK < 2 ^ 60" by (simp add: OBJ_ID_MASK_def)
  then show "key_type (fst (snap_name_record s)) = Some RT_SnapName"
    by (simp add: snap_name_record_def xattr_key_def key_oid_jk)
qed (simp_all add: snap_meta_record_def snapshot_fits_def snapshot_ok_def key_oid_jk_alone)

lemma spec_snapshots_records:
  assumes "holds_snapshots t sns"
  shows "spec_snapshots t = sns"
    and "spec_snap_xid t name = map_option sn_xid (List.find (\<lambda>s. sn_name s = name) sns)"
proof -
  have es: "all_entries t = map snap_meta_record sns @ map snap_name_record sns" "\<forall>s \<in> set sns. snapshot_fits s"
    using assms by (simp_all add: holds_snapshots_def list_all_iff)
  have metas: "filter (\<lambda>e. key_type (fst e) = Some RT_SnapMetadata) (all_entries t) = map snap_meta_record sns"
    using es by (auto simp: snap_record_keys filter_map comp_def filter_empty_conv intro!: filter_True)
  have "map (\<lambda>(k, v). parse_snap_metadata (key_oid k) v) (map snap_meta_record sns) = sns"
    using es(2) snap_record_keys(1) parse_snap_metadata_record
    by (auto simp: snap_meta_record_def intro!: map_idI)
  then show "spec_snapshots t = sns"
    using assms unfolding spec_snapshots_def metas by (simp add: holds_snapshots_def sort_key_id_if_sorted)
  have "List.find P (map snap_meta_record ss @ rest) = List.find P rest"
    if "\<forall>s \<in> set ss. \<not> P (snap_meta_record s)" for P ss and rest :: "Entry list"
    using that by (induction ss) auto
  moreover have "List.find P (map snap_name_record ss) = map_option snap_name_record (List.find (\<lambda>s. P (snap_name_record s)) ss)"
    for P ss by (induction ss) auto
  moreover have "List.find (\<lambda>s. decode_snap_name_key (fst (snap_name_record s)) = Some name) sns = List.find (\<lambda>s. sn_name s = name) sns"
    using es(2) decode_snap_name_record by (auto intro!: find_cong)
  ultimately show "spec_snap_xid t name = map_option sn_xid (List.find (\<lambda>s. sn_name s = name) sns)"
    using es snap_record_keys
    by (simp add: spec_snap_xid_def option.map_comp comp_def) (simp add: snap_name_record_def slice_simps)
qed

section \<open>The disk\<close>

record snap_layout =
  sl_frozen :: ApfsVolume        \<comment> \<open>the frozen volume superblock\<close>
  sl_addr :: u64                 \<comment> \<open>its block\<close>
  sl_tree :: ptree               \<comment> \<open>the file-system tree of its time\<close>
  sl_place :: "u64 \<Rightarrow> u64"      \<comment> \<open>the blocks of its nodes\<close>
  sl_meta :: ptree               \<comment> \<open>the snapshot metadata tree\<close>
  sl_meta_place :: "u64 \<Rightarrow> u64" \<comment> \<open>the blocks of its nodes\<close>

definition write_snapshot :: "snap_layout \<Rightarrow> (u64 \<Rightarrow> bytes) \<Rightarrow> bytes list \<Rightarrow> bytes list" where
  "write_snapshot s obj blks =
     write_tree (sl_meta_place s) 4096 obj False (sl_meta s)
       (write_tree (sl_place s) 4096 obj False (sl_tree s) (blks[unat (sl_addr s) := apsb_image 4096 (sl_frozen s)]))"

definition write_disk :: "snap_layout \<Rightarrow> layout \<Rightarrow> bytes list \<Rightarrow> bytes list" where
  "write_disk s l blks = write_container l (write_snapshot s (lay_obj l) blks)"

definition snap_addrs :: "snap_layout \<Rightarrow> u64 list" where
  "snap_addrs s = sl_addr s # map (sl_place s) (addrs (sl_tree s)) @ map (sl_meta_place s) (addrs (sl_meta s))"

text \<open>
  A block of the live container is not overwritten: a node of the older tree keeps its block, or shares
  it with a node of the live tree that is the same.
\<close>

definition kept_or_shared :: "snap_layout \<Rightarrow> layout \<Rightarrow> ptree \<Rightarrow> bool" where
  "kept_or_shared s l u \<longleftrightarrow> sl_place s (root u) \<notin> set (meta_addrs l) \<or>
     list_ex (\<lambda>w. lay_place l (root w) = sl_place s (root u) \<and>
       tree_node 4096 (lay_obj l) False (root (lay_tree l)) w = tree_node 4096 (lay_obj l) False (root (sl_tree s)) u)
     (subtrees (lay_tree l))"

definition old_tree_fits :: "snap_layout \<Rightarrow> layout \<Rightarrow> bool" where
  "old_tree_fits s l \<longleftrightarrow> vol_fields_ok (sl_frozen s) \<and> vol_root_tree_oid (sl_frozen s) = root (sl_tree s) \<and>
     list_all (writable FsTree 4096 (lay_obj l) False (root (sl_tree s))) (subtrees (sl_tree s)) \<and> height (sl_tree s) \<le> 64 \<and>
     oid_ordered (sl_tree s) \<and> list_all (kept_or_shared s l) (subtrees (sl_tree s)) \<and>
     list_all (\<lambda>a. map_option oe_paddr (omap_scan a (vol_xid (sl_frozen s)) (all_entries (lay_vomap l))) = Some (sl_place s a))
       (addrs (sl_tree s))"

definition snap_meta_fits :: "snap_layout \<Rightarrow> layout \<Rightarrow> bool" where
  "snap_meta_fits s l \<longleftrightarrow> root (sl_meta s) = vol_snap_meta_tree_oid (lay_volume l) \<and> sl_meta_place s (root (sl_meta s)) = root (sl_meta s) \<and>
     list_all (writable FsTree 4096 (lay_obj l) False (root (sl_meta s))) (subtrees (sl_meta s)) \<and> height (sl_meta s) \<le> 64 \<and>
     list_all (\<lambda>a. sl_meta_place s a \<notin> set (meta_addrs l) \<and> (a = root (sl_meta s) \<or>
       map_option oe_paddr (omap_scan a (vol_xid (lay_volume l)) (all_entries (lay_vomap l))) = Some (sl_meta_place s a)))
       (addrs (sl_meta s))"

definition disk_fits :: "snap_layout \<Rightarrow> layout \<Rightarrow> bytes list \<Rightarrow> bool" where
  "disk_fits s l blks \<longleftrightarrow> container_fits l (write_snapshot s (lay_obj l) blks) \<and> old_tree_fits s l \<and> snap_meta_fits s l \<and>
     sl_addr s \<notin> set (meta_addrs l) \<and> distinct (snap_addrs s) \<and> list_all (\<lambda>a. unat a < length blks) (snap_addrs s)"

section \<open>Its blocks\<close>

lemma snapshot_blocks:
  assumes "distinct (snap_addrs s)" and "list_all (\<lambda>a. unat a < length blks) (snap_addrs s)"
  shows "write_snapshot s obj blks ! unat (sl_addr s) = apsb_image 4096 (sl_frozen s)"
    and "u \<in> set (subtrees (sl_tree s)) \<Longrightarrow>
      write_snapshot s obj blks ! unat (sl_place s (root u)) = tree_node 4096 obj False (root (sl_tree s)) u"
    and "w \<in> set (subtrees (sl_meta s)) \<Longrightarrow>
      write_snapshot s obj blks ! unat (sl_meta_place s (root w)) = tree_node 4096 obj False (root (sl_meta s)) w"
    and "length (write_snapshot s obj blks) = length blks"
proof -
  let ?b0 = "blks[unat (sl_addr s) := apsb_image 4096 (sl_frozen s)]"
  let ?b1 = "write_tree (sl_place s) 4096 obj False (sl_tree s) ?b0"
  have d: "sl_addr s \<notin> sl_place s ` set (addrs (sl_tree s))" "sl_addr s \<notin> sl_meta_place s ` set (addrs (sl_meta s))"
    "distinct (map (sl_place s) (addrs (sl_tree s)))" "distinct (map (sl_meta_place s) (addrs (sl_meta s)))"
    "sl_place s ` set (addrs (sl_tree s)) \<inter> sl_meta_place s ` set (addrs (sl_meta s)) = {}"
    using assms(1) by (auto simp: snap_addrs_def)
  have b: "unat (sl_addr s) < length blks" "list_all (\<lambda>a. unat (sl_place s a) < length blks) (addrs (sl_tree s))"
    "list_all (\<lambda>a. unat (sl_meta_place s a) < length blks) (addrs (sl_meta s))"
    using assms(2) by (auto simp: snap_addrs_def list_all_iff)
  have outer: "write_snapshot s obj blks ! unat a = ?b1 ! unat a" if "a \<notin> sl_meta_place s ` set (addrs (sl_meta s))" for a
    unfolding write_snapshot_def using that by (intro write_tree_other unat_place_notin)
  have "?b1 ! unat (sl_addr s) = ?b0 ! unat (sl_addr s)" using d(1) by (intro write_tree_other unat_place_notin)
  then show "write_snapshot s obj blks ! unat (sl_addr s) = apsb_image 4096 (sl_frozen s)" using outer [OF d(2)] b(1) by simp
  show "write_snapshot s obj blks ! unat (sl_place s (root u)) = tree_node 4096 obj False (root (sl_tree s)) u"
    if "u \<in> set (subtrees (sl_tree s))"
  proof -
    have "sl_place s (root u) \<notin> sl_meta_place s ` set (addrs (sl_meta s))" using subtree_root [OF that] d(5) by blast
    moreover have "?b1 ! unat (sl_place s (root u)) = tree_node 4096 obj False (root (sl_tree s)) u"
      using b(2) by (intro write_tree_node [OF that d(3)]) simp
    ultimately show ?thesis using outer [of "sl_place s (root u)"] by simp
  qed
  show "write_snapshot s obj blks ! unat (sl_meta_place s (root w)) = tree_node 4096 obj False (root (sl_meta s)) w"
    if "w \<in> set (subtrees (sl_meta s))"
    unfolding write_snapshot_def using b(3) by (intro write_tree_node [OF that d(4)]) simp
  show "length (write_snapshot s obj blks) = length blks" by (simp add: write_snapshot_def)
qed

lemma snapshot_blocks_other: "a \<notin> set (snap_addrs s) \<Longrightarrow> write_snapshot s obj blks ! unat a = blks ! unat a"
proof -
  assume a: "a \<notin> set (snap_addrs s)"
  let ?b0 = "blks[unat (sl_addr s) := apsb_image 4096 (sl_frozen s)]"
  have "write_snapshot s obj blks ! unat a = write_tree (sl_place s) 4096 obj False (sl_tree s) ?b0 ! unat a"
    unfolding write_snapshot_def using a by (intro write_tree_other unat_place_notin) (simp add: snap_addrs_def)
  also have "\<dots> = ?b0 ! unat a" using a by (intro write_tree_other unat_place_notin) (simp add: snap_addrs_def)
  also have "\<dots> = blks ! unat a" using a by (simp add: snap_addrs_def word_unat_eq_iff)
  finally show ?thesis .
qed

lemma snapshot_blocks_length:
  assumes "old_tree_fits s l" and "snap_meta_fits s l" and "\<forall>b \<in> set blks. length b = 4096"
  shows "\<forall>b \<in> set (write_snapshot s (lay_obj l) blks). length b = 4096"
proof -
  have "\<forall>b \<in> set (blks[unat (sl_addr s) := apsb_image 4096 (sl_frozen s)]). length b = 4096"
    using assms(1,3) length_apsb_image [of "sl_frozen s" 4096] by (intro update_all) (simp_all add: old_tree_fits_def)
  moreover have "list_all (writable FsTree 4096 (lay_obj l) False (root (sl_tree s))) (subtrees (sl_tree s))"
    using assms(1) unfolding old_tree_fits_def by blast
  moreover have "list_all (writable FsTree 4096 (lay_obj l) False (root (sl_meta s))) (subtrees (sl_meta s))"
    using assms(2) unfolding snap_meta_fits_def by blast
  ultimately show ?thesis
    unfolding write_snapshot_def by (intro write_tree_lengths [where st = FsTree]) simp_all
qed

lemma disk_blocks:
  assumes "disk_fits s l blks"
  shows "write_disk s l blks ! unat (sl_addr s) = apsb_image 4096 (sl_frozen s)"
    and "u \<in> set (subtrees (sl_tree s)) \<Longrightarrow>
      write_disk s l blks ! unat (sl_place s (root u)) = tree_node 4096 (lay_obj l) False (root (sl_tree s)) u"
    and "w \<in> set (subtrees (sl_meta s)) \<Longrightarrow>
      write_disk s l blks ! unat (sl_meta_place s (root w)) = tree_node 4096 (lay_obj l) False (root (sl_meta s)) w"
    and "length (write_disk s l blks) = length blks" and "a \<in> set (snap_addrs s) \<Longrightarrow> unat a < length (write_disk s l blks)"
proof -
  note f = assms [unfolded disk_fits_def]
  have c: "container_fits l (write_snapshot s (lay_obj l) blks)" using f by blast
  have sb: "distinct (snap_addrs s)" "list_all (\<lambda>a. unat a < length blks) (snap_addrs s)" using f by blast+
  note b = container_image_blocks [OF c, folded write_disk_def] and sn = snapshot_blocks [OF sb]
  show "length (write_disk s l blks) = length blks" using b(2) sn(4) by simp
  then show "a \<in> set (snap_addrs s) \<Longrightarrow> unat a < length (write_disk s l blks)" using sb(2) by (simp add: list_all_iff)
  show "write_disk s l blks ! unat (sl_addr s) = apsb_image 4096 (sl_frozen s)"
    using b(8) [of "sl_addr s"] sn(1) f by simp
  show "write_disk s l blks ! unat (sl_place s (root u)) = tree_node 4096 (lay_obj l) False (root (sl_tree s)) u"
    if u: "u \<in> set (subtrees (sl_tree s))"
  proof (cases "sl_place s (root u) \<in> set (meta_addrs l)")
    case False
    then show ?thesis using b(8) [OF False] sn(2) [OF u] by simp
  next
    case True
    then obtain w where "w \<in> set (subtrees (lay_tree l))" "lay_place l (root w) = sl_place s (root u)"
      "tree_node 4096 (lay_obj l) False (root (lay_tree l)) w = tree_node 4096 (lay_obj l) False (root (sl_tree s)) u"
      using f u by (auto simp: old_tree_fits_def list_all_iff kept_or_shared_def list_ex_iff)
    then show ?thesis using b(10) [of w] by simp
  qed
  show "write_disk s l blks ! unat (sl_meta_place s (root w)) = tree_node 4096 (lay_obj l) False (root (sl_meta s)) w"
    if w: "w \<in> set (subtrees (sl_meta s))"
    using b(8) [of "sl_meta_place s (root w)"] sn(3) [OF w] subtree_root [OF w] f by (simp add: snap_meta_fits_def list_all_iff)
qed

section \<open>Mounting the snapshot\<close>

text \<open>The volume of a snapshot: the frozen superblock on the live object map.\<close>

definition snap_volume :: "snap_layout \<Rightarrow> layout \<Rightarrow> ApfsVolume" where
  "snap_volume s l = (sl_frozen s)\<lparr>vol_omap_oid := vol_omap_oid (lay_volume l)\<rparr>"

lemma disk_trees_stored:
  assumes "disk_fits s l blks"
  defines "dev \<equiv> cursor (concat (write_disk s l blks))"
  shows "fs_stored dev (snap_volume s l) 4096 (sl_tree s)" and "snap_stored dev (lay_volume l) 4096 (sl_meta s)"
proof -
  note f = assms(1) [unfolded disk_fits_def old_tree_fits_def snap_meta_fits_def] and db = disk_blocks [OF assms(1)]
  have c: "container_fits l (write_snapshot s (lay_obj l) blks)" using f by blast
  note b = container_image_blocks [OF c, folded write_disk_def] and v = c [unfolded container_fits_def volume_fits_def]
  have img: "\<forall>b \<in> set (write_disk s l blks). length b = 4096" "length (write_disk s l blks) * 4096 < 2 ^ 64" "(0 :: nat) < 4096"
    using b(1,2) v by simp_all
  obtain buf om where om: "read_at dev (saturating_mul (vol_omap_oid (lay_volume l)) (word_of_nat 4096)) 4096 = Ok buf"
    "ObjectMap_parse buf = Ok om" "root (lay_vomap l) = om_tree_oid om"
    "stored (\<lambda>a. read_verified_node (cursor (concat (write_disk s l blks))) a 4096) Omap (lay_vomap l)"
    using b(11) unfolding dev_def by blast
  have omap: "height (lay_vomap l) \<le> 64" "distinct (addrs (lay_vomap l))" "seps_ok (lay_vomap l)" using v by auto
  note placed = virtual_node_placed [OF img om(4,3) omap]
  have "stored (virtual_node dev om (vol_xid (sl_frozen s)) 4096) FsTree (sl_tree s)"
    unfolding dev_def using f db(2) db(5) [of "sl_place s _"] subtree_root [of _ "sl_tree s"]
    by (intro virtual_tree_stored [OF img om(4,3) omap, where place = "sl_place s" and obj = "lay_obj l"])
      (auto simp: snap_addrs_def)
  moreover have "distinct (addrs (sl_tree s))" using f by (simp add: snap_addrs_def distinct_map)
  ultimately show "fs_stored dev (snap_volume s l) 4096 (sl_tree s)"
    using om(1,2) f by (auto simp: fs_stored_def snap_volume_def)
  have "stored (\<lambda>a. if a = root (sl_meta s) then and_then (read_snap_node dev om (vol_xid (lay_volume l)) 4096 True a) (\<lambda>b. Ok (Some b))
        else virtual_node dev om (vol_xid (lay_volume l)) 4096 a) FsTree (sl_meta s)"
  proof (rule stored_written(1) [where bs = 4096 and obj = "lay_obj l" and fixed = False and r = "root (sl_meta s)"], intro ballI conjI)
    fix w
    assume w: "w \<in> set (subtrees (sl_meta s))"
    have all: "list_all (writable FsTree 4096 (lay_obj l) False (root (sl_meta s))) (subtrees (sl_meta s))" using f by blast
    then show wr: "writable FsTree 4096 (lay_obj l) False (root (sl_meta s)) w" using w by (simp add: list_all_iff)
    have pos: "unat (sl_meta_place s (root w)) < length (write_disk s l blks)"
      using db(5) subtree_root [OF w] by (simp add: snap_addrs_def)
    show "(if root w = root (sl_meta s)
        then and_then (read_snap_node dev om (vol_xid (lay_volume l)) 4096 True (root w)) (\<lambda>b. Ok (Some b))
        else virtual_node dev om (vol_xid (lay_volume l)) 4096 (root w)) =
      Ok (Some (tree_node 4096 (lay_obj l) False (root (sl_meta s)) w))"
    proof (cases "root w = root (sl_meta s)")
      case True
      have "sl_meta_place s (root (sl_meta s)) = root (sl_meta s)" using f by blast
      then have "sl_meta_place s (root w) = root w" by (simp only: True)
      then show ?thesis
        using read_at_block [OF img(1) pos img(2,3)] db(3) [OF w] writable_node(2) [OF wr] True
        by (simp add: read_snap_node_def dev_def)
    next
      case False
      then show ?thesis
        using f subtree_root [OF w] placed [OF _ pos db(3) [OF w] writable_node(2) [OF wr]]
        by (auto simp: dev_def list_all_iff)
    qed
  qed (use f in simp)
  moreover have "distinct (addrs (sl_meta s))" using f by (simp add: snap_addrs_def distinct_map)
  ultimately show "snap_stored dev (lay_volume l) 4096 (sl_meta s)"
    using om(1,2) f by (auto simp: snap_stored_def)
qed

lemma disk_snapshot_mounts:
  assumes "disk_fits s l blks" and "holds_snapshots (sl_meta s) sns" and "List.find (\<lambda>sn. sn_xid sn = x) sns = Some sn"
    and "sn_sblock_oid sn = sl_addr s" and "x \<noteq> vol_xid (lay_volume l)" and "dev = cursor (concat (write_disk s l blks))"
  shows "open_snapshot dev x = Ok \<lparr>fs_volume = snap_volume s l, fs_block_size = 4096, fs_root_xid = x, fs_poisoned = False\<rparr>"
    and "snapshots dev = Ok sns"
    and "resolve_snapshot_xid dev (lay_volume l) name 4096 = Ok (map_option sn_xid (List.find (\<lambda>sn. sn_name sn = name) sns))"
    and "open_snapshot dev (vol_xid (lay_volume l)) = Ok (mounted_fs l)"
    and "y \<noteq> vol_xid (lay_volume l) \<Longrightarrow> y \<notin> sn_xid ` set sns \<Longrightarrow> open_snapshot dev y = Err (SnapshotNotFound y)"
proof -
  have c: "container_fits l (write_snapshot s (lay_obj l) blks)" using assms(1) by (simp add: disk_fits_def)
  have opened: "open_first_volume dev = Ok (lay_volume l, 4096)"
    using container_mounts [OF c] by (simp add: assms(6) write_disk_def)
  note snap = disk_trees_stored(2) [OF assms(1), folded assms(6)] and b = container_image_blocks [OF c, folded write_disk_def]
  have listed: "list_snapshots dev (lay_volume l) 4096 = Ok sns"
    using list_snapshots_stored [OF snap] spec_snapshots_records(1) [OF assms(2)] by simp
  note cases = open_snapshot_cases [OF opened listed]
  show "open_snapshot dev (vol_xid (lay_volume l)) = Ok (mounted_fs l)" by (simp add: cases mounted_fs_def)
  show "open_snapshot dev y = Err (SnapshotNotFound y)" if "y \<noteq> vol_xid (lay_volume l)" "y \<notin> sn_xid ` set sns"
  proof -
    have "List.find (\<lambda>sn. sn_xid sn = y) sns = None" using that(2) by (auto simp: find_None_iff)
    then show ?thesis using that(1) by (simp add: cases)
  qed
  show "snapshots dev = Ok sns" using opened listed by (simp add: snapshots_def)
  show "resolve_snapshot_xid dev (lay_volume l) name 4096 = Ok (map_option sn_xid (List.find (\<lambda>sn. sn_name sn = name) sns))"
    using resolve_snapshot_xid_stored [OF snap] spec_snapshots_records(2) [OF assms(2)] by simp
  have "length (write_disk s l blks) * 4096 < 2 ^ 64" using b(2) c by (simp add: container_fits_def volume_fits_def)
  moreover have "unat (sl_addr s) < length (write_disk s l blks)"
    using disk_blocks(5) [OF assms(1), of "sl_addr s"] by (simp add: snap_addrs_def)
  ultimately have "read_at dev (saturating_mul (sl_addr s) (word_of_nat 4096)) 4096 = Ok (apsb_image 4096 (sl_frozen s))"
    using read_at_block [OF b(1), of "sl_addr s"] disk_blocks(1) [OF assms(1)] by (simp add: assms(6))
  moreover have "ApfsVolume_parse (apsb_image 4096 (sl_frozen s)) = Ok (sl_frozen s)"
    using assms(1) by (intro apsb_image_parse) (simp_all add: disk_fits_def old_tree_fits_def)
  ultimately have "mount_snapshot dev (lay_volume l) sn 4096 = Ok (snap_volume s l)"
    using assms(4) by (simp add: mount_snapshot_def with_omap_oid_def snap_volume_def)
  then show "open_snapshot dev x = Ok \<lparr>fs_volume = snap_volume s l, fs_block_size = 4096, fs_root_xid = x, fs_poisoned = False\<rparr>"
    using assms(3,5) by (simp add: cases)
qed

end
