(* ===== verification/Sample_Disk.thy ===== *)
theory Sample_Disk
  imports Snapshot_Image Sample_Volume
begin

text \<open>
  A disk of twelve blocks for the theorems about written containers: the root directory with one file,
  whose five bytes are in block 11, over a ring that holds an older superblock; and
  a disk of sixteen blocks that also holds a snapshot from before the root directory changed.
\<close>

definition dsk_nx :: "u64 \<Rightarrow> NxSuperblock" where
  "dsk_nx xid = \<lparr>nx_xid = xid, nx_uuid = replicate 16 0xab, nx_block_size = 4096, nx_block_count = 12,
     nx_incompatible_features = 2, xp_desc_base = 1, xp_desc_blocks = 2, xp_data_base = 3, xp_data_blocks = 1,
     nx_omap_oid = 3, spaceman_oid = 1024, reaper_oid = 1025, fs_oids = [5], desc_is_tree = False, data_is_tree = False\<rparr>"

definition dsk_volume :: ApfsVolume where
  "dsk_volume = \<lparr>vol_oid = 5, vol_xid = 6, vol_fs_index = 0, vol_features = 2, vol_readonly_compatible_features = 0,
     vol_incompatible_features = 1, vol_root_tree_type = 2, vol_omap_oid = 6, vol_root_tree_oid = 1026,
     vol_extentref_tree_oid = 0, vol_snap_meta_tree_oid = 0, vol_uuid = replicate 16 0xcd, vol_fs_flags = 1,
     vol_name = ascii ''Disk''\<rparr>"

definition dsk_root :: fs_object where
  "dsk_root = \<lparr>fo_oid = 2, fo_inode = Some (demo_inode\<lparr>ino_oid := 2, ino_private_id := 2, ino_mode := 0x41ed, ino_size := None\<rparr>),
     fo_xattrs = [], fo_extents = [],
     fo_entries = [\<lparr>de_name = ascii ''a.txt'', de_file_id = 16, de_date_added = 9, de_flags = 8\<rparr>]\<rparr>"

definition dsk_file :: fs_object where
  "dsk_file = \<lparr>fo_oid = 16, fo_inode = Some (demo_inode\<lparr>ino_private_id := 16\<rparr>),
     fo_xattrs = [\<lparr>xa_name = ascii ''tag'', xa_flags = 2, xa_value = Embedded [1, 2, 3]\<rparr>],
     fo_extents = [\<lparr>logical_offset = 0, ext_len = 4096, phys_block_num = 11\<rparr>], fo_entries = []\<rparr>"

definition dsk_tree :: ptree where
  "dsk_tree = PNode 1026 [(jk 2 RT_Inode, PLeaf 1027 (object_records None dsk_root)),
                          (jk 16 RT_Inode, PLeaf 1028 (object_records None dsk_file))]"

definition dsk_layout :: layout where
  "dsk_layout = \<lparr>lay_boot = dsk_nx 3, lay_live = dsk_nx 7, lay_slot = 1, lay_comap = PLeaf 4 [(demo_key 5 6, demo_val 5)],
     lay_volume = dsk_volume, lay_vaddr = 5,
     lay_vomap = PLeaf 7 [(demo_key 1026 4, demo_val 8), (demo_key 1027 4, demo_val 9), (demo_key 1028 4, demo_val 10)],
     lay_tree = dsk_tree, lay_place = (\<lambda>a. a - 1018), lay_obj = (\<lambda>_. demo_obj)\<rparr>"

definition dsk_blocks :: "bytes list" where
  "dsk_blocks = (replicate 12 (replicate 4096 0))[2 := demo_nx 3, 11 := ascii ''hello'' @ replicate 4091 0]"

lemma dsk_blocks_length: "\<forall>b \<in> set dsk_blocks. length b = 4096"
  unfolding dsk_blocks_def by (intro update_all) simp_all

lemma dsk_blocks_facts:
  "length dsk_blocks = 12" "dsk_blocks ! 2 = demo_nx 3"
  "dsk_blocks ! 11 = ascii ''hello'' @ replicate 4091 0"
  by (simp_all add: dsk_blocks_def)

lemma dsk_names: "name_ok (ascii ''Disk'')" "name_ok (ascii ''tag'')" "name_ok (ascii ''a.txt'')" "name_ok [0x61]"
  by (simp_all add: name_ok_def ascii_def valid_utf8_ascii word_less_nat_alt)

lemma dsk_superblocks: "superblocks_fit dsk_layout"
  using dsk_names
  by (simp add: superblocks_fit_def dsk_layout_def nx_fields_ok_def vol_fields_ok_def dsk_nx_def dsk_volume_def
      NX_DEFAULT_BLOCK_SIZE_def is_fusion_def NX_INCOMPAT_FUSION_def xp_desc_is_tree_def dsk_tree_def)

lemma dsk_addrs:
  "meta_addrs dsk_layout = [0, 1, 3, 5, 4, 6, 7, 8, 9, 10]" "ring_addrs dsk_layout = [1, 2]"
  by (simp_all add: meta_addrs_def head_addrs_def volume_addrs_def ring_addrs_def dsk_layout_def dsk_nx_def dsk_volume_def
      dsk_tree_def upt_rec)

lemma dsk_ring: "ring_fits dsk_layout dsk_blocks"
  unfolding ring_fits_def dsk_addrs
  by (simp add: dsk_blocks_facts demo_nx_fields) (simp add: dsk_layout_def dsk_nx_def word_less_nat_alt)

lemma dsk_comap: "comap_fits dsk_layout"
proof -
  have "writable Omap 4096 (\<lambda>_. demo_obj) True 4 (PLeaf 4 [(demo_key 5 6, demo_val 5)])"
    by (simp add: writable_def layout_ok_def level_for_def demo_defs node_used_def node_flags)
  moreover have "map_option oe_paddr (omap_scan 5 7 [(demo_key 5 6, demo_val 5)]) = Some 5"
    by (simp add: omap_scan_def omap_visit_def word_le_nat_alt word_less_nat_alt)
  ultimately show ?thesis by (simp add: comap_fits_def dsk_layout_def dsk_nx_def)
qed

lemma dsk_objects: "holds_objects None dsk_tree [dsk_root, dsk_file]"
  using dsk_names
  by (simp add: holds_objects_def dsk_tree_def object_ok_def dsk_root_def dsk_file_def demo_inode_def inode_ok_def
      xattr_fits_def XATTR_DATA_STREAM_def)

lemma dsk_vol: "volume_fits (\<lambda>a. a - 1018) 4096 (\<lambda>_. demo_obj) 6 6 (lay_vomap dsk_layout) dsk_tree dsk_blocks"
proof -
  have omap: "list_all (writable Omap 4096 (\<lambda>_. demo_obj) True 7) (subtrees (lay_vomap dsk_layout))"
    by (simp add: dsk_layout_def writable_def layout_ok_def level_for_def demo_defs node_used_def node_flags)
  have fs: "list_all (writable FsTree 4096 (\<lambda>_. demo_obj) False 1026) (subtrees dsk_tree)"
    by (simp add: dsk_tree_def writable_def layout_ok_def level_for_def dsk_root_def dsk_file_def object_records_def
        inode_record_def xattr_record_def extent_record_def drec_record_def inode_image_def inode_fields_def demo_inode_def
        smp_values demo_defs node_used_def node_flags)
  have "\<forall>r \<in> set (object_records None dsk_root). key_oid (fst r) = 2" "\<forall>r \<in> set (object_records None dsk_file). key_oid (fst r) = 16"
    using object_records_oid [of dsk_root _ None] object_records_oid [of dsk_file _ None] dsk_objects
    by (auto simp: holds_objects_def dsk_root_def dsk_file_def)
  then have "oid_ordered dsk_tree" by (simp add: dsk_tree_def key_oid_jk_alone word_le_nat_alt)
  moreover have "list_all (\<lambda>a. map_option oe_paddr (omap_scan a 6 (all_entries (lay_vomap dsk_layout))) = Some (a - 1018)) [1026, 1027, 1028]"
    by (simp add: dsk_layout_def omap_scan_def omap_visit_def word_le_nat_alt)
  ultimately show ?thesis
    using omap fs dsk_blocks_length dsk_blocks_facts(1) by (simp add: volume_fits_def dsk_tree_def) (simp add: dsk_layout_def)
qed

lemma dsk_fits: "container_fits dsk_layout dsk_blocks"
  using dsk_superblocks dsk_ring dsk_comap dsk_vol
  by (simp add: container_fits_def dsk_addrs dsk_blocks_facts) (simp add: dsk_layout_def dsk_volume_def)

text \<open>The file, its data block and its bytes.\<close>

lemma dsk_path: "object_path [dsk_root, dsk_file] 6 2 [ascii ''a.txt''] = Ok 16"
  by (simp add: find_object_def dsk_root_def)

lemma dsk_plain: "plain_object [dsk_root, dsk_file] 16 (demo_inode\<lparr>ino_private_id := 16\<rparr>) (fo_extents dsk_file)"
proof -
  have "find_object [dsk_root, dsk_file] 16 = Some dsk_file" by (simp add: find_object_def dsk_root_def dsk_file_def)
  then show ?thesis
    by (simp add: plain_object_def) (simp add: dsk_file_def demo_inode_def spec_size_def MAX_FILE_BYTES_def
        XATTR_NAME_DECMPFS_def ascii_def)
qed

lemma dsk_data: "list_all (data_extent dsk_layout dsk_blocks 5) (fo_extents dsk_file)"
  by (simp add: dsk_file_def data_extent_def dsk_blocks_facts dsk_addrs)

lemma dsk_bytes: "map (stream_byte (concat dsk_blocks) 4096 (fo_extents dsk_file)) [0..<5] = ascii ''hello''"
proof (rule nth_equalityI)
  fix i
  assume "i < length (map (stream_byte (concat dsk_blocks) 4096 (fo_extents dsk_file)) [0..<5])"
  then have i: "i < 5" by simp
  then have "stream_byte (concat dsk_blocks) 4096 (fo_extents dsk_file) i = concat dsk_blocks ! (11 * 4096 + i)"
    by (simp add: stream_byte_def dsk_file_def covers_def extent_byte_def)
  also have "\<dots> = dsk_blocks ! 11 ! i"
    using nth_concat_blocks [OF dsk_blocks_length, of 11 i] i dsk_blocks_facts(1) by simp
  finally show "map (stream_byte (concat dsk_blocks) 4096 (fo_extents dsk_file)) [0..<5] ! i = ascii ''hello'' ! i"
    using i by (simp add: dsk_blocks_facts nth_append)
qed simp


section \<open>The disk with a snapshot\<close>

text \<open>
  The same disk at a later time, with a snapshot of transaction 4: the root directory has changed since
  (blocks 12 and 13 hold the older nodes), the leaf of the file is shared by both trees (block 10).
\<close>

definition snp_old_root :: fs_object where
  "snp_old_root = dsk_root\<lparr>fo_entries := [\<lparr>de_name = ascii ''old'', de_file_id = 16, de_date_added = 3, de_flags = 8\<rparr>]\<rparr>"

definition snp_layout :: layout where
  "snp_layout = dsk_layout\<lparr>lay_volume := dsk_volume\<lparr>vol_snap_meta_tree_oid := 15\<rparr>,
     lay_vomap := PLeaf 7 [(demo_key 1026 4, demo_val 12), (demo_key 1026 6, demo_val 8), (demo_key 1027 4, demo_val 13),
       (demo_key 1027 6, demo_val 9), (demo_key 1028 4, demo_val 10)]\<rparr>"

definition snp_snapshot :: Snapshot where
  "snp_snapshot = \<lparr>sn_xid = 4, sn_name = ascii ''monday'', sn_create_time = 1, sn_change_time = 2, sn_sblock_oid = 14,
     sn_extentref_tree_oid = 0, sn_inum = 18, sn_flags = 0\<rparr>"

definition snp_snap :: snap_layout where
  "snp_snap = \<lparr>sl_frozen = dsk_volume\<lparr>vol_xid := 4\<rparr>, sl_addr = 14,
     sl_tree = PNode 1026 [(jk 2 RT_Inode, PLeaf 1027 (object_records None snp_old_root)),
                           (jk 16 RT_Inode, PLeaf 1028 (object_records None dsk_file))],
     sl_place = (\<lambda>a. if a = 1028 then 10 else a - 1014),
     sl_meta = PLeaf 15 [snap_meta_record snp_snapshot, snap_name_record snp_snapshot], sl_meta_place = (\<lambda>a. a)\<rparr>"

definition snp_blocks :: "bytes list" where
  "snp_blocks = dsk_blocks @ replicate 4 (replicate 4096 0)"

lemma snp_blocks_facts: "\<forall>b \<in> set snp_blocks. length b = 4096" "length snp_blocks = 16" "snp_blocks ! 2 = demo_nx 3"
  using dsk_blocks_length by (auto simp: snp_blocks_def dsk_blocks_facts nth_append)

lemma snp_addrs:
  "meta_addrs snp_layout = [0, 1, 3, 5, 4, 6, 7, 8, 9, 10]" "ring_addrs snp_layout = [1, 2]"
  "snap_addrs snp_snap = [14, 12, 13, 10, 15]"
  by (simp_all add: meta_addrs_def head_addrs_def volume_addrs_def ring_addrs_def snp_layout_def dsk_layout_def dsk_nx_def
      dsk_volume_def dsk_tree_def snap_addrs_def snp_snap_def upt_rec)

lemma snp_objects: "holds_objects None (sl_tree snp_snap) [snp_old_root, dsk_file]"
proof -
  have "name_ok (ascii ''old'')" by (simp add: name_ok_def ascii_def valid_utf8_ascii word_less_nat_alt)
  then show ?thesis
    using dsk_objects
    by (simp add: holds_objects_def snp_snap_def snp_old_root_def object_ok_def) (simp add: dsk_root_def dsk_file_def)
qed

lemma snp_fits_snapshot: "snapshot_fits snp_snapshot"
  by (simp add: snapshot_fits_def snapshot_ok_def snp_snapshot_def name_ok_def ascii_def valid_utf8_ascii word_less_nat_alt)

lemma snp_holds: "holds_snapshots (sl_meta snp_snap) [snp_snapshot]"
  using snp_fits_snapshot by (simp add: holds_snapshots_def snp_snap_def)

lemma snp_old_tree: "old_tree_fits snp_snap snp_layout"
proof -
  let ?t = "sl_tree snp_snap"
  have "list_all (writable FsTree 4096 (\<lambda>_. demo_obj) False 1026) (subtrees ?t)"
    by (simp add: snp_snap_def snp_old_root_def writable_def layout_ok_def level_for_def dsk_root_def dsk_file_def object_records_def
        inode_record_def xattr_record_def extent_record_def drec_record_def inode_image_def inode_fields_def demo_inode_def
        smp_values demo_defs node_used_def node_flags)
  moreover have "\<forall>r \<in> set (object_records None snp_old_root). key_oid (fst r) = 2" "\<forall>r \<in> set (object_records None dsk_file). key_oid (fst r) = 16"
    using object_records_oid [of snp_old_root _ None] object_records_oid [of dsk_file _ None] snp_objects
    by (auto simp: holds_objects_def snp_old_root_def dsk_root_def dsk_file_def)
  then have "oid_ordered ?t" by (simp add: snp_snap_def key_oid_jk_alone word_le_nat_alt)
  moreover have "list_all (\<lambda>a. map_option oe_paddr (omap_scan a 4 (all_entries (lay_vomap snp_layout))) = Some (sl_place snp_snap a)) [1026, 1027, 1028]"
    by (simp add: snp_layout_def snp_snap_def omap_scan_def omap_visit_def word_le_nat_alt word_less_nat_alt)
  moreover have "list_all (kept_or_shared snp_snap snp_layout) (subtrees ?t)"
    unfolding kept_or_shared_def snp_addrs
    by (simp add: snp_snap_def snp_layout_def dsk_layout_def dsk_tree_def tree_node_def level_for_def)
  ultimately show ?thesis
    using dsk_names by (simp add: old_tree_fits_def) (simp add: snp_snap_def snp_layout_def dsk_layout_def vol_fields_ok_def dsk_volume_def)
qed

lemma snp_meta: "snap_meta_fits snp_snap snp_layout"
proof -
  have "writable FsTree 4096 (\<lambda>_. demo_obj) False 15 (sl_meta snp_snap)"
    by (simp add: snp_snap_def writable_def layout_ok_def level_for_def snap_meta_record_def snap_name_record_def snap_meta_val_def
        snp_snapshot_def xattr_key_def demo_defs node_used_def node_flags)
  then show ?thesis
    unfolding snap_meta_fits_def snp_addrs
    by (simp add: snp_snap_def snp_layout_def dsk_layout_def dsk_volume_def)
qed

lemma snp_container: "container_fits snp_layout (write_snapshot snp_snap (lay_obj snp_layout) snp_blocks)"
proof -
  let ?b = "write_snapshot snp_snap (lay_obj snp_layout) snp_blocks"
  have b: "\<forall>b \<in> set ?b. length b = 4096" "length ?b = 16" "?b ! 2 = demo_nx 3"
    using snapshot_blocks_length [OF snp_old_tree snp_meta snp_blocks_facts(1)] snp_blocks_facts(2,3)
      snapshot_blocks_other [of 2 snp_snap "lay_obj snp_layout" snp_blocks]
    by (simp_all add: write_snapshot_def snp_addrs)
  have "superblocks_fit snp_layout" "comap_fits snp_layout"
    using dsk_superblocks dsk_comap
    by (simp_all add: superblocks_fit_def comap_fits_def snp_layout_def vol_fields_ok_def) (simp_all add: dsk_layout_def)
  moreover have "ring_fits snp_layout ?b"
    unfolding ring_fits_def snp_addrs
    by (simp add: b demo_nx_fields) (simp add: snp_layout_def dsk_layout_def dsk_nx_def word_less_nat_alt)
  moreover have "list_all (writable Omap 4096 (\<lambda>_. demo_obj) True 7) (subtrees (lay_vomap snp_layout))"
    by (simp add: snp_layout_def writable_def layout_ok_def level_for_def demo_defs node_used_def node_flags)
  moreover have "list_all (\<lambda>a. map_option oe_paddr (omap_scan a 6 (all_entries (lay_vomap snp_layout))) = Some (a - 1018)) [1026, 1027, 1028]"
    by (simp add: snp_layout_def omap_scan_def omap_visit_def word_le_nat_alt word_less_nat_alt)
  ultimately have "volume_fits (\<lambda>a. a - 1018) 4096 (\<lambda>_. demo_obj) 6 6 (lay_vomap snp_layout) dsk_tree ?b"
    using dsk_vol b by (simp add: volume_fits_def) (simp add: snp_layout_def dsk_tree_def dsk_layout_def)
  then show ?thesis
    using \<open>superblocks_fit snp_layout\<close> \<open>comap_fits snp_layout\<close> \<open>ring_fits snp_layout ?b\<close> b
    by (simp add: container_fits_def snp_addrs) (simp add: snp_layout_def dsk_layout_def dsk_volume_def)
qed

lemma snp_fits: "disk_fits snp_snap snp_layout snp_blocks"
  using snp_container snp_old_tree snp_meta
  by (simp add: disk_fits_def snp_addrs snp_blocks_facts) (simp add: snp_snap_def)

end
