(* ===== verification/Io_Programs.thy ===== *)
theory Io_Programs
  imports Vfs
begin

text \<open>
  The adapter's calls at the grain of the operations they make on the shared state: seeks and reads on
  the one cursor of the source, taking the \<^verbatim>\<open>Mutex\<close> and dropping its guard. Other theories treat a seek
  followed by a read as one function of offset and length; that is sound only while nobody else moves the
  cursor in between, which is what the lock of \<^verbatim>\<open>src/src/vfs.rs\<close> is for. Here each function that reads
  is a program of single steps; the lemmas show that, run without interference from any position of the
  cursor, it returns what its functional definition says.
\<close>

section \<open>Programs\<close>

text \<open>
  \<open>Lock\<close> goes on with whether the lock is poisoned, \<open>Unlock\<close> is the drop of the guard, which poisons
  the lock when it happens during a panic.
\<close>

datatype 'a io =
    Ret 'a
  | Seek u64 "'a io"
  | Read usize "io_error + bytes \<Rightarrow> 'a io"
  | Lock "bool \<Rightarrow> 'a io"
  | Unlock bool "'a io"

primrec io_bind :: "'a io \<Rightarrow> ('a \<Rightarrow> 'b io) \<Rightarrow> 'b io" where
  "io_bind (Ret v) f = f v"
| "io_bind (Seek off p) f = Seek off (io_bind p f)"
| "io_bind (Read n k) f = Read n (\<lambda>r. io_bind (k r) f)"
| "io_bind (Lock k) f = Lock (\<lambda>b. io_bind (k b) f)"
| "io_bind (Unlock b p) f = Unlock b (io_bind p f)"

text \<open>The \<^verbatim>\<open>?\<close> operator.\<close>

definition io_then :: "'a res io \<Rightarrow> ('a \<Rightarrow> 'b res io) \<Rightarrow> 'b res io" where
  "io_then p f = io_bind p (\<lambda>r. case r of Ok v \<Rightarrow> f v | Err e \<Rightarrow> Ret (Err e) | Panic \<Rightarrow> Ret Panic)"

text \<open>A part that does no I/O.\<close>

definition pure_then :: "'a res \<Rightarrow> ('a \<Rightarrow> 'b res io) \<Rightarrow> 'b res io" where
  "pure_then r f = (case r of Ok v \<Rightarrow> f v | Err e \<Rightarrow> Ret (Err e) | Panic \<Rightarrow> Ret Panic)"

text \<open>A program without locking, run alone on the cursor.\<close>

primrec solo :: "'a io \<Rightarrow> Cursor \<Rightarrow> ('a \<times> Cursor) option" where
  "solo (Ret v) c = Some (v, c)"
| "solo (Seek off p) c = solo p (seek_start c off)"
| "solo (Read n k) c = solo (k (fst (read_exact c n))) (snd (read_exact c n))"
| "solo (Lock k) c = None"
| "solo (Unlock b p) c = None"

text \<open>From every position of a cursor over the image, the program returns the value.\<close>

definition does :: "bytes \<Rightarrow> 'a io \<Rightarrow> 'a \<Rightarrow> bool" where
  "does img p v \<longleftrightarrow> (\<forall>c. cur_data c = img \<longrightarrow> (\<exists>c'. solo p c = Some (v, c') \<and> cur_data c' = img))"

named_theorems does_intros \<open>what programs do\<close>

lemma cur_data_steps [simp]: "cur_data (seek_start c off) = cur_data c" "cur_data (snd (read_exact c n)) = cur_data c"
  by (simp_all add: seek_start_def read_exact_def Let_def)

lemma solo_bind: "solo (io_bind p f) c = Option.bind (solo p c) (\<lambda>(v, c'). solo (f v) c')"
  by (induction p arbitrary: c) simp_all

lemma does_Ret [does_intros]: "does img (Ret v) v"
  by (simp add: does_def)

lemma does_bind: "does img p v \<Longrightarrow> does img (f v) w \<Longrightarrow> does img (io_bind p f) w"
  by (fastforce simp: does_def solo_bind)

lemma does_then [does_intros]:
  "does img p r \<Longrightarrow> (\<And>v. r = Ok v \<Longrightarrow> does img (f v) (g v)) \<Longrightarrow> does img (io_then p f) (and_then r g)"
  unfolding io_then_def by (rule does_bind, assumption) (cases r; simp add: does_Ret)

lemma does_pure_then [does_intros]:
  "(\<And>v. r = Ok v \<Longrightarrow> does img (f v) (g v)) \<Longrightarrow> does img (pure_then r f) (and_then r g)"
  by (cases r) (simp_all add: pure_then_def does_Ret)

lemma does_if [does_intros]:
  "(b \<Longrightarrow> does img p v) \<Longrightarrow> (\<not> b \<Longrightarrow> does img q w) \<Longrightarrow> does img (if b then p else q) (if b then v else w)"
  by simp

lemma does_option [does_intros]:
  "(x = None \<Longrightarrow> does img p v) \<Longrightarrow> (\<And>y. x = Some y \<Longrightarrow> does img (q y) (w y)) \<Longrightarrow>
     does img (case x of None \<Rightarrow> p | Some y \<Rightarrow> q y) (case x of None \<Rightarrow> v | Some y \<Rightarrow> w y)"
  by (cases x) simp_all

section \<open>Reading\<close>

text \<open>\<^verbatim>\<open>reader.seek(SeekFrom::Start(off))?\<close> and \<^verbatim>\<open>reader.read_exact(&mut buf)?\<close>: two steps.\<close>

definition read_at_io :: "u64 \<Rightarrow> usize \<Rightarrow> bytes res io" where
  "read_at_io off n = Seek off (Read n (\<lambda>r. Ret (case r of Inl k \<Rightarrow> Err (Io k) | Inr b \<Rightarrow> Ok b)))"

lemma read_at_does [does_intros]: "does img (read_at_io off n) (read_at (cursor img) off n)"
proof -
  have "fst (read_exact (seek_start c off) n) = cursor (cur_data c) off n" for c
    by (simp add: read_exact_def seek_start_def cursor_def Let_def)
  then show ?thesis by (auto simp: does_def read_at_io_def read_at_def)
qed

definition read_verified_node_io :: "u64 \<Rightarrow> usize \<Rightarrow> bytes option res io" where
  "read_verified_node_io paddr block_size =
     (case checked_mul paddr (word_of_nat block_size) of
        None \<Rightarrow> Ret (Ok None)
      | Some offset \<Rightarrow>
          io_then (read_at_io offset block_size) (\<lambda>buf.
            let stored = fletcher64_stored buf; computed = fletcher64_checksum buf in
            if stored \<noteq> computed
            then Ret (Err (ChecksumMismatch (case ObjPhys_parse buf of None \<Rightarrow> paddr | Some h \<Rightarrow> o_oid h) stored computed))
            else Ret (Ok (Some buf))))"

lemma read_verified_node_does [does_intros]:
  "does img (read_verified_node_io p bs) (read_verified_node (cursor img) p bs)"
  unfolding read_verified_node_io_def read_verified_node_def Let_def by (intro does_intros)

fun find_leaf_loop_io ::
  "usize \<Rightarrow> BTreeSubtype \<Rightarrow> (bytes \<Rightarrow> ordering) \<Rightarrow> (bytes \<Rightarrow> bytes \<Rightarrow> 's \<Rightarrow> 's) \<Rightarrow> nat \<Rightarrow> u64 set \<Rightarrow> u64 \<Rightarrow> 's \<Rightarrow> 's res io" where
  "find_leaf_loop_io block_size subtype cmp visit 0 visited paddr s = Ret (Err (CycleGuard MAX_BTREE_DEPTH))"
| "find_leaf_loop_io block_size subtype cmp visit (Suc n) visited paddr s =
     (if paddr \<in> visited then Ret (Err (CycleGuard MAX_BTREE_DEPTH))
      else io_then (read_verified_node_io paddr block_size) (\<lambda>node.
        case node of None \<Rightarrow> Ret (Ok s)
        | Some buf \<Rightarrow>
          (case parse_node_header buf of None \<Rightarrow> Ret (Ok s)
           | Some hdr \<Rightarrow>
             if is_leaf hdr then Ret (Ok (visit_all visit (node_entries buf subtype) s))
             else (case branches (node_entries buf subtype) of
                     [] \<Rightarrow> Ret (Ok s)
                   | first # rest \<Rightarrow>
                       find_leaf_loop_io block_size subtype cmp visit n (insert paddr visited)
                         (select_child cmp (snd first) (first # rest)) s))))"

lemma find_leaf_loop_does [does_intros]:
  "does img (find_leaf_loop_io bs st cmp visit n V a s) (find_leaf_loop (cursor img) bs st cmp visit n V a s)"
proof (induction n arbitrary: V a)
  case (Suc n)
  show ?case
    unfolding find_leaf_loop_io.simps find_leaf_loop.simps
    by (intro does_intros) (simp add: Suc does_Ret split: list.split)
qed (simp add: does_Ret)

definition find_leaf_io ::
  "u64 \<Rightarrow> usize \<Rightarrow> BTreeSubtype \<Rightarrow> (bytes \<Rightarrow> ordering) \<Rightarrow> (bytes \<Rightarrow> bytes \<Rightarrow> 's \<Rightarrow> 's) \<Rightarrow> 's \<Rightarrow> 's res io" where
  "find_leaf_io root_paddr block_size subtype cmp visit s =
     find_leaf_loop_io block_size subtype cmp visit MAX_BTREE_DEPTH {} root_paddr s"

definition resolve_io :: "ObjectMap \<Rightarrow> u64 \<Rightarrow> u64 \<Rightarrow> usize \<Rightarrow> OmapEntry res io" where
  "resolve_io om oid xid block_size =
     io_then
       (find_leaf_io (om_tree_oid om) block_size Omap (\<lambda>key. cmp_pair (omap_key key) (oid, xid)) (omap_visit oid xid) None)
       (\<lambda>best. Ret (ok_or best (OmapUnresolved oid xid)))"

lemma resolve_does [does_intros]: "does img (resolve_io om oid xid bs) (resolve (cursor img) om oid xid bs)"
  unfolding resolve_io_def resolve_def find_leaf_io_def find_leaf_def by (intro does_intros)

definition read_virtual_node_io :: "ObjectMap \<Rightarrow> u64 \<Rightarrow> usize \<Rightarrow> u64 \<Rightarrow> bytes res io" where
  "read_virtual_node_io omap xid block_size node_oid =
     io_then (resolve_io omap node_oid xid block_size) (\<lambda>entry.
       io_then (read_at_io (saturating_mul (oe_paddr entry) (word_of_nat block_size)) block_size) (\<lambda>buf.
         let stored = fletcher64_stored buf; computed = fletcher64_checksum buf in
         if stored \<noteq> computed
         then Ret (Err (ChecksumMismatch (case ObjPhys_parse buf of None \<Rightarrow> oe_paddr entry | Some h \<Rightarrow> o_oid h) stored computed))
         else Ret (Ok buf)))"

lemma read_virtual_node_does [does_intros]:
  "does img (read_virtual_node_io om xid bs oid) (read_virtual_node (cursor img) om xid bs oid)"
  unfolding read_virtual_node_io_def read_virtual_node_def Let_def by (intro does_intros)

function descend_virtual_io ::
  "ObjectMap \<Rightarrow> u64 \<Rightarrow> usize \<Rightarrow> u64 option \<Rightarrow> (bytes \<Rightarrow> bytes \<Rightarrow> 's \<Rightarrow> 's) \<Rightarrow> nat \<Rightarrow> u64 \<Rightarrow> u64 set \<Rightarrow> 's \<Rightarrow> ('s \<times> u64 set) res io"
and descend_entries_io ::
  "ObjectMap \<Rightarrow> u64 \<Rightarrow> usize \<Rightarrow> u64 option \<Rightarrow> (bytes \<Rightarrow> bytes \<Rightarrow> 's \<Rightarrow> 's) \<Rightarrow> nat \<Rightarrow> Entry list \<Rightarrow> u64 set \<Rightarrow> 's \<Rightarrow> ('s \<times> u64 set) res io" where
  "descend_virtual_io omap xid block_size target_oid visit depth node_oid visited s =
     (if depth \<ge> MAX_FSTREE_DEPTH then Ret (Err (CycleGuard MAX_FSTREE_DEPTH))
      else if node_oid \<in> visited then Ret (Err (CycleGuard MAX_FSTREE_DEPTH))
      else io_then (read_virtual_node_io omap xid block_size node_oid) (\<lambda>buf.
        case parse_node_header buf of None \<Rightarrow> Ret (Ok (s, insert node_oid visited))
        | Some hdr \<Rightarrow>
            if is_leaf hdr
            then Ret (Ok (visit_all visit (node_entries buf FsTree) s, insert node_oid visited))
            else descend_entries_io omap xid block_size target_oid visit (depth + 1)
                   (node_entries buf FsTree) (insert node_oid visited) s))"
| "descend_entries_io omap xid block_size target_oid visit depth [] visited s = Ret (Ok (s, visited))"
| "descend_entries_io omap xid block_size target_oid visit depth ((key, val) # es) visited s =
     (if (case target_oid of None \<Rightarrow> True
          | Some target \<Rightarrow> child_may_contain_oid (key_oid key) (map_option key_oid (next_key es)) target)
      then io_then (descend_virtual_io omap xid block_size target_oid visit depth (le_u64 val 0) visited s)
             (\<lambda>(s', visited'). descend_entries_io omap xid block_size target_oid visit depth es visited' s')
      else descend_entries_io omap xid block_size target_oid visit depth es visited s)"
  by pat_completeness auto
termination
  by (relation "measures
        [case_sum (\<lambda>(om, x, bs, t, v, d, a, V, s). 64 - d) (\<lambda>(om, x, bs, t, v, d, es, V, s). 64 - d),
         case_sum (\<lambda>_. 0) (\<lambda>(om, x, bs, t, v, d, es, V, s). length es)]")
    (auto simp: MAX_FSTREE_DEPTH_def)

declare descend_virtual_io.simps [simp del]

lemma descend_virtual_does [does_intros]:
  "does img (descend_virtual_io om xid bs t visit d a V s) (descend_virtual (cursor img) om xid bs t visit d a V s)"
  "does img (descend_entries_io om xid bs t visit d es V s) (descend_entries (cursor img) om xid bs t visit d es V s)"
proof (induction om xid bs t visit d a V s and om xid bs t visit d es V s rule: descend_virtual_io_descend_entries_io.induct)
  case (1 om xid bs t visit d a V s)
  then show ?case
    unfolding descend_virtual_io.simps [of om] descend_virtual.simps [of _ om] by (intro does_intros) auto
next
  case (3 om xid bs t visit d key val es V s)
  then show ?case
    unfolding descend_entries_io.simps(2) descend_entries.simps(2) by (intro does_intros) (auto split: prod.split)
qed (simp add: does_Ret)

section \<open>Records and contents\<close>

definition walk_fs_tree_io ::
  "ApfsVolume \<Rightarrow> usize \<Rightarrow> u64 option \<Rightarrow> (bytes \<Rightarrow> bytes \<Rightarrow> 's \<Rightarrow> 's) \<Rightarrow> 's \<Rightarrow> 's res io" where
  "walk_fs_tree_io volume block_size target_oid visit s =
     io_then (read_at_io (saturating_mul (vol_omap_oid volume) (word_of_nat block_size)) block_size) (\<lambda>buf.
       pure_then (ObjectMap_parse buf) (\<lambda>omap.
         io_then (descend_virtual_io omap (vol_xid volume) block_size target_oid visit 0 (vol_root_tree_oid volume) {} s)
           (\<lambda>(s', visited). Ret (Ok s'))))"

definition for_each_fs_record_for_oid_io ::
  "ApfsVolume \<Rightarrow> usize \<Rightarrow> u64 \<Rightarrow> (bytes \<Rightarrow> bytes \<Rightarrow> 's \<Rightarrow> 's) \<Rightarrow> 's \<Rightarrow> 's res io" where
  "for_each_fs_record_for_oid_io volume block_size target_oid visit s =
     walk_fs_tree_io volume block_size (Some target_oid) visit s"

lemma for_each_fs_record_does [does_intros]:
  "does img (for_each_fs_record_for_oid_io v bs oid visit s) (for_each_fs_record_for_oid (cursor img) v bs oid visit s)"
  unfolding for_each_fs_record_for_oid_io_def for_each_fs_record_for_oid_def walk_fs_tree_io_def walk_fs_tree_def
  by (intro does_intros) (simp add: does_Ret split: prod.split)

definition list_dir_io :: "ApfsVolume \<Rightarrow> u64 \<Rightarrow> usize \<Rightarrow> DirEntry list res io" where
  "list_dir_io volume parent_oid block_size =
     for_each_fs_record_for_oid_io volume block_size parent_oid (list_dir_visit parent_oid) []"

definition lookup_child_io :: "ApfsVolume \<Rightarrow> u64 \<Rightarrow> rstring \<Rightarrow> usize \<Rightarrow> u64 option res io" where
  "lookup_child_io volume parent_oid name block_size =
     for_each_fs_record_for_oid_io volume block_size parent_oid (lookup_visit parent_oid name) None"

definition load_inode_io :: "ApfsVolume \<Rightarrow> u64 \<Rightarrow> usize \<Rightarrow> Inode res io" where
  "load_inode_io volume oid block_size =
     io_then (for_each_fs_record_for_oid_io volume block_size oid (inode_visit oid) None) (\<lambda>found.
       pure_then (ok_or found (OmapUnresolved oid (vol_xid volume))) (\<lambda>value. Ret (Inode_parse oid value)))"

definition list_extents_io :: "ApfsVolume \<Rightarrow> u64 \<Rightarrow> usize \<Rightarrow> FileExtent list res io" where
  "list_extents_io volume stream_oid block_size =
     io_then (for_each_fs_record_for_oid_io volume block_size stream_oid (extent_visit stream_oid) [])
       (\<lambda>out. Ret (Ok (sort_key logical_offset out)))"

definition list_xattrs_io :: "ApfsVolume \<Rightarrow> u64 \<Rightarrow> usize \<Rightarrow> Xattr list res io" where
  "list_xattrs_io volume inode_oid block_size =
     for_each_fs_record_for_oid_io volume block_size inode_oid (xattr_visit inode_oid) []"

definition get_xattr_io :: "ApfsVolume \<Rightarrow> u64 \<Rightarrow> rstring \<Rightarrow> usize \<Rightarrow> XattrValue option res io" where
  "get_xattr_io volume inode_oid name block_size =
     io_then (list_xattrs_io volume inode_oid block_size) (\<lambda>xattrs.
       Ret (Ok (map_option xa_value (List.find (\<lambda>x. xa_name x = name) xattrs))))"

lemma listings_do [does_intros]:
  "does img (list_dir_io v oid bs) (list_dir (cursor img) v oid bs)"
  "does img (lookup_child_io v oid name bs) (lookup_child (cursor img) v oid name bs)"
  "does img (load_inode_io v oid bs) (load_inode (cursor img) v oid bs)"
  "does img (list_extents_io v oid bs) (list_extents (cursor img) v oid bs)"
  "does img (list_xattrs_io v oid bs) (list_xattrs (cursor img) v oid bs)"
  "does img (get_xattr_io v oid name bs) (get_xattr (cursor img) v oid name bs)"
  unfolding list_dir_io_def list_dir_def lookup_child_io_def lookup_child_def load_inode_io_def load_inode_def
    list_extents_io_def list_extents_def get_xattr_io_def get_xattr_def list_xattrs_io_def list_xattrs_def
  by (intro does_intros)+

definition copy_extent_io :: "usize \<Rightarrow> usize \<Rightarrow> FileExtent \<Rightarrow> bytes \<Rightarrow> bytes res io" where
  "copy_extent_io block_size sz ext out =
     (let start = unat (logical_offset ext) in
      if start \<ge> sz \<or> phys_block_num ext = 0 then Ret (Ok out)
      else let avail = sz - start; copy_len = min (unat (ext_len ext)) avail in
        pure_then (div_u64 0xffffffffffffffff (word_of_nat block_size)) (\<lambda>cap.
          pure_then (ok_or (checked_mul (phys_block_num ext) (word_of_nat block_size))
                     (FieldOutOfRange ''j_file_extent'' ''phys_block_num'' (phys_block_num ext) cap)) (\<lambda>byte_off.
            io_then (read_at_io byte_off copy_len) (\<lambda>b.
              Ret (Ok (take start out @ b @ drop (start + copy_len) out))))))"

fun copy_extents_io :: "usize \<Rightarrow> usize \<Rightarrow> FileExtent list \<Rightarrow> bytes \<Rightarrow> bytes res io" where
  "copy_extents_io block_size sz [] out = Ret (Ok out)"
| "copy_extents_io block_size sz (ext # es) out =
     io_then (copy_extent_io block_size sz ext out) (copy_extents_io block_size sz es)"

definition read_stream_io :: "ApfsVolume \<Rightarrow> u64 \<Rightarrow> u64 \<Rightarrow> usize \<Rightarrow> bytes res io" where
  "read_stream_io volume stream_oid logical_size block_size =
     (if logical_size > MAX_FILE_BYTES
      then Ret (Err (FieldOutOfRange ''j_dstream'' ''size'' logical_size MAX_FILE_BYTES))
      else io_then (list_extents_io volume stream_oid block_size) (\<lambda>extents.
        copy_extents_io block_size (unat logical_size) extents (replicate (unat logical_size) 0)))"

lemma copy_extent_does [does_intros]: "does img (copy_extent_io bs sz e out) (copy_extent (cursor img) bs sz e out)"
  unfolding copy_extent_io_def copy_extent_def Let_def by (intro does_intros)

lemma copy_extents_does [does_intros]: "does img (copy_extents_io bs sz es out) (copy_extents (cursor img) bs sz es out)"
proof (induction es arbitrary: out)
  case (Cons e es)
  then show ?case unfolding copy_extents_io.simps copy_extents.simps by (intro does_intros)
qed (simp add: does_Ret)

lemma read_stream_does [does_intros]: "does img (read_stream_io v oid sz bs) (read_stream (cursor img) v oid sz bs)"
  unfolding read_stream_io_def read_stream_def by (intro does_intros)

definition decmpfs_header_io :: "ApfsVolume \<Rightarrow> u64 \<Rightarrow> usize \<Rightarrow> bytes option res io" where
  "decmpfs_header_io volume inode_oid block_size =
     io_then (get_xattr_io volume inode_oid XATTR_NAME_DECMPFS block_size) (\<lambda>x.
       case x of
         Some (Embedded bytes) \<Rightarrow> Ret (Ok (Some bytes))
       | Some (Stream oid sz) \<Rightarrow>
           if sz > MAX_DECMPFS_XATTR_BYTES
           then Ret (Err (FieldOutOfRange ''com.apple.decmpfs j_xattr_dstream'' ''size'' sz MAX_DECMPFS_XATTR_BYTES))
           else io_then (read_stream_io volume oid sz block_size) (\<lambda>bytes. Ret (Ok (Some bytes)))
       | None \<Rightarrow> Ret (Ok None))"

definition resource_fork_io :: "ApfsVolume \<Rightarrow> u64 \<Rightarrow> usize \<Rightarrow> bytes option res io" where
  "resource_fork_io volume inode_oid block_size =
     io_then (get_xattr_io volume inode_oid XATTR_NAME_RESOURCE_FORK block_size) (\<lambda>x.
       case x of
         Some (Embedded bytes) \<Rightarrow> Ret (Ok (Some bytes))
       | Some (Stream oid sz) \<Rightarrow>
           io_then (read_stream_io volume oid sz block_size) (\<lambda>bytes. Ret (Ok (Some bytes)))
       | None \<Rightarrow> Ret (Ok None))"

lemma does_xattr_value [does_intros]:
  "(\<And>b. does img (p b) (u b)) \<Longrightarrow> (\<And>oid sz. does img (q oid sz) (w oid sz)) \<Longrightarrow>
     does img (case x of Embedded b \<Rightarrow> p b | Stream oid sz \<Rightarrow> q oid sz) (case x of Embedded b \<Rightarrow> u b | Stream oid sz \<Rightarrow> w oid sz)"
  by (cases x) simp_all

lemma attributes_do [does_intros]:
  "does img (decmpfs_header_io v oid bs) (decmpfs_header (cursor img) v oid bs)"
  "does img (resource_fork_io v oid bs) (resource_fork (cursor img) v oid bs)"
  unfolding decmpfs_header_io_def decmpfs_header_def resource_fork_io_def resource_fork_def
  by (intro does_intros)+

definition read_compressed_io :: "Codecs \<Rightarrow> ApfsVolume \<Rightarrow> Inode \<Rightarrow> bytes \<Rightarrow> usize \<Rightarrow> bytes res io" where
  "read_compressed_io cs volume inode header block_size =
     pure_then (decmpfs_le_u32 header COMPRESSION_TYPE_OFFSET) (\<lambda>ty.
       let needs_fork = (case classify ty of None \<Rightarrow> False | Some c \<Rightarrow> storage c = ResourceFork) in
       io_then (if needs_fork then resource_fork_io volume (ino_oid inode) block_size else Ret (Ok None)) (\<lambda>fork.
         Ret (decompress_decmpfs cs header fork)))"

definition read_data_io :: "Codecs \<Rightarrow> ApfsVolume \<Rightarrow> Inode \<Rightarrow> usize \<Rightarrow> bytes res io" where
  "read_data_io cs volume inode block_size =
     io_then (decmpfs_header_io volume (ino_oid inode) block_size) (\<lambda>h.
       case h of
         Some header \<Rightarrow> read_compressed_io cs volume inode header block_size
       | None \<Rightarrow>
           read_stream_io volume (ino_private_id inode) (case ino_size inode of Some sz \<Rightarrow> sz | None \<Rightarrow> 0) block_size)"

definition data_size_io :: "ApfsVolume \<Rightarrow> Inode \<Rightarrow> usize \<Rightarrow> u64 res io" where
  "data_size_io volume inode block_size =
     io_then (decmpfs_header_io volume (ino_oid inode) block_size) (\<lambda>h.
       case h of Some header \<Rightarrow> Ret (uncompressed_size header)
       | None \<Rightarrow> Ret (Ok (case ino_size inode of Some sz \<Rightarrow> sz | None \<Rightarrow> 0)))"

lemma contents_do [does_intros]:
  "does img (read_data_io cs v inode bs) (read_data cs (cursor img) v inode bs)"
  "does img (data_size_io v inode bs) (data_size (cursor img) v inode bs)"
  unfolding read_data_io_def read_data_def read_compressed_io_def read_compressed_def Let_def data_size_io_def data_size_def
  by (intro does_intros)+

section \<open>The calls of the adapter\<close>

text \<open>
  \<^verbatim>\<open>let mut guard = self.reader.lock().map_err(|_| poisoned())?\<close> and the rest of the function body, at the end
  of which the guard is dropped: a poisoned lock is given back at once.
\<close>

definition locked_io :: "('a, 'o) vres io \<Rightarrow> ('a, 'o) vres io" where
  "locked_io body = Lock (\<lambda>is_poisoned.
     if is_poisoned then Unlock False (Ret (VErr poisoned))
     else io_bind body (\<lambda>r. Unlock (case r of VPanic \<Rightarrow> True | _ \<Rightarrow> False) (Ret r)))"

text \<open>The checks in front of the lock.\<close>

definition checked_io :: "('a, 'o) vres \<Rightarrow> ('a \<Rightarrow> ('b, 'o) vres io) \<Rightarrow> ('b, 'o) vres io" where
  "checked_io r f = (case r of VOk x \<Rightarrow> f x | VErr e \<Rightarrow> Ret (VErr e) | VPanic \<Rightarrow> Ret VPanic)"

text \<open>\<^verbatim>\<open>call(...).map_err(map_err)?\<close>\<close>

definition mapped_io :: "'a res io \<Rightarrow> ('a \<Rightarrow> ('b, 'o) vres io) \<Rightarrow> ('b, 'o) vres io" where
  "mapped_io p f = io_bind p (\<lambda>r. checked_io (lift_res r) f)"

lemma does_mapped [does_intros]:
  "does img p r \<Longrightarrow> (\<And>v. r = Ok v \<Longrightarrow> does img (f v) (g v)) \<Longrightarrow> does img (mapped_io p f) (v_then (lift_res r) g)"
  unfolding mapped_io_def by (rule does_bind, assumption) (cases r; simp add: does_Ret lift_res_def checked_io_def)

definition read_dir_io :: "ApfsFs \<Rightarrow> 'o FileId \<Rightarrow> ('o VfsDirEntry list, 'o) vres io" where
  "read_dir_io fs ino =
     checked_io (oid_of ino) (\<lambda>parent.
       locked_io (mapped_io (list_dir_io (fs_volume fs) parent (fs_block_size fs)) (\<lambda>entries.
         Ret (VOk (map (\<lambda>e. \<lparr>vde_kind = dt_to_kind (de_flags e), vde_name = de_name e,
                             vde_id = ApfsOid (de_file_id e) (fs_root_xid fs)\<rparr>) entries)))))"

definition extents_io :: "ApfsFs \<Rightarrow> 'o FileId \<Rightarrow> 'o StreamId \<Rightarrow> (RunInfo list, 'o) vres io" where
  "extents_io fs ino stream =
     checked_io (oid_of ino) (\<lambda>node.
       checked_io (require_default_stream stream) (\<lambda>_.
         let bs = fs_block_size fs in
         locked_io (mapped_io (load_inode_io (fs_volume fs) node bs) (\<lambda>inode.
           mapped_io (list_extents_io (fs_volume fs) (ino_private_id inode) bs) (\<lambda>exts.
             Ret (VOk (map (\<lambda>x. \<lparr>run_image_offset = saturating_mul (phys_block_num x) (word_of_nat bs),
                                 run_len = ext_len x, run_sparse = (phys_block_num x = 0),
                                 run_allocated = True\<rparr>) exts)))))))"

definition lookup_io :: "ApfsFs \<Rightarrow> 'o FileId \<Rightarrow> bytes \<Rightarrow> ('o FileId option, 'o) vres io" where
  "lookup_io fs parent name =
     checked_io (oid_of parent) (\<lambda>p.
       if \<not> valid_utf8 name then Ret (VOk None)
       else locked_io (mapped_io (lookup_child_io (fs_volume fs) p name (fs_block_size fs)) (\<lambda>found.
         Ret (VOk (map_option (\<lambda>oid. ApfsOid oid (fs_root_xid fs)) found)))))"

definition meta_io :: "ApfsFs \<Rightarrow> 'o FileId \<Rightarrow> (FsMeta, 'o) vres io" where
  "meta_io fs ino =
     checked_io (oid_of ino) (\<lambda>node.
       locked_io (mapped_io (load_inode_io (fs_volume fs) node (fs_block_size fs)) (\<lambda>inode.
         mapped_io (data_size_io (fs_volume fs) inode (fs_block_size fs)) (\<lambda>sz.
           Ret (VOk (build_meta inode sz))))))"

definition vfs_read_at_io ::
  "Codecs \<Rightarrow> ApfsFs \<Rightarrow> 'o FileId \<Rightarrow> 'o StreamId \<Rightarrow> u64 \<Rightarrow> bytes \<Rightarrow> (usize \<times> bytes, 'o) vres io" where
  "vfs_read_at_io cs fs ino stream off buf =
     checked_io (oid_of ino) (\<lambda>node.
       checked_io (require_default_stream stream) (\<lambda>_.
         let bs = fs_block_size fs in
         locked_io (mapped_io (load_inode_io (fs_volume fs) node bs) (\<lambda>inode.
           mapped_io (read_data_io cs (fs_volume fs) inode bs) (\<lambda>data.
             Ret (copy_window data off buf))))))"

section \<open>One critical section per call\<close>

text \<open>
  A program inside its critical section, at a position of the cursor: alone on the cursor it goes on to
  drop the guard, with the lock not poisoned, and to return the value.
\<close>

primrec guarded :: "'a io \<Rightarrow> Cursor \<Rightarrow> 'a \<Rightarrow> bool" where
  "guarded (Ret w) c v = False"
| "guarded (Seek off p) c v = guarded p (seek_start c off) v"
| "guarded (Read n k) c v = guarded (k (fst (read_exact c n))) (snd (read_exact c n)) v"
| "guarded (Lock k) c v = False"
| "guarded (Unlock b p) c v = (\<not> b \<and> p = Ret v)"

text \<open>A program outside: it has returned, or it asks for the lock and is guarded wherever the cursor then is.\<close>

definition outside :: "bytes \<Rightarrow> 'a \<Rightarrow> 'a io \<Rightarrow> bool" where
  "outside img v p \<longleftrightarrow> p = Ret v \<or> (\<exists>k. p = Lock k \<and> (\<forall>c. cur_data c = img \<longrightarrow> guarded (k False) c v))"

lemma guarded_bind: "solo p c = Some (v, c') \<Longrightarrow> guarded (io_bind p f) c w = guarded (f v) c' w"
  by (induction p arbitrary: c) simp_all

lemma io_bind_assoc: "io_bind (io_bind p f) g = io_bind p (\<lambda>v. io_bind (f v) g)"
  by (induction p) simp_all

lemma outside_checked:
  assumes "quiet (fst (checked fs r f))"
    and "\<And>x. r = VOk x \<Longrightarrow> quiet (fst (f x)) \<Longrightarrow> outside img (h (fst (f x))) (io_bind (g x) (\<lambda>r. Ret (h r)))"
  shows "outside img (h (fst (checked fs r f))) (io_bind (checked_io r g) (\<lambda>r. Ret (h r)))"
  using assms by (cases r) (simp_all add: checked_def checked_io_def outside_def)

lemma outside_locked:
  assumes "quiet (fst (locked fs v))" and "\<not> fs_poisoned fs" and "does img body v"
  shows "outside img (h (fst (locked fs v))) (io_bind (locked_io body) (\<lambda>r. Ret (h r)))"
proof -
  have v: "fst (locked fs v) = v" using assms(2) by (cases v) (simp_all add: locked_def)
  then have "v \<noteq> VPanic" using assms(1) by (simp add: quiet_def)
  then have "guarded (io_bind body (\<lambda>r. Unlock (case r of VPanic \<Rightarrow> True | _ \<Rightarrow> False) (Ret (h r)))) c (h v)"
    if "cur_data c = img" for c
    using assms(3) that guarded_bind [of body c v] by (cases v) (fastforce simp: does_def)+
  then show ?thesis unfolding v by (simp add: outside_def locked_io_def io_bind_assoc)
qed

end
