(* ===== verification/Workers.thy ===== *)
theory Workers
  imports Io_Programs
begin

text \<open>
  One mounted handle of \<^verbatim>\<open>src/src/vfs.rs\<close> shared by any number of workers. Each worker runs the programs of
  its calls (\<open>Io_Programs\<close>) step by step on the shared cursor and lock, and the steps of the workers
  interleave in any order: between a seek and the read after it another worker may move the cursor,
  unless the lock keeps it out. The lemmas show that it does, that every reply is the one the call
  would get alone, and that no schedule blocks or runs on.
\<close>

section \<open>The machine\<close>

record ('c, 'r) worker =
  w_todo :: "'c list"             \<comment> \<open>its calls, the current one first\<close>
  w_now :: "'r io option"         \<comment> \<open>what is left of the current call\<close>
  w_replies :: "'r list"

record ('c, 'r) system =
  sys_cursor :: Cursor
  sys_holder :: "nat option"      \<comment> \<open>the worker that holds the lock\<close>
  sys_poisoned :: bool
  sys_workers :: "('c, 'r) worker list"

definition start :: "Cursor \<Rightarrow> bool \<Rightarrow> 'c list list \<Rightarrow> ('c, 'r) system" where
  "start cur pois calls = \<lparr>sys_cursor = cur, sys_holder = None, sys_poisoned = pois,
     sys_workers = map (\<lambda>cs. \<lparr>w_todo = cs, w_now = None, w_replies = []\<rparr>) calls\<rparr>"

definition goes_on :: "nat \<Rightarrow> 'r io option \<Rightarrow> ('c, 'r) system \<Rightarrow> ('c, 'r) system" where
  "goes_on i p s = s\<lparr>sys_workers := (sys_workers s)[i := (sys_workers s ! i)\<lparr>w_now := p\<rparr>]\<rparr>"

definition answered :: "nat \<Rightarrow> 'r \<Rightarrow> ('c, 'r) system \<Rightarrow> ('c, 'r) system" where
  "answered i r s = s\<lparr>sys_workers := (sys_workers s)[i := \<lparr>w_todo = tl (w_todo (sys_workers s ! i)), w_now = None,
     w_replies = w_replies (sys_workers s ! i) @ [r]\<rparr>]\<rparr>"

definition current :: "('c, 'r) system \<Rightarrow> nat \<Rightarrow> 'r io \<Rightarrow> bool" where
  "current s i p \<longleftrightarrow> i < length (sys_workers s) \<and> w_now (sys_workers s ! i) = Some p"

text \<open>
  One operation of one worker. A seek or a read acts on the cursor whoever makes it; the lock is given
  to one worker at a time, and only its holder gives it back.
\<close>

inductive step :: "('c \<Rightarrow> 'r io) \<Rightarrow> ('c, 'r) system \<Rightarrow> ('c, 'r) system \<Rightarrow> bool" for prog :: "'c \<Rightarrow> 'r io" where
  begins: "i < length (sys_workers s) \<Longrightarrow> w_now (sys_workers s ! i) = None \<Longrightarrow> w_todo (sys_workers s ! i) = c # rest \<Longrightarrow>
    step prog s (goes_on i (Some (prog c)) s)"
| seeks: "current s i (Seek off p) \<Longrightarrow>
    step prog s (goes_on i (Some p) (s\<lparr>sys_cursor := seek_start (sys_cursor s) off\<rparr>))"
| reads: "current s i (Read n k) \<Longrightarrow> read_exact (sys_cursor s) n = (r, cur) \<Longrightarrow>
    step prog s (goes_on i (Some (k r)) (s\<lparr>sys_cursor := cur\<rparr>))"
| locks: "current s i (Lock k) \<Longrightarrow> sys_holder s = None \<Longrightarrow>
    step prog s (goes_on i (Some (k (sys_poisoned s))) (s\<lparr>sys_holder := Some i\<rparr>))"
| unlocks: "current s i (Unlock b p) \<Longrightarrow> sys_holder s = Some i \<Longrightarrow>
    step prog s (goes_on i (Some p) (s\<lparr>sys_holder := None, sys_poisoned := (sys_poisoned s \<or> b)\<rparr>))"
| replies: "current s i (Ret r) \<Longrightarrow> step prog s (answered i r s)"

inductive reach :: "('c \<Rightarrow> 'r io) \<Rightarrow> ('c, 'r) system \<Rightarrow> ('c, 'r) system \<Rightarrow> bool" for prog :: "'c \<Rightarrow> 'r io" and s0 :: "('c, 'r) system" where
  reach_0: "reach prog s0 s0"
| reach_Suc: "reach prog s0 s \<Longrightarrow> step prog s s' \<Longrightarrow> reach prog s0 s'"

lemma reach_first: "step prog s s' \<Longrightarrow> reach prog s' t \<Longrightarrow> reach prog s t"
proof (rotate_tac, induction rule: reach.induct)
  case reach_0
  then show ?case by (blast intro: reach.intros)
next
  case (reach_Suc t t')
  then show ?case by (blast intro: reach.intros)
qed

text \<open>
  The lock is what keeps calls apart: two workers that seek and read a byte each without it can
  reach a state in which the first one has read the other one's byte.
\<close>

lemma race_without_lock:
  "\<exists>s. reach (\<lambda>off. read_at_io off 1) (start \<lparr>cur_data = [10, 20], cur_pos = 0\<rparr> False [[0], [1]]) s \<and>
     w_replies (sys_workers s ! 0) = [Ok [20]]"
proof -
  let ?prog = "\<lambda>off. read_at_io off 1" and ?s0 = "start \<lparr>cur_data = [10, 20], cur_pos = 0\<rparr> False [[0], [1]] :: (u64, bytes res) system"
  let ?k = "\<lambda>r. Ret (case r of Inl k \<Rightarrow> Err (Io k) | Inr b \<Rightarrow> Ok b)"
  define s2 where "s2 = goes_on 1 (Some (read_at_io 1 1)) (goes_on 0 (Some (read_at_io 0 1)) ?s0)"
  define s3 where "s3 = goes_on 0 (Some (Read 1 ?k)) (s2\<lparr>sys_cursor := seek_start (sys_cursor s2) 0\<rparr>)"
  define s4 where "s4 = goes_on 1 (Some (Read 1 ?k)) (s3\<lparr>sys_cursor := seek_start (sys_cursor s3) 1\<rparr>)"
  note states = s2_def s3_def s4_def current_def start_def goes_on_def answered_def read_at_io_def seek_start_def read_exact_def Let_def
  have "reach ?prog ?s0 s2"
    unfolding s2_def
    by (rule reach_Suc [OF reach_Suc [OF reach_0 begins] begins]) (simp_all add: start_def goes_on_def)
  then have "reach ?prog ?s0 s3"
    unfolding s3_def by (rule reach_Suc [OF _ seeks]) (simp add: states)
  then have "reach ?prog ?s0 s4"
    unfolding s4_def by (rule reach_Suc [OF _ seeks]) (simp add: states)
  then have "reach ?prog ?s0 (goes_on 0 (Some (?k (Inr [20]))) (s4\<lparr>sys_cursor := \<lparr>cur_data = [10, 20], cur_pos = 2\<rparr>\<rparr>))" (is "reach _ _ ?s5")
    by (rule reach_Suc [OF _ reads [where n = 1]]) (simp_all add: states)
  then have "reach ?prog ?s0 (answered 0 (Ok [20]) ?s5)"
    by (rule reach_Suc [OF _ replies]) (simp add: states)
  moreover have "w_replies (sys_workers (answered 0 (Ok [20]) ?s5) ! 0) = [Ok [20]]" by (simp add: states)
  ultimately show ?thesis by blast
qed

section \<open>No schedule runs on\<close>

text \<open>A worker's rest: the calls it has left, whether the current one has begun, the rest of its program.\<close>

inductive smaller :: "'a io \<Rightarrow> 'a io \<Rightarrow> bool" where
  "smaller p (Seek off p)"
| "smaller (k r) (Read n k)"
| "smaller (k b) (Lock k)"
| "smaller p (Unlock b p)"

inductive_cases smallerE: "smaller q (Ret v)" "smaller q (Seek off p)" "smaller q (Read n k)" "smaller q (Lock k)"
  "smaller q (Unlock b p)"

lemma wf_smaller: "wf {(q, p). smaller q p}"
proof (rule wfUNIVI)
  fix P :: "'a io \<Rightarrow> bool" and p
  assume "\<forall>p. (\<forall>q. (q, p) \<in> {(q, p). smaller q p} \<longrightarrow> P q) \<longrightarrow> P p"
  then have step: "(\<And>q. smaller q p \<Longrightarrow> P q) \<Longrightarrow> P p" for p by blast
  show "P p" by (induction p) (blast intro: step elim: smallerE)+
qed

definition rest_of :: "('c, 'r) worker \<Rightarrow> nat \<times> nat \<times> 'r io" where
  "rest_of w = (length (w_todo w), case w_now w of None \<Rightarrow> (1, Ret undefined) | Some p \<Rightarrow> (0, p))"

definition less_left :: "(('c, 'r) worker \<times> ('c, 'r) worker) set" where
  "less_left = inv_image (less_than <*lex*> less_than <*lex*> {(q, p). smaller q p}) rest_of"

lemma wf_less_left: "wf less_left"
  unfolding less_left_def by (intro wf_inv_image wf_lex_prod wf_less_than wf_smaller)

lemma listrel1_update: "i < length ws \<Longrightarrow> (w, ws ! i) \<in> R \<Longrightarrow> (ws[i := w], ws) \<in> listrel1 R"
  by (rule listrel1I [of w "ws ! i" R _ "take i ws" "drop (Suc i) ws"]) (simp_all add: upd_conv_take_nth_drop id_take_nth_drop)

lemma wf_left: "wf (listrel1 less_left)"
  using wf_less_left by (simp add: wf_listrel1_iff)

lemma step_less:
  assumes "step prog s s'" and "\<And>i. i < length (sys_workers s) \<Longrightarrow> w_now (sys_workers s ! i) \<noteq> None \<Longrightarrow> w_todo (sys_workers s ! i) \<noteq> []"
  shows "(sys_workers s', sys_workers s) \<in> listrel1 less_left"
  using assms
  by (cases rule: step.cases)
    (auto simp: goes_on_def answered_def current_def less_left_def rest_of_def intro!: listrel1_update intro: smaller.intros)

section \<open>The invariant of a shared handle\<close>

text \<open>
  A worker has the replies to the calls it has made. Its current call is inside its critical section
  exactly when it holds the lock; otherwise the call does not depend on where the cursor is.
\<close>

definition worker_ok :: "bytes \<Rightarrow> ('c \<Rightarrow> 'r) \<Rightarrow> Cursor \<Rightarrow> bool \<Rightarrow> 'c list \<Rightarrow> ('c, 'r) worker \<Rightarrow> bool" where
  "worker_ok img reply cur holds calls w \<longleftrightarrow> w_replies w @ map reply (w_todo w) = map reply calls \<and>
     (case w_now w of None \<Rightarrow> \<not> holds
      | Some p \<Rightarrow> w_todo w \<noteq> [] \<and>
          (if holds then guarded p cur (reply (hd (w_todo w))) else outside img (reply (hd (w_todo w))) p))"

definition shared_ok :: "bytes \<Rightarrow> ('c \<Rightarrow> 'r) \<Rightarrow> 'c list list \<Rightarrow> ('c, 'r) system \<Rightarrow> bool" where
  "shared_ok img reply calls s \<longleftrightarrow> cur_data (sys_cursor s) = img \<and> \<not> sys_poisoned s \<and>
     length (sys_workers s) = length calls \<and> (\<forall>i. sys_holder s = Some i \<longrightarrow> i < length calls) \<and>
     (\<forall>i < length calls. worker_ok img reply (sys_cursor s) (sys_holder s = Some i) (calls ! i) (sys_workers s ! i))"

lemma shared_okD:
  assumes "shared_ok img reply calls s" and "current s i p"
  shows "if sys_holder s = Some i then guarded p (sys_cursor s) (reply (hd (w_todo (sys_workers s ! i))))
    else outside img (reply (hd (w_todo (sys_workers s ! i)))) p"
    and "w_todo (sys_workers s ! i) \<noteq> []" and "i < length calls"
  using assms by (auto simp: shared_ok_def worker_ok_def current_def split: option.splits)

text \<open>Only the holder of the lock touches the cursor.\<close>

lemma reader_holds:
  assumes "shared_ok img reply calls s" and "current s i p" and "\<exists>off q n k. p = Seek off q \<or> p = Read n k"
  shows "sys_holder s = Some i"
  using shared_okD(1) [OF assms(1,2)] assms(3) by (auto simp: outside_def split: if_splits)

text \<open>One worker moves: it stays in order, and so do the others, for whom only the holder matters.\<close>

definition others_kept :: "nat \<Rightarrow> ('c, 'r) system \<Rightarrow> ('c, 'r) system \<Rightarrow> bool" where
  "others_kept i s t \<longleftrightarrow> sys_holder t = sys_holder s \<and> sys_holder s = Some i \<or>
     sys_cursor t = sys_cursor s \<and> (\<forall>j. j \<noteq> i \<longrightarrow> (sys_holder t = Some j) = (sys_holder s = Some j))"

lemma shared_ok_move:
  assumes ok: "shared_ok img reply calls s" and i: "i < length calls" and kept: "others_kept i s t"
    and t: "sys_workers t = (sys_workers s)[i := w]" "cur_data (sys_cursor t) = img" "\<not> sys_poisoned t"
    and w: "worker_ok img reply (sys_cursor t) (sys_holder t = Some i) (calls ! i) w"
  shows "shared_ok img reply calls t"
proof -
  have "worker_ok img reply (sys_cursor t) (sys_holder t = Some j) (calls ! j) (sys_workers s ! j)"
    if j: "j < length calls" "j \<noteq> i" for j
  proof -
    have old: "worker_ok img reply (sys_cursor s) (sys_holder s = Some j) (calls ! j) (sys_workers s ! j)"
      using ok j(1) by (simp add: shared_ok_def)
    show ?thesis
    proof (cases "sys_cursor t = sys_cursor s \<and> (\<forall>j. j \<noteq> i \<longrightarrow> (sys_holder t = Some j) = (sys_holder s = Some j))")
      case True
      then show ?thesis using old j(2) by simp
    next
      case False
      then have "sys_holder s = Some i" "sys_holder t = Some i" using kept by (auto simp: others_kept_def)
      then show ?thesis using old j(2) by (auto simp: worker_ok_def split: option.splits)
    qed
  qed
  moreover have "\<forall>j. sys_holder t = Some j \<longrightarrow> j < length calls"
    using kept ok i by (auto simp: others_kept_def shared_ok_def)
  ultimately show ?thesis
    using ok i t w by (auto simp: shared_ok_def nth_list_update)
qed

lemma shared_ok_goes_on:
  assumes ok: "shared_ok img reply calls s" and "i < length calls" and "others_kept i s t"
    and "sys_workers t = sys_workers s" and "cur_data (sys_cursor t) = img" and "\<not> sys_poisoned t"
    and "w_todo (sys_workers s ! i) \<noteq> []"
    and "if sys_holder t = Some i then guarded p (sys_cursor t) (reply (hd (w_todo (sys_workers s ! i))))
      else outside img (reply (hd (w_todo (sys_workers s ! i)))) p"
  shows "shared_ok img reply calls (goes_on i (Some p) t)"
proof (rule shared_ok_move [OF ok assms(2), where w = "(sys_workers s ! i)\<lparr>w_now := Some p\<rparr>"])
  have "w_replies (sys_workers s ! i) @ map reply (w_todo (sys_workers s ! i)) = map reply (calls ! i)"
    using ok assms(2) by (simp add: shared_ok_def worker_ok_def)
  then show "worker_ok img reply (sys_cursor (goes_on i (Some p) t)) (sys_holder (goes_on i (Some p) t) = Some i) (calls ! i)
      ((sys_workers s ! i)\<lparr>w_now := Some p\<rparr>)"
    using assms(7,8) by (simp add: worker_ok_def goes_on_def)
qed (use assms(3-6) in \<open>simp_all add: goes_on_def others_kept_def\<close>)

text \<open>What the workers rely on: a call is one critical section, and its reply does not depend on where the cursor was.\<close>

locale one_section =
  fixes prog :: "'h \<Rightarrow> 'c \<Rightarrow> 'r io" and reply :: "'h \<Rightarrow> 'c \<Rightarrow> 'r" and img :: bytes and good :: "'h \<Rightarrow> bool"
  assumes one: "good h \<Longrightarrow> outside img (reply h c) (prog h c)"
begin

lemma shared_ok_step:
  assumes "step (prog h) s s'" and ok: "shared_ok img (reply h) calls s" and "good h"
  shows "shared_ok img (reply h) calls s'"
  using assms(1)
proof (cases rule: step.cases)
  case (begins i c rest)
  then have i: "i < length calls" and "sys_holder s \<noteq> Some i"
    using ok by (auto simp: shared_ok_def worker_ok_def split: option.splits)
  then show ?thesis
    unfolding begins(1) using begins ok one [OF assms(3)]
    by (intro shared_ok_goes_on [OF ok i]) (auto simp: others_kept_def shared_ok_def)
next
  case (seeks i off p)
  note d = shared_okD [OF ok seeks(2)] and h = reader_holds [OF ok seeks(2)]
  show ?thesis
    unfolding seeks(1) using d h ok by (intro shared_ok_goes_on [OF ok d(3)]) (auto simp: others_kept_def shared_ok_def)
next
  case (reads i n k r cur)
  note d = shared_okD [OF ok reads(2)] and h = reader_holds [OF ok reads(2)]
  have "r = fst (read_exact (sys_cursor s) n)" "cur = snd (read_exact (sys_cursor s) n)" using reads(3) by simp_all
  then show ?thesis
    unfolding reads(1) using d h ok by (intro shared_ok_goes_on [OF ok d(3)]) (auto simp: others_kept_def shared_ok_def)
next
  case (locks i k)
  note d = shared_okD [OF ok locks(2)]
  show ?thesis
    unfolding locks(1) using d ok locks(3)
    by (intro shared_ok_goes_on [OF ok d(3)]) (auto simp: others_kept_def shared_ok_def outside_def)
next
  case (unlocks i b p)
  note d = shared_okD [OF ok unlocks(2)]
  show ?thesis
    unfolding unlocks(1) using d ok unlocks(3)
    by (intro shared_ok_goes_on [OF ok d(3)]) (auto simp: others_kept_def shared_ok_def outside_def)
next
  case (replies i r)
  note d = shared_okD [OF ok replies(2)]
  have free: "sys_holder s \<noteq> Some i" and r: "r = reply h (hd (w_todo (sys_workers s ! i)))"
    using d(1) by (auto simp: outside_def split: if_splits)
  have "w_replies (sys_workers s ! i) @ map (reply h) (w_todo (sys_workers s ! i)) = map (reply h) (calls ! i)"
    using ok d(3) by (simp add: shared_ok_def worker_ok_def)
  then have "worker_ok img (reply h) cur False (calls ! i)
      \<lparr>w_todo = tl (w_todo (sys_workers s ! i)), w_now = None, w_replies = w_replies (sys_workers s ! i) @ [r]\<rparr>" for cur
    using d(2) by (cases "w_todo (sys_workers s ! i)") (simp_all add: worker_ok_def r)
  then show ?thesis
    unfolding replies(1) using ok free
    by (intro shared_ok_move [OF ok d(3)]) (auto simp: answered_def others_kept_def shared_ok_def)
qed

lemma shared_ok_start: "cur_data cur = img \<Longrightarrow> shared_ok img (reply h) calls (start cur False calls)"
  by (simp add: shared_ok_def start_def worker_ok_def)

lemma shared_ok_reach:
  assumes "reach (prog h) (start cur False calls) s" and "good h" and "cur_data cur = img"
  shows "shared_ok img (reply h) calls s"
  using assms(1)
proof (induction rule: reach.induct)
  case reach_0
  show ?case using assms(3) by (rule shared_ok_start)
next
  case (reach_Suc s s')
  show ?case by (rule shared_ok_step [OF reach_Suc.hyps(2) reach_Suc.IH assms(2)])
qed

text \<open>No deadlock: while a call is left, some worker can move.\<close>

lemma step_possible:
  assumes ok: "shared_ok img (reply h) calls s" and "i < length calls" and "w_todo (sys_workers s ! i) \<noteq> []"
  shows "\<exists>s'. step (prog h) s s'"
proof (cases "sys_holder s")
  case (Some j)
  then obtain p where p: "current s j p" "guarded p (sys_cursor s) (reply h (hd (w_todo (sys_workers s ! j))))"
    using ok by (auto simp: shared_ok_def worker_ok_def current_def split: option.splits)
  then show ?thesis using Some by (cases p) (auto intro: step.intros prod.collapse [symmetric])
next
  case None
  have i: "i < length (sys_workers s)" using ok assms(2) by (simp add: shared_ok_def)
  show ?thesis
  proof (cases "w_now (sys_workers s ! i)")
    case None
    then show ?thesis using begins [OF i None] assms(3) by (auto simp: neq_Nil_conv)
  next
    case (Some p)
    then have cur: "current s i p" using i by (simp add: current_def)
    then consider r where "p = Ret r" | k where "p = Lock k"
      using shared_okD(1) [OF ok cur] \<open>sys_holder s = None\<close> by (auto simp: outside_def)
    then show ?thesis using cur \<open>sys_holder s = None\<close> by cases (auto intro: step.intros)
  qed
qed

lemma interleaved:
  assumes "reach (prog h) (start cur False calls) s" and "good h" and "cur_data cur = img" and "i < length calls"
  shows "w_replies (sys_workers s ! i) = map (reply h) (take (length (w_replies (sys_workers s ! i))) (calls ! i))"
proof -
  have "w_replies (sys_workers s ! i) @ map (reply h) (w_todo (sys_workers s ! i)) = map (reply h) (calls ! i)"
    using shared_ok_reach [OF assms(1-3)] assms(4) by (simp add: shared_ok_def worker_ok_def)
  then show ?thesis by (metis append_eq_conv_conj take_map)
qed

lemma all_answered:
  assumes "reach (prog h) (start cur False calls) s" and "good h" and "cur_data cur = img" and "\<nexists>s'. step (prog h) s s'"
  shows "map w_replies (sys_workers s) = map (map (reply h)) calls"
proof -
  note ok = shared_ok_reach [OF assms(1-3)]
  have "w_todo (sys_workers s ! i) = []" if "i < length calls" for i using step_possible [OF ok that] assms(4) by blast
  then show ?thesis using ok by (auto simp: shared_ok_def worker_ok_def intro!: nth_equalityI)
qed

lemma step_less_left:
  assumes "reach (prog h) (start cur False calls) s" and "good h" and "cur_data cur = img" and "step (prog h) s s'"
  shows "(sys_workers s', sys_workers s) \<in> listrel1 less_left"
proof (rule step_less [OF assms(4)])
  fix i
  assume "i < length (sys_workers s)" and "w_now (sys_workers s ! i) \<noteq> None"
  then show "w_todo (sys_workers s ! i) \<noteq> []"
    using shared_okD(2) [OF shared_ok_reach [OF assms(1-3)], of i] by (auto simp: current_def)
qed

lemma no_endless_run:
  assumes "reach (prog h) (start cur False calls) s" and "good h" and "cur_data cur = img"
    and "f 0 = s" and "\<And>n. step (prog h) (f n) (f (Suc n))"
  shows False
proof -
  have "reach (prog h) (start cur False calls) (f n)" for n
  proof (induction n)
    case (Suc n)
    then show ?case using assms(5) by (rule reach_Suc)
  qed (use assms(1,4) in simp)
  then have "(sys_workers (f (Suc n)), sys_workers (f n)) \<in> listrel1 less_left" for n
    using step_less_left [OF _ assms(2,3,5)] by blast
  moreover obtain n where "(sys_workers (f (Suc n)), sys_workers (f n)) \<notin> listrel1 less_left"
    using wf_no_infinite_down_chainE [OF wf_left, of "\<lambda>n. sys_workers (f n)"] by blast
  ultimately show False by blast
qed

text \<open>From wherever the workers are, all calls can still be answered.\<close>

lemma completes:
  assumes "reach (prog h) (start cur False calls) s" and "good h" and "cur_data cur = img"
  shows "\<exists>t. reach (prog h) s t \<and> map w_replies (sys_workers t) = map (map (reply h)) calls"
  using wf_left assms(1)
proof (induction "sys_workers s" arbitrary: s rule: wf_induct_rule)
  case less
  show ?case
  proof (cases "\<exists>s'. step (prog h) s s'")
    case True
    then obtain s' where s': "step (prog h) s s'" by blast
    have "\<exists>t. reach (prog h) s' t \<and> map w_replies (sys_workers t) = map (map (reply h)) calls"
      using less.hyps [OF step_less_left [OF less.prems assms(2,3) s']] reach_Suc [OF less.prems s'] by blast
    then show ?thesis using reach_first [OF s'] by blast
  next
    case False
    then show ?thesis using all_answered [OF less.prems assms(2,3)] reach_0 [of "prog h" s] by blast
  qed
qed

end

section \<open>The adapter's calls\<close>

datatype 'o call =
    CallReadDir "'o FileId"
  | CallExtents "'o FileId" "'o StreamId"
  | CallLookup "'o FileId" bytes
  | CallMeta "'o FileId"
  | CallReadAt "'o FileId" "'o StreamId" u64 bytes

datatype 'o reply =
    ReplyReadDir "('o VfsDirEntry list, 'o) vres"
  | ReplyExtents "(RunInfo list, 'o) vres"
  | ReplyLookup "('o FileId option, 'o) vres"
  | ReplyMeta "(FsMeta, 'o) vres"
  | ReplyReadAt "(usize \<times> bytes, 'o) vres"

text \<open>A call made alone, and its program.\<close>

fun perform :: "Codecs \<Rightarrow> device \<Rightarrow> ApfsFs \<Rightarrow> 'o call \<Rightarrow> 'o reply" where
  "perform cs dev fs (CallReadDir ino) = ReplyReadDir (fst (read_dir dev fs ino))"
| "perform cs dev fs (CallExtents ino st) = ReplyExtents (fst (extents dev fs ino st))"
| "perform cs dev fs (CallLookup parent name) = ReplyLookup (fst (lookup dev fs parent name))"
| "perform cs dev fs (CallMeta ino) = ReplyMeta (fst (meta dev fs ino))"
| "perform cs dev fs (CallReadAt ino st off buf) = ReplyReadAt (fst (vfs_read_at cs dev fs ino st off buf))"

fun perform_io :: "Codecs \<Rightarrow> ApfsFs \<Rightarrow> 'o call \<Rightarrow> 'o reply io" where
  "perform_io cs fs (CallReadDir ino) = io_bind (read_dir_io fs ino) (\<lambda>r. Ret (ReplyReadDir r))"
| "perform_io cs fs (CallExtents ino st) = io_bind (extents_io fs ino st) (\<lambda>r. Ret (ReplyExtents r))"
| "perform_io cs fs (CallLookup parent name) = io_bind (lookup_io fs parent name) (\<lambda>r. Ret (ReplyLookup r))"
| "perform_io cs fs (CallMeta ino) = io_bind (meta_io fs ino) (\<lambda>r. Ret (ReplyMeta r))"
| "perform_io cs fs (CallReadAt ino st off buf) = io_bind (vfs_read_at_io cs fs ino st off buf) (\<lambda>r. Ret (ReplyReadAt r))"

lemma perform_outside:
  assumes "serving fs"
  shows "outside img (perform cs (cursor img) fs c) (perform_io cs fs c)"
proof (cases c)
  case (CallReadDir ino)
  show ?thesis
    using calls_answered(1) [OF assms, of "cursor img" ino] assms
    unfolding CallReadDir perform.simps perform_io.simps read_dir_io_def read_dir_def answers_call_def
    by (intro outside_checked outside_locked does_intros) (auto simp: serving_def)
next
  case (CallExtents ino st)
  show ?thesis
    using calls_answered(2) [OF assms, of "cursor img" ino st] assms
    unfolding CallExtents perform.simps perform_io.simps extents_io_def extents_def answers_call_def Let_def
    by (intro outside_checked outside_locked does_intros) (auto simp: serving_def)
next
  case (CallLookup parent name)
  show ?thesis
    using calls_answered(3) [OF assms, of "cursor img" parent name] assms
    unfolding CallLookup perform.simps perform_io.simps lookup_io_def lookup_def answers_call_def
    by (intro outside_checked) (auto intro!: outside_locked does_intros simp: serving_def outside_def [of _ _ "Ret _"])
next
  case (CallMeta ino)
  show ?thesis
    using calls_answered(4) [OF assms, of "cursor img" ino] assms
    unfolding CallMeta perform.simps perform_io.simps meta_io_def meta_def answers_call_def
    by (intro outside_checked outside_locked does_intros) (auto simp: serving_def)
next
  case (CallReadAt ino st off buf)
  show ?thesis
    using calls_answered(5) [OF assms, of cs "cursor img" ino st off buf] assms
    unfolding CallReadAt perform.simps perform_io.simps vfs_read_at_io_def vfs_read_at_def answers_call_def Let_def
    by (intro outside_checked outside_locked does_intros) (auto simp: serving_def)
qed

interpretation shared: one_section "perform_io cs" "perform cs (cursor img)" img serving for cs img
  by unfold_locales (rule perform_outside)

end
