(* ===== verification/Encryption.thy ===== *)
theory Encryption
  imports Obj_Phys
begin

text \<open>
  \<^verbatim>\<open>src/src/encryption.rs\<close> and \<^verbatim>\<open>src/src/sealed.rs\<close>: the keybag walk that reports which key records
  are present without unwrapping any, and the integrity metadata of a sealed volume.
\<close>

datatype KeybagTag =
  Unknown | WrappingKey | VolumeKey | VolumeUnlockRecords | VolumePassphraseHint | UserPayload

definition from_u16 :: "u16 \<Rightarrow> KeybagTag" where
  "from_u16 tag =
     (if tag = 0x01 then WrappingKey else if tag = 0x02 then VolumeKey
      else if tag = 0x03 then VolumeUnlockRecords else if tag = 0x04 then VolumePassphraseHint
      else if tag = 0xf8 then UserPayload else Unknown)"

record EncryptionState =
  encrypted :: bool
  tags_present :: "KeybagTag list"
  has_passphrase_hint :: bool
  unknown_tags :: "(u16 \<times> u64) list"

definition KL_NKEYS :: usize where "KL_NKEYS = 2"
definition KL_ENTRIES_OFF :: usize where "KL_ENTRIES_OFF = 16"
definition KE_TAG :: usize where "KE_TAG = 16"
definition KE_KEYLEN :: usize where "KE_KEYLEN = 18"
definition KE_HEADER_LEN :: usize where "KE_HEADER_LEN = 24"
definition MAX_KEYBAG_ENTRIES :: usize where "MAX_KEYBAG_ENTRIES = 4096"

text \<open>The loop over at most \<open>n\<close> entries.\<close>

fun keybag_loop ::
  "bytes \<Rightarrow> nat \<Rightarrow> usize \<Rightarrow> KeybagTag list \<Rightarrow> (u16 \<times> u64) list \<Rightarrow> KeybagTag list \<times> (u16 \<times> u64) list" where
  "keybag_loop data 0 off tags unk = (tags, unk)"
| "keybag_loop data (Suc n) off tags unk =
     (if off + KE_HEADER_LEN > length data then (tags, unk)
      else let raw_tag = le_u16 data (off + KE_TAG);
               tag = from_u16 raw_tag;
               keylen = unat (le_u16 data (off + KE_KEYLEN));
               unk' = (if tag = Unknown then unk @ [(raw_tag, word_of_nat off)] else unk);
               tags' = (if tag \<in> set tags then tags else tags @ [tag]);
               entry_len = (KE_HEADER_LEN + keylen + 15) div 16 * 16
           in keybag_loop data n (off + max entry_len 16) tags' unk')"

definition read_keybag :: "bytes \<Rightarrow> EncryptionState res" where
  "read_keybag data =
     (let nkeys = min (unat (le_u16 data KL_NKEYS)) MAX_KEYBAG_ENTRIES;
          (tags, unk) = keybag_loop data nkeys KL_ENTRIES_OFF [] [] in
      Ok \<lparr>encrypted = list_ex (\<lambda>t. t = WrappingKey \<or> t = VolumeKey \<or> t = VolumeUnlockRecords) tags,
          tags_present = tags, has_passphrase_hint = (VolumePassphraseHint \<in> set tags),
          unknown_tags = unk\<rparr>)"

section \<open>Sealed volumes\<close>

record IntegrityMeta =
  im_version :: u32
  im_flags :: u32
  im_hash_type :: u32
  im_broken_xid :: u64

definition INTEGRITY_META_MIN_LEN :: usize where "INTEGRITY_META_MIN_LEN = 48 + 8"

text \<open>Field offsets.\<close>

definition OFF_IM_VERSION :: usize where [simp]: "OFF_IM_VERSION = 32"
definition OFF_IM_FLAGS :: usize where [simp]: "OFF_IM_FLAGS = 36"
definition OFF_IM_HASH_TYPE :: usize where [simp]: "OFF_IM_HASH_TYPE = 40"
definition OFF_IM_BROKEN_XID :: usize where [simp]: "OFF_IM_BROKEN_XID = 48"

definition IntegrityMeta_parse :: "bytes \<Rightarrow> IntegrityMeta res" where
  "IntegrityMeta_parse block =
     (if length block < INTEGRITY_META_MIN_LEN
      then Err (FieldOutOfRange ''integrity_meta_phys'' ''block.len'' (word_of_nat (length block))
                  (word_of_nat INTEGRITY_META_MIN_LEN))
      else let stored = fletcher64_stored block; computed = fletcher64_checksum block in
      if stored \<noteq> computed then Err (ChecksumMismatch (le_u64 block 8) stored computed)
      else Ok \<lparr>im_version = le_u32 block OFF_IM_VERSION, im_flags = le_u32 block OFF_IM_FLAGS, im_hash_type = le_u32 block OFF_IM_HASH_TYPE,
               im_broken_xid = le_u64 block OFF_IM_BROKEN_XID\<rparr>)"

lemma IntegrityMeta_parse_Ok_iff:
  "IntegrityMeta_parse block = Ok m \<longleftrightarrow> 56 \<le> length block \<and> cksum_ok block \<and>
     m = \<lparr>im_version = le_u32 block 32, im_flags = le_u32 block 36, im_hash_type = le_u32 block 40,
          im_broken_xid = le_u64 block 48\<rparr>"
  by (auto simp: IntegrityMeta_parse_def INTEGRITY_META_MIN_LEN_def Let_def)

section \<open>The keybag walk\<close>

text \<open>The entries a keybag lays out: key UUID, raw tag and key data, 16-byte aligned.\<close>

type_synonym keybag_entry = "bytes \<times> u16 \<times> bytes"

definition keybag_entry_image :: "keybag_entry \<Rightarrow> bytes" where
  "keybag_entry_image e = (case e of (uuid, tag, key) \<Rightarrow>
     uuid @ to_le_bytes tag @ to_le_bytes (word_of_nat (length key) :: u16) @ replicate 4 0 @ key @
     replicate ((24 + length key + 15) div 16 * 16 - (24 + length key)) 0)"

definition keybag_image :: "bytes \<Rightarrow> keybag_entry list \<Rightarrow> bytes" where
  "keybag_image rest es = replicate 2 0 @ to_le_bytes (word_of_nat (length es) :: u16) @ replicate 12 0 @
     concat (map keybag_entry_image es) @ rest"

definition entry_ok :: "keybag_entry \<Rightarrow> bool" where
  "entry_ok e = (case e of (uuid, tag, key) \<Rightarrow> length uuid = 16 \<and> length key < 2 ^ 16)"

lemma keybag_entry_image_simp:
  "keybag_entry_image (uuid, tag, key) = uuid @ to_le_bytes tag @ to_le_bytes (word_of_nat (length key) :: u16) @
     replicate 4 0 @ key @ replicate ((24 + length key + 15) div 16 * 16 - (24 + length key)) 0"
  by (simp add: keybag_entry_image_def)

lemma aligned_le: "n \<le> (n + 15) div 16 * (16 :: nat)"
  by presburger

lemma length_keybag_entry_image:
  "entry_ok (uuid, tag, key) \<Longrightarrow> length (keybag_entry_image (uuid, tag, key)) = (24 + length key + 15) div 16 * 16"
  using aligned_le [of "24 + length key"] by (simp add: keybag_entry_image_def entry_ok_def)

definition add_tag :: "KeybagTag list \<Rightarrow> KeybagTag \<Rightarrow> KeybagTag list" where
  "add_tag tags t = (if t \<in> set tags then tags else tags @ [t])"

fun unknown_of :: "nat \<Rightarrow> keybag_entry list \<Rightarrow> (u16 \<times> u64) list" where
  "unknown_of off [] = []"
| "unknown_of off ((uuid, tag, key) # es) =
     (if from_u16 tag = Unknown then [(tag, word_of_nat off)] else []) @
     unknown_of (off + (24 + length key + 15) div 16 * 16) es"

lemma keybag_loop_image:
  assumes "\<forall>e \<in> set es. entry_ok e" and "data = pre @ concat (map keybag_entry_image es) @ rest"
  shows "keybag_loop data (length es) (length pre) tags unk =
    (foldl add_tag tags (map (\<lambda>(uuid, tag, key). from_u16 tag) es), unk @ unknown_of (length pre) es)"
  using assms
proof (induction es arbitrary: pre tags unk)
  case (Cons e es)
  obtain uuid tag key where e: "e = (uuid, tag, key)" by (cases e)
  have ok: "length uuid = 16" "length key < 2 ^ 16" "entry_ok (uuid, tag, key)"
    using Cons.prems(1) by (simp_all add: e entry_ok_def)
  let ?pad = "replicate ((24 + length key + 15) div 16 * 16 - (24 + length key)) 0 :: bytes"
  let ?post = "key @ ?pad @ concat (map keybag_entry_image es) @ rest"
  have data: "data = (pre @ uuid) @ to_le_bytes tag @ to_le_bytes (word_of_nat (length key) :: u16) @
      replicate 4 0 @ ?post"
    by (simp add: Cons.prems(2) e keybag_entry_image_simp)
  have t: "le_u16 data (length pre + 16) = tag" "le_u16 data (length pre + 18) = word_of_nat (length key)"
    using ok(1) by (simp_all add: data slice_simps)
  have k: "unat (word_of_nat (length key) :: u16) = length key" using ok(2) by (simp add: unat_of_nat)
  have fits: "\<not> length pre + 24 > length data" using ok(1) by (simp add: data)
  have mx: "max ((24 + length key + 15) div 16 * 16) 16 = (24 + length key + 15) div 16 * 16"
    using aligned_le [of "24 + length key"] by simp
  have IH: "keybag_loop data (length es) (length (pre @ keybag_entry_image e)) tags' unk' =
      (foldl add_tag tags' (map (\<lambda>(uuid, tag, key). from_u16 tag) es),
       unk' @ unknown_of (length (pre @ keybag_entry_image e)) es)" for tags' unk'
    using Cons.prems by (intro Cons.IH) simp_all
  have len: "length (pre @ keybag_entry_image e) = length pre + (24 + length key + 15) div 16 * 16"
    using length_keybag_entry_image [OF ok(3)] by (simp add: e)
  show ?case
    using fits t k IH [unfolded len]
    by (simp add: e KE_HEADER_LEN_def KE_TAG_def KE_KEYLEN_def Let_def mx add_tag_def [of tags])
qed simp

lemma foldl_add_tag:
  "set (foldl add_tag tags ts) = set tags \<union> set ts" "distinct tags \<Longrightarrow> distinct (foldl add_tag tags ts)"
  by (induction ts arbitrary: tags) (auto simp: add_tag_def)

lemma bex_image_pair:
  assumes "\<And>tag. P (from_u16 tag) \<longleftrightarrow> Q tag"
  shows "(\<exists>t \<in> (\<lambda>(uuid, tag, key). from_u16 tag) ` S. P t) \<longleftrightarrow> (\<exists>(uuid, tag, key) \<in> S. Q tag)"
  using assms by (auto simp: Bex_def split: prod.splits)

lemma read_keybag_image:
  assumes "\<forall>e \<in> set es. entry_ok e" and "length es \<le> 4096"
  shows "\<exists>st. read_keybag (keybag_image rest es) = Ok st \<and> distinct (tags_present st) \<and>
    set (tags_present st) = (\<lambda>(uuid, tag, key). from_u16 tag) ` set es \<and>
    (encrypted st \<longleftrightarrow> (\<exists>(uuid, tag, key) \<in> set es. tag \<in> {1, 2, 3})) \<and>
    (has_passphrase_hint st \<longleftrightarrow> (\<exists>(uuid, tag, key) \<in> set es. tag = 4)) \<and>
    unknown_tags st = unknown_of 16 es"
proof -
  define pre :: bytes where "pre = replicate 2 0 @ to_le_bytes (word_of_nat (length es) :: u16) @ replicate 12 0"
  let ?data = "keybag_image rest es"
  let ?tags = "foldl add_tag [] (map (\<lambda>(uuid, tag, key). from_u16 tag) es)"
  have pre: "length pre = 16" "?data = pre @ concat (map keybag_entry_image es) @ rest"
    by (simp_all add: pre_def keybag_image_def)
  have "unat (le_u16 ?data 2) = length es"
    using assms(2) by (simp add: keybag_image_def slice_simps unat_of_nat)
  then have "read_keybag ?data =
      Ok \<lparr>encrypted = list_ex (\<lambda>t. t = WrappingKey \<or> t = VolumeKey \<or> t = VolumeUnlockRecords) ?tags,
          tags_present = ?tags, has_passphrase_hint = (VolumePassphraseHint \<in> set ?tags),
          unknown_tags = unknown_of 16 es\<rparr>"
    using keybag_loop_image [OF assms(1) pre(2), of "[]" "[]"] assms(2) pre(1)
    by (simp add: read_keybag_def KL_NKEYS_def KL_ENTRIES_OFF_def MAX_KEYBAG_ENTRIES_def Let_def)
  moreover have "set ?tags = (\<lambda>(uuid, tag, key). from_u16 tag) ` set es" "distinct ?tags"
    by (simp_all add: foldl_add_tag)
  moreover have "(\<exists>t \<in> (\<lambda>(uuid, tag, key). from_u16 tag) ` S. t = WrappingKey \<or> t = VolumeKey \<or> t = VolumeUnlockRecords)
      \<longleftrightarrow> (\<exists>(uuid, tag, key) \<in> S. tag \<in> {1, 2, 3})" for S :: "keybag_entry set"
    by (intro bex_image_pair) (auto simp: from_u16_def)
  moreover have "VolumePassphraseHint \<in> (\<lambda>(uuid, tag, key). from_u16 tag) ` S \<longleftrightarrow> (\<exists>(uuid, tag, key) \<in> S. tag = 4)"
    for S :: "keybag_entry set"
    using bex_image_pair [of "\<lambda>t. t = VolumePassphraseHint" "\<lambda>tag. tag = 4" S] by (auto simp: from_u16_def split: if_splits)
  ultimately show ?thesis by (simp add: list_ex_iff)
qed

section \<open>Properties\<close>

text \<open>
  C30 (functional): on a keybag laid out as documented with at most 4096 entries the state reports
  each tag present once, encryption exactly when some entry is a wrapping key, volume key or unlock
  record, a hint exactly when some entry is one, and every unknown tag with its offset.
\<close>

theorem keybag_state:
  assumes "\<forall>e \<in> set es. entry_ok e" and "length es \<le> 4096"
  shows "\<exists>st. read_keybag (keybag_image rest es) = Ok st \<and> distinct (tags_present st) \<and>
    set (tags_present st) = (\<lambda>(uuid, tag, key). from_u16 tag) ` set es \<and>
    (encrypted st \<longleftrightarrow> (\<exists>(uuid, tag, key) \<in> set es. tag \<in> {1, 2, 3})) \<and>
    (has_passphrase_hint st \<longleftrightarrow> (\<exists>(uuid, tag, key) \<in> set es. tag = 4)) \<and>
    unknown_tags st = unknown_of 16 es"
  using assms by (rule read_keybag_image)

theorem keybag_state_witness:
  "\<exists>st. read_keybag (keybag_image [] [(replicate 16 1, 3, replicate 40 9), (replicate 16 2, 0x77, [])]) = Ok st \<and>
     encrypted st \<and> \<not> has_passphrase_hint st \<and> unknown_tags st = [(0x77, 80)]"
  using keybag_state [of "[(replicate 16 1, 3, replicate 40 9), (replicate 16 2, 0x77, [])]" "[]"]
  by (auto simp: entry_ok_def from_u16_def)

end
