(* ===== verification/Spec2Isabelle.thy ===== *)
theory Spec2Isabelle
  imports Sample_States Sample_Disk File_View Workers Encryption
begin

text \<open>
  \<^bold>\<open>Verification of the APFS reader newtua-apfs.\<close> The crate reads an APFS container from any
  \<^verbatim>\<open>Read + Seek\<close> source, forensically: every block is checksummed before it is trusted, every walk is
  guarded against cycles, hostile images must give named errors and never a panic.

  \<^bold>\<open>The program and its model.\<close> A container is opened from block zero through the checkpoint
  descriptor ring; its object map gives the volume superblocks; a volume's own object map gives the
  nodes of its file-system tree, whose records are inodes, directory entries, extents and attributes;
  files are assembled from extents or decompressed; snapshots are frozen superblocks read through
  the live object map; an adapter serves all this as a file system. All of the crate's state is the
  source and small records passed along, so the model is pure functions over a \<open>device\<close> argument with
  the outcome type \<open>'a res\<close>: a value, an \<open>ApfsError\<close>, or \<open>Panic\<close> for what panics in Rust with
  overflow checks on a 64-bit target. Visitor closures become a visitor function with its captured
  state. The theories, bottom up (files are under \<^verbatim>\<open>src/src\<close>):

  \<^item> \<^verbatim>\<open>Prelude\<close>: machine integers, errors and results (\<^verbatim>\<open>lib.rs\<close>), slices, checked arithmetic, the
    source and the locale \<open>exact_source\<close> (the contract of \<^verbatim>\<open>read_exact\<close>, interpreted on \<^verbatim>\<open>Cursor\<close>);
    reads that seek first do not depend on the cursor's position, so for one caller a source is a function.
    An I/O error is the end of the source met by a read, or any other error, and carries its own text.
  \<^item> \<^verbatim>\<open>Error_Text\<close> (the \<^verbatim>\<open>#[error]\<close> texts of \<^verbatim>\<open>lib.rs\<close>): rendering with Rust's number formats, and how
    the fields are read back from a text.
  \<^item> \<^verbatim>\<open>Bytes\<close> (\<^verbatim>\<open>bytes.rs\<close>), \<^verbatim>\<open>Obj_Phys\<close> (\<^verbatim>\<open>object.rs\<close>): readers with zero default; object header and
    Fletcher-64, shown to be the weighted sums of the format and to detect a changed word.
  \<^item> \<^verbatim>\<open>Container\<close> (\<^verbatim>\<open>container.rs\<close>, \<^verbatim>\<open>fusion.rs\<close>): the container superblock and its gates.
  \<^item> \<^verbatim>\<open>Btree_Node\<close>, \<^verbatim>\<open>Tree_Walk\<close>, \<^verbatim>\<open>Btree\<close> (\<^verbatim>\<open>btree.rs\<close>): node decoding with its round trip and
    bounds; abstract stored trees and the locale \<open>tree_walk\<close>, the recursion that the three guarded
    walks share, with completeness on stored trees, totality on any source and the comparison of two
    sources proved once; the physical walks, its first interpretation.
  \<^item> \<^verbatim>\<open>Omap\<close> (\<^verbatim>\<open>omap.rs\<close>): resolution at a transaction id refines a scan of all mappings.
  \<^item> \<^verbatim>\<open>Checkpoint\<close> (\<^verbatim>\<open>checkpoint.rs\<close>), \<^verbatim>\<open>Lib_Container\<close> (\<^verbatim>\<open>lib.rs\<close>): the ring scan, opening, volume
    addresses.
  \<^item> \<^verbatim>\<open>Utf8\<close>, \<^verbatim>\<open>Volume\<close> (\<^verbatim>\<open>volume.rs\<close>), \<^verbatim>\<open>Fsrecord\<close> (\<^verbatim>\<open>fsrecord.rs\<close>), \<^verbatim>\<open>Inode\<close> (\<^verbatim>\<open>inode.rs\<close>): lossy UTF-8
    decoding of the standard library, volume superblock, key words and extended fields, inodes.
  \<^item> \<^verbatim>\<open>Dir\<close> (\<^verbatim>\<open>dir.rs\<close>): the keyed walk of the virtual tree (second interpretation of \<open>tree_walk\<close>), the
    locale \<open>record_scan\<close> its clients rely on, navigation against the list of all records.
  \<^item> \<^verbatim>\<open>Extent\<close> (\<^verbatim>\<open>extent.rs\<close>), \<^verbatim>\<open>Xattr\<close> (\<^verbatim>\<open>xattr.rs\<close>), \<^verbatim>\<open>Compression\<close> (\<^verbatim>\<open>decmpfs.rs\<close>,
    \<^verbatim>\<open>compression.rs\<close>, and contents and size of \<^verbatim>\<open>extent.rs\<close>): streams byte by byte, attributes,
    decoders; the codecs are the parameter \<open>Codecs\<close>. \<^verbatim>\<open>Decmpfs_Image\<close>: compressed files as the format
    lays them out (\<open>decmpfs_file\<close>), which the decoders invert.
  \<^item> \<^verbatim>\<open>Snapshot\<close> (\<^verbatim>\<open>snapshot.rs\<close>): the third interpretation of \<open>tree_walk\<close>, listing, mounting.
  \<^item> \<^verbatim>\<open>Spaceman\<close> (\<^verbatim>\<open>spaceman.rs\<close>), \<^verbatim>\<open>Reaper\<close> (\<^verbatim>\<open>reaper.rs\<close>), \<^verbatim>\<open>Encryption\<close> (\<^verbatim>\<open>encryption.rs\<close>,
    \<^verbatim>\<open>sealed.rs\<close>): free-block query, reap lists, keybag, integrity metadata.
  \<^item> \<^verbatim>\<open>Vfs\<close> (\<^verbatim>\<open>vfs.rs\<close>): mounting and the trait calls; the lock is a flag that a panic under the guard
    sets, and the states of a handle are the inductive predicate \<open>handle\<close>. \<^verbatim>\<open>Io_Programs\<close>: the calls again
    as programs of single seeks, reads and lock operations, shown to do what the functions above say when
    nobody interferes. \<^verbatim>\<open>Workers\<close>: any number of workers on one handle, one operation of one worker at a
    time, with a run that goes wrong without the lock; the locale \<open>one_section\<close> is what keeps them apart
    (the shared state is touched only under the guard), interpreted on the adapter's calls.
    \<^verbatim>\<open>File_View\<close>: the contents of a file as the records
    define them (\<open>file_contents\<close>) and what a client sees of it.
  \<^item> \<^verbatim>\<open>Damage\<close>: two sources compared through all metadata calls: damaged blocks, and a later state of
    the source to which transactions have been added (\<open>same_unless\<close> of \<^verbatim>\<open>Prelude\<close> is the relation).
  \<^item> \<^verbatim>\<open>Tree_Image\<close>, \<^verbatim>\<open>Volume_Image\<close>, \<^verbatim>\<open>Superblock_Image\<close>, \<^verbatim>\<open>Container_Image\<close>: the inverse of reading, trees,
    volumes, superblocks and whole containers laid out on an image, so that the stored trees of the other
    theorems exist for every choice of records that fits. \<^verbatim>\<open>Fs_Objects\<close>: inodes, entries, attributes
    and extents written as records; \<^verbatim>\<open>Disk_Image\<close>: containers that hold such objects and file data;
    \<^verbatim>\<open>Snapshot_Image\<close>: disks that also hold a snapshot, with nodes shared between the two trees.
  \<^item> \<^verbatim>\<open>Sample_Volume\<close>, \<^verbatim>\<open>Sample_States\<close>, \<^verbatim>\<open>Sample_Disk\<close>: complete images of twelve to sixteen blocks
    on which the theorems are evaluated, and damaged and later states of them.

  \<^bold>\<open>What is shown.\<close> Refinement: object-map resolution, listings, lookups, paths and snapshots equal
  their specification over the list of all records of a stored tree (\<open>stored\<close>, \<open>fs_stored\<close>,
  \<open>snap_stored\<close>: what the node reads return, node by node, in key order and without shared nodes).
  End to end, a file of a stored volume is reached by lookups and read in windows as its records define
  it, plain or compressed; free-block queries agree with the allocation map the bitmaps hold.
  Functional: the live checkpoint is the latest valid one, streams hold the bytes the extents name, so
  do the reported runs, reported and actual sizes agree. Round trips: nodes, inodes, trees, whole
  disks (any objects with the container around them mount and come back, files byte for byte, and so do
  those of a snapshot), every supported compressed layout. Safety on damaged sources: on blocks
  overwritten with a wrong checksum, or changed in a word where it was right, the metadata calls give
  their intact outcome or a checksum or type error; a damaged container opens, if at all, at an intact
  checkpoint no newer than the live one (mappings in damaged map blocks are missing without an error);
  blocks of the ring torn by a crash outside the live checkpoint do not change what is opened; a mounted snapshot does not change when later transactions are written. Bounds: the keyed walk
  reads one path but for node boundaries within the object. On every source: walks end (the depth cap 64
  is the measure), nothing panics but the case of \<open>resolve_live_checkpoint_panics_iff\<close>,
  errors are the named ones and their texts tell them apart, listings are well formed, a mounted
  handle's lock is never poisoned. Workers that share a handle touch the source only under the lock, get
  the sequential replies under every interleaving of their single seeks, reads and lock operations, and are
  all answered. Three theorems state where the code departs
  from its intent: that overflow panic, the visited-set collision of the snapshot walk, and blocks past
  the bitmap reported free.

  \<^bold>\<open>Bounds.\<close> No fuel is used: every loop is structural, or has a measure from the code's own caps
  (depth 64 for trees, 4096 for reap lists). \<^verbatim>\<open>usize\<close> is \<open>nat\<close>, with the 64-bit bound written out where
  the code checks it; \<^verbatim>\<open>u16\<close>, \<^verbatim>\<open>u32\<close>, \<^verbatim>\<open>u64\<close> are words.

  \<^bold>\<open>Not modelled.\<close> Memory exhaustion and capacity hints; plain accessors (they are the record
  selectors); in \<^verbatim>\<open>vfs.rs\<close> the \<^verbatim>\<open>Debug\<close> text of foreign identities (the refused identity itself is
  carried); third-party code (the codecs, total functions that may refuse, \<^verbatim>\<open>chrono\<close>,
  \<^verbatim>\<open>forensic_vfs\<close>), which is a parameter or a type with the constructors the crate builds; the tests, inside the source files and
  under \<^verbatim>\<open>tests\<close>. Every other function of the crate has its definition here.

  This root theory holds the properties that span components.
\<close>

section \<open>Navigation\<close>

text \<open>
  C9 (refinement): on a volume whose file-system tree is stored (checksummed nodes reached through the
  volume object map, ordered by object id), resolving a path gives what following the names through
  the list of all records gives: each component is the first directory record of that name in the
  current directory, a missing component is reported with the directory it is missing from, and the
  result is the first inode record of the object reached. Subtrees the keyed walk skips never matter.
\<close>

theorem open_path_refines_records:
  assumes "fs_stored dev volume bs t"
  shows "open_path dev volume path bs =
    and_then (spec_path t (vol_xid volume) 2 (path_components path)) (\<lambda>oid.
      and_then (ok_or (spec_inode t oid) (OmapUnresolved oid (vol_xid volume))) (Inode_parse oid))"
  using assms by (rule open_path_stored)

theorem open_path_refines_records_witness:
  "\<exists>i. open_path smp (smp_volume 6) (ascii ''/a.txt'') 4096 = Ok i \<and> ino_oid i = 16 \<and> ino_size i = Some 5"
proof -
  have "path_components (ascii ''/a.txt'') = [ascii ''a.txt'']"
    by (simp add: path_components_def ascii_def)
  moreover have "spec_child smp_tree 2 (ascii ''a.txt'') = Some 16"
    by (simp add: spec_child_def smp_spec_dir)
  ultimately show ?thesis
    using open_path_refines_records [OF smp_stored, of 6 "ascii ''/a.txt''"] smp_load(1) [of 6]
    by (auto simp: load_inode_stored [OF smp_stored] word_le_nat_alt)
qed

text \<open>
  C13 (refinement): on such a volume the listing of a directory, the extents of a stream and the extended
  attributes of an inode are exactly the records of that object and type among all records of the
  tree, decoded in key order, the extents sorted by logical offset.
\<close>

theorem listings_refine_records:
  assumes "fs_stored dev volume bs t"
  shows "list_dir dev volume oid bs = Ok (spec_dir t oid) \<and>
    list_extents dev volume oid bs = Ok (spec_extents t oid) \<and>
    list_xattrs dev volume oid bs = Ok (spec_xattrs t oid)"
  using list_dir_stored [OF assms] list_extents_stored [OF assms] list_xattrs_stored [OF assms] by simp

theorem listings_refine_records_witness:
  "list_dir smp (smp_volume 6) 2 4096 =
     Ok [\<lparr>de_name = ascii ''a.txt'', de_file_id = 16, de_date_added = 0, de_flags = 8\<rparr>,
         \<lparr>de_name = ascii ''b'', de_file_id = 17, de_date_added = 0, de_flags = 8\<rparr>] \<and>
   list_extents smp (smp_volume 6) 16 4096 = Ok [\<lparr>logical_offset = 0, ext_len = 4096, phys_block_num = 11\<rparr>]"
  using listings_refine_records [OF smp_stored, of 6 2] listings_refine_records [OF smp_stored, of 6 16]
  by (simp add: smp_spec_dir smp_spec_extents word_le_nat_alt)

text \<open>
  C23 (type): whatever the source holds, what the listings return is well formed: names of directory
  entries, attributes and snapshots are valid UTF-8 without a zero byte, extents are sorted by logical
  offset with lengths below 2^56, embedded attribute values are shorter than 2^16 bytes, snapshots are
  sorted by transaction id with ids below 2^60.
\<close>

theorem listings_well_typed:
  "(case list_dir dev volume oid bs of Ok ds \<Rightarrow> list_all (\<lambda>d. name_ok (de_name d)) ds | _ \<Rightarrow> True) \<and>
   (case list_extents dev volume oid bs of
      Ok es \<Rightarrow> sorted (map logical_offset es) \<and> list_all (\<lambda>e. unat (ext_len e) < 2 ^ 56) es | _ \<Rightarrow> True) \<and>
   (case list_xattrs dev volume oid bs of Ok xs \<Rightarrow> list_all xattr_ok xs | _ \<Rightarrow> True) \<and>
   (case list_snapshots dev volume bs of
      Ok ss \<Rightarrow> sorted (map sn_xid ss) \<and> list_all snapshot_ok ss | _ \<Rightarrow> True)"
  using list_dir_names list_extents_sorted list_xattrs_ok list_snapshots_sorted
  by (auto split: res.split)

text \<open>
  C19 (bounds): on a stored tree whose index nodes have their separators in order, the keyed walk for one
  object reads at most one node per level, and one more per level for every separator of the object
  itself (a node boundary its records run over): a walk for an object without one reads a single path.
\<close>

theorem keyed_walk_prunes:
  assumes "stored (virtual_node dev omap xid bs) FsTree t" and "height t \<le> 64" and "distinct (addrs t)"
    and "separators_sorted t"
  shows "\<exists>read. descend_virtual dev omap xid bs (Some oid) visit 0 (root t) {} s =
      Ok (visit_all visit (entries (keep_oid (Some oid)) t) s, read) \<and>
    read \<subseteq> set (addrs t) \<and> card read \<le> height t * Suc (boundaries oid t)"
  using assms by (rule keyed_walk_reads)

theorem keyed_walk_prunes_witness:
  "\<exists>read. descend_virtual smp smp_omap 6 4096 (Some 17) (\<lambda>k v n. Suc n) 0 1026 {} 0 = Ok (4 :: nat, read) \<and>
     card read \<le> 2"
proof -
  have "separators_sorted smp_tree" "boundaries 17 smp_tree = 0" "height smp_tree = 2" "root smp_tree = 1026"
    "distinct (addrs smp_tree)" "entries (keep_oid (Some 17)) smp_tree = smp_right"
    by (simp_all add: smp_tree_def key_oid_jk_alone word_le_nat_alt keep_oid_def child_may_contain_oid_def)
  then show ?thesis
    using keyed_walk_prunes [OF smp_fs_tree, of 6 17 "\<lambda>k v n. Suc n" 0]
    by (auto simp: word_le_nat_alt smp_right_def)
qed

text \<open>
  C6 (roundtrip): what is written is found. Take any objects (inodes, attributes, extents, directories), any
  file-system tree whose leaves hold their records in order, and any container around it that fits: block
  zero, a live superblock in a ring with no other one as recent, the object maps, the volume superblock.
  Written to an image, it mounts as that volume; every object's listing, attributes, extents and inode
  are the ones written, and every path resolves, or fails, as the written directories say.
\<close>

theorem written_container_mounts:
  assumes "container_fits l blks" and "holds_objects hash (lay_tree l) obs" and "ob \<in> set obs"
    and "dev = cursor (concat (write_container l blks))" and "v = lay_volume l"
  shows "ApfsFs_open dev = Ok (mounted_fs l) \<and> list_dir dev v (fo_oid ob) 4096 = Ok (fo_entries ob) \<and>
    list_xattrs dev v (fo_oid ob) 4096 = Ok (fo_xattrs ob) \<and> list_extents dev v (fo_oid ob) 4096 = Ok (fo_extents ob) \<and>
    load_inode dev v (fo_oid ob) 4096 = ok_or (fo_inode ob) (OmapUnresolved (fo_oid ob) (vol_xid v)) \<and>
    open_path dev v path 4096 =
      and_then (object_path obs (vol_xid v) ROOT_DIR_INO_NUM (path_components path)) (object_inode obs (vol_xid v))"
proof -
  have s: "fs_stored dev v 4096 (lay_tree l)" using container_image_blocks(9) [OF assms(1)] assms(4,5) by simp
  have "find_object obs (fo_oid ob) = Some ob" using find_object_member assms(2,3) by (simp add: holds_objects_def)
  then show ?thesis
    using disk_mounts [OF assms(1)] spec_object [OF assms(2,3)] list_dir_stored [OF s] list_xattrs_stored [OF s]
      list_extents_stored [OF s] load_inode_object [OF s assms(2)] open_path_object [OF s assms(2), of path] assms(4)
    by (simp add: object_inode_def)
qed

theorem written_container_mounts_witness:
  "ApfsFs_open (cursor (concat (write_container dsk_layout dsk_blocks))) = Ok (mounted_fs dsk_layout) \<and>
   list_dir (cursor (concat (write_container dsk_layout dsk_blocks))) (lay_volume dsk_layout) 2 4096 =
     Ok [\<lparr>de_name = ascii ''a.txt'', de_file_id = 16, de_date_added = 9, de_flags = 8\<rparr>]"
proof -
  have "holds_objects None (lay_tree dsk_layout) [dsk_root, dsk_file]" using dsk_objects by (simp add: dsk_layout_def)
  from written_container_mounts [OF dsk_fits this, of dsk_root] show ?thesis by (simp add: dsk_root_def)
qed

text \<open>
  C7 (roundtrip): a file comes back. On such an image, with the data of a plain file in blocks that are no
  metadata, mounting, following the names of the path from the root, and reading windows of any length
  until the size gives the bytes its data blocks hold, zeros in holes; the metadata call gives its
  kind and size. Nothing that was written around the data matters.
\<close>

theorem written_file_reads_back:
  assumes "container_fits l blks" and "holds_objects hash (lay_tree l) obs"
    and "object_path obs (vol_xid (lay_volume l)) ROOT_DIR_INO_NUM names = Ok oid" and "plain_object obs oid inode es"
    and "list_all (data_extent l blks (unat (spec_size inode))) es"
    and "unat (spec_size inode) \<le> n * k" and "n * k < 2 ^ 64" and "dev = cursor (concat (write_container l blks))"
  shows "\<exists>fs node m. ApfsFs_open dev = Ok fs \<and> follow dev fs (vfs_root fs :: 'o FileId) names = Some node \<and>
    meta dev fs node = (VOk m, fs) \<and> meta_kind m = mode_to_kind (ino_mode inode) \<and>
    unat (meta_size m) = unat (spec_size inode) \<and>
    concat (map (window cs dev fs node k) [0..<n]) = map (stream_byte (concat blks) 4096 es) [0..<unat (spec_size inode)]"
  using disk_mounts [OF assms(1)] disk_file_view [OF assms, where 'o = 'o] assms(8) by blast

theorem written_file_reads_back_witness:
  "\<exists>fs node m. ApfsFs_open (cursor (concat (write_container dsk_layout dsk_blocks))) = Ok fs \<and>
     follow (cursor (concat (write_container dsk_layout dsk_blocks))) fs (vfs_root fs :: nat FileId) [ascii ''a.txt''] = Some node \<and>
     concat (map (window tag_codecs (cursor (concat (write_container dsk_layout dsk_blocks))) fs node 2) [0..<3]) = ascii ''hello''"
proof -
  have "holds_objects None (lay_tree dsk_layout) [dsk_root, dsk_file]"
    "object_path [dsk_root, dsk_file] (vol_xid (lay_volume dsk_layout)) ROOT_DIR_INO_NUM [ascii ''a.txt''] = Ok 16"
    using dsk_objects dsk_path by (simp_all add: dsk_layout_def dsk_volume_def ROOT_DIR_INO_NUM_def)
  moreover have "unat (spec_size (demo_inode\<lparr>ino_private_id := 16\<rparr>)) = 5" by (simp add: demo_inode_def spec_size_def)
  ultimately show ?thesis
    using written_file_reads_back [OF dsk_fits _ _ dsk_plain, of None "[ascii ''a.txt'']" 3 2 _ tag_codecs, where 'o = nat]
      dsk_data dsk_bytes by auto
qed

text \<open>
  C8 (roundtrip): time travel. On a disk written with a snapshot beside the live container (the frozen
  superblock, the file-system tree of its time, which may share nodes with the live one, placed by the
  older mappings of the one object map, and the snapshot metadata tree), the snapshots are listed and
  named as written; mounting at the snapshot's transaction id gives back the objects of that time and
  their paths, the live mount, also at its own id, gives the live objects, whatever the other state
  holds, and an id that is neither is not found.
\<close>

theorem written_snapshot_mounts:
  assumes "disk_fits s l blks" and "holds_snapshots (sl_meta s) sns" and "List.find (\<lambda>sn. sn_xid sn = x) sns = Some sn"
    and "sn_sblock_oid sn = sl_addr s" and "x \<noteq> vol_xid (lay_volume l)"
    and "holds_objects hash (sl_tree s) old" and "holds_objects hash' (lay_tree l) obs"
    and "dev = cursor (concat (write_disk s l blks))" and "v = snap_volume s l" and "u = lay_volume l"
  shows "snapshots dev = Ok sns \<and>
    resolve_snapshot_xid dev u name 4096 = Ok (map_option sn_xid (List.find (\<lambda>sn. sn_name sn = name) sns)) \<and>
    open_snapshot dev x = Ok \<lparr>fs_volume = v, fs_block_size = 4096, fs_root_xid = x, fs_poisoned = False\<rparr> \<and>
    open_snapshot dev (vol_xid u) = Ok (mounted_fs l) \<and>
    (y \<noteq> vol_xid u \<longrightarrow> y \<notin> sn_xid ` set sns \<longrightarrow> open_snapshot dev y = Err (SnapshotNotFound y)) \<and>
    ApfsFs_open dev = Ok (mounted_fs l) \<and> shows_objects dev v old \<and> shows_objects dev u obs"
proof -
  have c: "container_fits l (write_snapshot s (lay_obj l) blks)" using assms(1) by (simp add: disk_fits_def)
  then have "fs_stored dev u 4096 (lay_tree l)"
    using container_image_blocks(9) [OF c] assms(8,10) by (simp add: write_disk_def)
  then show ?thesis
    using disk_snapshot_mounts [OF assms(1-5,8)] disk_mounts [OF c] disk_trees_stored(1) [OF assms(1)]
      shows_stored_objects [OF _ assms(6)] shows_stored_objects [OF _ assms(7)] assms(8-10)
    by (simp add: write_disk_def)
qed

theorem written_snapshot_mounts_witness:
  "\<exists>fs. open_snapshot (cursor (concat (write_disk snp_snap snp_layout snp_blocks))) 4 = Ok fs \<and>
     list_dir (cursor (concat (write_disk snp_snap snp_layout snp_blocks))) (fs_volume fs) 2 4096 =
       Ok [\<lparr>de_name = ascii ''old'', de_file_id = 16, de_date_added = 3, de_flags = 8\<rparr>] \<and>
     list_dir (cursor (concat (write_disk snp_snap snp_layout snp_blocks))) (lay_volume snp_layout) 2 4096 =
       Ok [\<lparr>de_name = ascii ''a.txt'', de_file_id = 16, de_date_added = 9, de_flags = 8\<rparr>] \<and>
     snapshots (cursor (concat (write_disk snp_snap snp_layout snp_blocks))) = Ok [snp_snapshot] \<and>
     open_snapshot (cursor (concat (write_disk snp_snap snp_layout snp_blocks))) 5 = Err (SnapshotNotFound 5)"
proof -
  have "holds_objects None (lay_tree snp_layout) [dsk_root, dsk_file]"
    using dsk_objects by (simp add: snp_layout_def dsk_layout_def)
  moreover have "List.find (\<lambda>sn. sn_xid sn = 4) [snp_snapshot] = Some snp_snapshot" "sn_sblock_oid snp_snapshot = sl_addr snp_snap"
    "4 \<noteq> vol_xid (lay_volume snp_layout)" "5 \<noteq> vol_xid (lay_volume snp_layout)" "5 \<notin> sn_xid ` set [snp_snapshot]"
    by (simp_all add: snp_snapshot_def snp_snap_def snp_layout_def dsk_volume_def)
  ultimately show ?thesis
    using written_snapshot_mounts [OF snp_fits snp_holds _ _ _ snp_objects, of 4 snp_snapshot None "[dsk_root, dsk_file]" _ _ _ _ 5]
    by (simp add: shows_objects_def snp_old_root_def) (simp add: dsk_root_def)
qed

section \<open>Contents\<close>

text \<open>
  C10 (functional): reading a data stream of an in-memory image whose extents lie in the image succeeds,
  and every byte is the one the format defines: the image byte at the physical place the last covering
  extent gives for that offset, zero in a hole (physical block 0) or where no extent reaches.
\<close>

theorem stream_bytes:
  assumes "fs_stored (cursor img) volume bs t" and "logical_size \<le> MAX_FILE_BYTES" and "0 < bs"
    and "bs < 2 ^ 64" and "length img < 2 ^ 64"
    and "\<forall>e \<in> set (spec_extents t oid). extent_in_image img bs (unat logical_size) e"
  shows "read_stream (cursor img) volume oid logical_size bs =
    Ok (map (stream_byte img bs (spec_extents t oid)) [0..<unat logical_size])"
  using assms by (rule read_stream_cursor)

theorem stream_bytes_witness: "read_stream smp (smp_volume 6) 16 5 4096 = Ok (ascii ''hello'')"
  using stream_bytes [OF smp_stored, of 6 5 16] smp_in_image smp_stream smp_length
  by (simp add: MAX_FILE_BYTES_def word_le_nat_alt del: length_concat)

text \<open>
  C24 (equivalence): on every source that honours \<^verbatim>\<open>read_exact\<close>, for plain and compressed files alike,
  the size reported without reading a file is the number of bytes reading it returns.
\<close>

theorem reported_size_is_contents_length:
  assumes "exact_source dev" and "read_data cs dev volume inode bs = Ok out"
  shows "\<exists>sz. data_size dev volume inode bs = Ok sz \<and> unat sz = length out"
  using assms by (rule exact_source.read_data_length)

theorem reported_size_is_contents_length_witness:
  "\<exists>i sz. load_inode smp (smp_volume 6) 17 4096 = Ok i \<and> data_size smp (smp_volume 6) i 4096 = Ok sz \<and> unat sz = 3"
proof -
  obtain i where i: "load_inode smp (smp_volume 6) 17 4096 = Ok i" using smp_load(2) [of 6] by (auto simp: word_le_nat_alt)
  have "read_data tag_codecs smp (smp_volume 6) i 4096 = Ok (ascii ''xyz'')"
    using smp_read_data(2) [OF _ i] by (simp add: word_le_nat_alt)
  from reported_size_is_contents_length [OF cur.exact_source_axioms this] show ?thesis using i by auto
qed

section \<open>The mounted file system\<close>

definition smp_fs :: "u64 \<Rightarrow> ApfsFs" where
  "smp_fs xid = \<lparr>fs_volume = smp_volume xid, fs_block_size = 4096, fs_root_xid = xid, fs_poisoned = False\<rparr>"

text \<open>
  C25 (functional): every name the adapter lists in a directory can be looked up there: the lookup
  returns the id of the first listed entry of that name, on any source.
\<close>

theorem listed_names_resolve:
  assumes "read_dir dev fs (ApfsOid parent x :: 'o FileId) = (VOk es, fs')" and "e \<in> set es"
  shows "\<exists>e'. List.find (\<lambda>d. vde_name d = vde_name e) es = Some e' \<and>
    lookup dev fs (ApfsOid parent x) (vde_name e) = (VOk (Some (vde_id e')), fs)"
proof -
  have "valid_utf8 (vde_name e)"
    using assms(2) list_dir_names by (cases rule: read_dir_VOk [OF assms(1)]) (fastforce simp: list_all_iff name_ok_def)
  moreover obtain e' where "List.find (\<lambda>d. vde_name d = vde_name e) es = Some e'"
    using assms(2) by (cases "List.find (\<lambda>d. vde_name d = vde_name e) es") (auto simp: find_None_iff)
  ultimately show ?thesis using lookup_read_dir [OF assms(1), of "vde_name e"] by auto
qed

theorem listed_names_resolve_witness:
  "lookup smp (smp_fs 6) (ApfsOid 2 6 :: nat FileId) (ascii ''b'') = (VOk (Some (ApfsOid 17 6)), smp_fs 6)"
proof -
  let ?e = "\<lambda>s i. \<lparr>vde_kind = NodeFile, vde_name = ascii s, vde_id = ApfsOid i 6\<rparr> :: nat VfsDirEntry"
  have "read_dir smp (smp_fs 6) (ApfsOid 2 6) = (VOk [?e ''a.txt'' 16, ?e ''b'' 17], smp_fs 6)"
    using list_dir_stored [OF smp_stored, of 6 2]
    by (simp add: read_dir_def checked_def oid_of_def locked_def lift_res_def smp_fs_def smp_spec_dir word_le_nat_alt
        dt_to_kind_def DT_MASK_def DT_DIR_def DT_REG_def)
  from listed_names_resolve [OF this, of "?e ''b'' 17"] show ?thesis by (auto simp: ascii_def)
qed

text \<open>
  C22 (invariant): however a handle was mounted and whatever calls any number of workers have made on it,
  its lock is not poisoned and its block size is between 4096 and 65536; so every further call is
  answered without a panic and never with the lock error.
\<close>

theorem handle_never_poisoned:
  assumes "handle cs dev fs"
  shows "\<not> fs_poisoned fs \<and> 4096 \<le> fs_block_size fs \<and> fs_block_size fs \<le> 65536 \<and>
    answers_call fs (read_dir dev fs ino) \<and> answers_call fs (extents dev fs ino st) \<and>
    answers_call fs (lookup dev fs ino name) \<and> answers_call fs (meta dev fs ino) \<and>
    answers_call fs (vfs_read_at cs dev fs ino st off buf)"
  using handle_serving [OF assms] calls_answered [of fs] by (auto simp: serving_def)

lemma smp_serving: "serving (smp_fs xid)"
  by (simp add: serving_def smp_fs_def)

lemma smp_opens: "ApfsFs_open smp = Ok (smp_fs 6)"
  by (simp add: ApfsFs_open_def smp_open_first smp_fs_def)

theorem handle_never_poisoned_witness:
  "\<not> fs_poisoned (snd (lookup smp (smp_fs 6) (vfs_root (smp_fs 6) :: nat FileId) (ascii ''b'')))"
  using handle_never_poisoned [OF called_lookup [OF mounted [OF smp_opens]]] by blast

text \<open>
  C4 (refinement): end to end, a file of a stored volume is served as the records define it. From the root, one
  lookup per path component reaches it; the metadata call gives its kind and its size; and windows of any
  length, as many as cover it, concatenate to its contents, be they assembled from extents or
  decompressed from any supported layout in an attribute or a resource fork.
\<close>

theorem stored_file_reads_back:
  assumes "serving fs" and "fs_stored (cursor img) (fs_volume fs) (fs_block_size fs) t" and "length img < 2 ^ 64"
    and "spec_path t (vol_xid (fs_volume fs)) ROOT_DIR_INO_NUM names = Ok oid"
    and "spec_inode t oid = Some rec" and "Inode_parse oid rec = Ok inode"
    and "file_contents cs img (fs_block_size fs) t inode data"
    and "length data \<le> n * k" and "n * k < 2 ^ 64"
  shows "\<exists>node m. follow (cursor img) fs (vfs_root fs :: 'o FileId) names = Some node \<and>
    meta (cursor img) fs node = (VOk m, fs) \<and> meta_kind m = mode_to_kind (ino_mode inode) \<and>
    unat (meta_size m) = length data \<and> concat (map (window cs (cursor img) fs node k) [0..<n]) = data"
  using assms by (rule file_view)

theorem stored_file_reads_back_witness:
  "\<exists>node m. follow smp (smp_fs 6) (vfs_root (smp_fs 6) :: nat FileId) [ascii ''b''] = Some node \<and>
     meta smp (smp_fs 6) node = (VOk m, smp_fs 6) \<and> unat (meta_size m) = 3 \<and>
     concat (map (window tag_codecs smp (smp_fs 6) node 2) [0..<2]) = ascii ''xyz''"
proof -
  have path: "spec_path smp_tree (vol_xid (fs_volume (smp_fs 6))) ROOT_DIR_INO_NUM [ascii ''b''] = Ok 17"
    by (simp add: ROOT_DIR_INO_NUM_def spec_child_def smp_spec_dir ascii_def)
  obtain i rec where i: "spec_inode smp_tree 17 = Some rec" "Inode_parse 17 rec = Ok i" "ino_oid i = 17"
    using smp_load(2) [of 6]
    by (cases "spec_inode smp_tree 17") (auto simp: load_inode_stored [OF smp_stored] word_le_nat_alt)
  have holds: "file_contents tag_codecs (concat smp_blocks) (fs_block_size (smp_fs 6)) smp_tree i (ascii ''xyz'')"
    by (rule compressed_file [OF embedded _ smp_decmpfs_file [of _ None]])
      (simp_all add: i smp_spec_xattr smp_decmpfs_def decmpfs_attr_def MAX_DECMPFS_XATTR_BYTES_def)
  have img: "fs_stored smp (fs_volume (smp_fs 6)) (fs_block_size (smp_fs 6)) smp_tree" "length (concat smp_blocks) < 2 ^ 64"
    using smp_stored [of 6] smp_length by (simp_all add: smp_fs_def word_le_nat_alt del: length_concat)
  have "length (ascii ''xyz'') = 3" by simp
  with stored_file_reads_back [OF smp_serving img path i(1,2) holds, of 2 2, where 'o = nat] show ?thesis by fastforce
qed

text \<open>
  C26 (functional): the runs the adapter reports for a plain file without gaps are the file on the image: the
  bytes carved from them, zeros for sparse ones, cut at the file's size, are exactly what reading returns.
\<close>

theorem runs_hold_contents:
  assumes "serving fs" and "fs_stored (cursor img) (fs_volume fs) (fs_block_size fs) t" and "length img < 2 ^ 64"
    and "spec_inode t oid = Some rec" and "Inode_parse oid rec = Ok inode"
    and "spec_xattr t (ino_oid inode) XATTR_NAME_DECMPFS = None" and "spec_size inode \<le> MAX_FILE_BYTES"
    and "contiguous img (fs_block_size fs) 0 (spec_extents t (ino_private_id inode))"
    and "unat (spec_size inode) \<le> extents_len (spec_extents t (ino_private_id inode))"
  shows "\<exists>runs. extents (cursor img) fs (ApfsOid oid x :: 'o FileId) DefaultStream = (VOk runs, fs) \<and>
    read_data cs (cursor img) (fs_volume fs) inode (fs_block_size fs) =
      Ok (take (unat (spec_size inode)) (concat (map (run_bytes img) runs)))"
  using assms by (rule runs_of_file)

theorem runs_hold_contents_witness:
  "\<exists>runs i. extents smp (smp_fs 6) (ApfsOid 16 6 :: nat FileId) DefaultStream = (VOk runs, smp_fs 6) \<and>
     read_data tag_codecs smp (smp_volume 6) i 4096 = Ok (take 5 (concat (map (run_bytes (concat smp_blocks)) runs)))"
proof -
  obtain i rec where i: "spec_inode smp_tree 16 = Some rec" "Inode_parse 16 rec = Ok i" "ino_oid i = 16"
    "ino_private_id i = 16" "ino_size i = Some 5"
    using smp_load(1) [of 6]
    by (cases "spec_inode smp_tree 16") (auto simp: load_inode_stored [OF smp_stored] word_le_nat_alt)
  have "contiguous (concat smp_blocks) 4096 0 (spec_extents smp_tree 16)"
    "unat (5 :: u64) \<le> extents_len (spec_extents smp_tree 16)"
    using smp_length by (simp_all add: smp_spec_extents extents_len_def del: length_concat)
  then show ?thesis
    using runs_hold_contents [of "smp_fs 6" "concat smp_blocks" smp_tree 16 rec i 6 tag_codecs, OF smp_serving]
      smp_stored [of 6] smp_length i
    by (auto simp: smp_fs_def word_le_nat_alt smp_spec_xattr spec_size_def MAX_FILE_BYTES_def simp del: length_concat)
qed

text \<open>
  C37 (error): what an error says. Two errors have the same text only if they are the same, but for I/O errors,
  whose texts are those of the source's own errors; through the adapter no two are confused. So every value
  an error carries can be read back. Structure names are taken to be free of colons, as the crate's are.
\<close>

theorem error_texts_distinct:
  assumes "plain_structure e" and "plain_structure e'"
  shows "(error_text e = error_text e' \<longleftrightarrow> e = e' \<or> (\<exists>k k'. e = Io k \<and> e' = Io k' \<and> io_text k = io_text k')) \<and>
    ((map_err e :: 'o VfsError) = map_err e' \<longleftrightarrow> e = e')"
  using error_text_inject [OF _ assms] map_err_inject [OF _ assms] by auto

theorem error_texts_distinct_witness:
  "error_text (OmapUnresolved 0x1a 6) \<noteq> error_text (OmapUnresolved 1 0xa6) \<and>
   error_text (OmapUnresolved 0x1a 6) = ''omap could not resolve virtual oid 0x1a at xid 6'' \<and>
   (map_err (Io (UnexpectedEof ''eof'')) :: nat VfsError) \<noteq> map_err (Io (OtherIo ''eof''))"
  using error_texts_distinct [of "OmapUnresolved 0x1a 6" "OmapUnresolved 1 0xa6", where 'o = nat]
    error_texts_distinct [of "Io (UnexpectedEof ''eof'')" "Io (OtherIo ''eof'')", where 'o = nat]
  by (simp add: plain_structure_def hex_def dec_def radix.simps [of _ 26] radix.simps [of _ 6] radix.simps [of _ "Suc 0"]
      digit_def)

section \<open>Workers that share a handle\<close>

text \<open>
  C17 (safety): however the single operations of any number of workers on one handle interleave, only the worker
  that holds the lock is ever about to seek or read on the shared cursor, the lock is not poisoned, and
  every reply is the one the call gets when it is made alone: each worker has the replies to its first
  calls, in order. Without the lock this fails: another worker's seek comes between a seek and its read.
\<close>

theorem workers_see_sequential_replies:
  assumes "reach (perform_io cs fs) (start cur (fs_poisoned fs) calls) s" and "serving fs" and "i < length calls"
  shows "\<not> sys_poisoned s \<and>
    (\<forall>j off p n k. current s j (Seek off p) \<or> current s j (Read n k) \<longrightarrow> sys_holder s = Some j) \<and>
    w_replies (sys_workers s ! i) =
      map (perform cs (cursor (cur_data cur)) fs) (take (length (w_replies (sys_workers s ! i))) (calls ! i))"
proof -
  have r: "reach (perform_io cs fs) (start cur False calls) s" using assms(1,2) by (simp add: serving_def)
  note ok = shared.shared_ok_reach [OF r assms(2) refl]
  show ?thesis
    using ok reader_holds [OF ok] shared.interleaved [OF r assms(2) refl assms(3)] by (auto simp: shared_ok_def)
qed

text \<open>Two workers on the sample volume: a lookup and a foreign identity, and a listing.\<close>

definition smp_calls :: "nat call list list" where
  "smp_calls = [[CallLookup (ApfsOid 2 6) (ascii ''b''), CallMeta (OtherFileId 3)], [CallReadDir (ApfsOid 2 6)]]"

definition smp_cursor :: Cursor where
  "smp_cursor = \<lparr>cur_data = concat smp_blocks, cur_pos = 77\<rparr>"

lemma smp_lookup: "lookup smp (smp_fs 6) (ApfsOid 2 6 :: nat FileId) (ascii ''b'') = (VOk (Some (ApfsOid 17 6)), smp_fs 6)"
proof -
  have "lookup_child smp (smp_volume 6) 2 (ascii ''b'') 4096 = Ok (Some 17)"
    unfolding lookup_child_list_dir list_dir_stored [OF smp_stored [of 6], simplified] by (simp add: smp_spec_dir ascii_def)
  moreover have "valid_utf8 (ascii ''b'')" by (simp add: valid_utf8_ascii ascii_def)
  ultimately show ?thesis
    by (simp add: lookup_def checked_def oid_of_def locked_def lift_res_def smp_fs_def)
qed

theorem workers_see_sequential_replies_witness:
  "\<exists>s. reach (perform_io tag_codecs (smp_fs 6)) (start smp_cursor False smp_calls) s \<and>
     w_replies (sys_workers s ! 0) = [ReplyLookup (VOk (Some (ApfsOid 17 6))), ReplyMeta (VErr (Unsupported ''apfs file-id'' 3))]"
proof -
  have start: "start smp_cursor (fs_poisoned (smp_fs 6)) smp_calls = start smp_cursor False smp_calls" by (simp add: smp_fs_def)
  obtain s where s: "reach (perform_io tag_codecs (smp_fs 6)) (start smp_cursor False smp_calls) s"
    "map w_replies (sys_workers s) = map (map (perform tag_codecs (cursor (cur_data smp_cursor)) (smp_fs 6))) smp_calls"
    using shared.completes [OF reach_0 smp_serving refl] by blast
  have "length (sys_workers s) = 2" using arg_cong [OF s(2), of length] by (simp add: smp_calls_def)
  then have "length (w_replies (sys_workers s ! 0)) = 2"
    using arg_cong [OF s(2), of "\<lambda>xs. length (xs ! 0)"] by (simp add: smp_calls_def)
  then have "w_replies (sys_workers s ! 0) = map (perform tag_codecs smp (smp_fs 6)) (take 2 (smp_calls ! 0))"
    using workers_see_sequential_replies [OF s(1) [folded start] smp_serving, of 0]
    by (simp add: smp_calls_def smp_cursor_def)
  then have "w_replies (sys_workers s ! 0) = [ReplyLookup (VOk (Some (ApfsOid 17 6))), ReplyMeta (VErr (Unsupported ''apfs file-id'' 3))]"
    using smp_lookup by (simp add: smp_calls_def meta_def checked_def oid_of_def)
  then show ?thesis using s(1) by blast
qed

text \<open>
  C20 (liveness): no schedule of workers blocks or runs on. From every state they can reach, no endless run of steps
  is possible, so whatever the scheduler does it comes to a state where nobody can move, and there
  every call of every worker has been answered, with its sequential reply; such a state can be reached.
\<close>

theorem workers_all_answered:
  assumes "reach (perform_io cs fs) (start cur (fs_poisoned fs) calls) s" and "serving fs"
  shows "(\<nexists>f. f 0 = s \<and> (\<forall>n. step (perform_io cs fs) (f n) (f (Suc n)))) \<and>
    ((\<nexists>s'. step (perform_io cs fs) s s') \<longrightarrow>
      map w_replies (sys_workers s) = map (map (perform cs (cursor (cur_data cur)) fs)) calls) \<and>
    (\<exists>t. reach (perform_io cs fs) s t \<and>
      map w_replies (sys_workers t) = map (map (perform cs (cursor (cur_data cur)) fs)) calls)"
proof -
  have r: "reach (perform_io cs fs) (start cur False calls) s" using assms by (simp add: serving_def)
  show ?thesis
    using shared.no_endless_run [OF r assms(2) refl] shared.all_answered [OF r assms(2) refl] shared.completes [OF r assms(2) refl]
    by blast
qed

theorem workers_all_answered_witness:
  "\<exists>t. reach (perform_io tag_codecs (smp_fs 6)) (start smp_cursor False smp_calls) t \<and>
     map w_replies (sys_workers t) = map (map (perform tag_codecs smp (smp_fs 6))) smp_calls"
proof -
  have "fs_poisoned (smp_fs 6) = False" "cur_data smp_cursor = concat smp_blocks" by (simp_all add: smp_fs_def smp_cursor_def)
  then show ?thesis
    using workers_all_answered [OF reach_0 [of "perform_io tag_codecs (smp_fs 6)"] smp_serving, of smp_cursor smp_calls] by metis
qed

section \<open>Damaged and later images\<close>

text \<open>
  C2 (safety): damage that the checksum sees is not passed on as metadata. Let any blocks of an image be overwritten
  by anything whose Fletcher-64 is wrong, or, where it was right, be changed in one 32-bit word behind
  the checksum field (other than the swap of the two zeros that Fletcher-64 cannot see). Then, on a volume
  already found, resolution of a path, a name or an inode, listing of a directory, extents, attributes or
  snapshots, name lookup of a snapshot and its mount, the objects pending deletion, and the volume addresses
  of a container each give exactly what they give on the intact image, or stop with a checksum or type
  error. (File contents and allocation bitmaps carry no checksum; opening is the next property.)
\<close>

theorem damage_never_silent:
  assumes "\<forall>b \<in> set blks. length b = bs" and "0 < bs" and "bs < 2 ^ 64" and "length blks * bs < 2 ^ 64"
    and "list_all2 hit blks blks'"
  shows "same_unless refusal (open_path (cursor (concat blks)) v path bs) (open_path (cursor (concat blks')) v path bs) \<and>
    same_unless refusal (lookup_child (cursor (concat blks)) v oid name bs) (lookup_child (cursor (concat blks')) v oid name bs) \<and>
    same_unless refusal (load_inode (cursor (concat blks)) v oid bs) (load_inode (cursor (concat blks')) v oid bs) \<and>
    same_unless refusal (list_dir (cursor (concat blks)) v oid bs) (list_dir (cursor (concat blks')) v oid bs) \<and>
    same_unless refusal (list_extents (cursor (concat blks)) v oid bs) (list_extents (cursor (concat blks')) v oid bs) \<and>
    same_unless refusal (list_xattrs (cursor (concat blks)) v oid bs) (list_xattrs (cursor (concat blks')) v oid bs) \<and>
    same_unless refusal (list_snapshots (cursor (concat blks)) v bs) (list_snapshots (cursor (concat blks')) v bs) \<and>
    same_unless refusal (resolve_snapshot_xid (cursor (concat blks)) v name bs)
      (resolve_snapshot_xid (cursor (concat blks')) v name bs) \<and>
    same_unless refusal (mount_snapshot (cursor (concat blks)) v sn bs) (mount_snapshot (cursor (concat blks')) v sn bs) \<and>
    same_unless refusal (pending_objects (cursor (concat blks)) p ms bs) (pending_objects (cursor (concat blks')) p ms bs) \<and>
    (bs = unat (nx_block_size (superblock c)) \<longrightarrow>
      same_unless refusal (volume_superblock_addrs (cursor (concat blks)) c) (volume_superblock_addrs (cursor (concat blks')) c))"
proof -
  note d = damaged_cursor [OF assms(1,2,4,5)]
  show ?thesis
    by (intro conjI impI open_path_damaged listings_damaged mount_snapshot_damaged pending_objects_damaged
        volume_superblock_addrs_damaged [of bs] d assms(3))
qed

theorem damage_never_silent_witness:
  "(\<exists>e. list_dir (cursor (concat hit_blocks)) (smp_volume 6) 2 4096 = Err e \<and> refusal e) \<and>
   (\<exists>ds. list_dir smp (smp_volume 6) 2 4096 = Ok ds \<and> length ds = 2)"
proof -
  have "\<exists>ds. list_dir smp (smp_volume 6) 2 4096 = Ok ds \<and> length ds = 2"
    using list_dir_stored [OF smp_stored, of 6 2] by (simp add: smp_spec_dir word_le_nat_alt)
  then show ?thesis
    using damage_never_silent [OF smp_lengths(1) _ _ _ hit_damage, of "smp_volume 6" "[]" 2] smp_lengths(2) hit_listing
    by (auto simp: same_unless_def)
qed



text \<open>
  C5 (invariant): a snapshot never changes. In a later state of the source, whose live object map has more
  mappings, all of transactions after the snapshot's, and which keeps the blocks that the older mappings
  and the snapshot's extents name, the snapshot mounts again, on the new object map, and paths, listings,
  attributes and file contents are what they were.
\<close>

theorem snapshot_isolated:
  assumes "mount_snapshot dev live sn bs = Ok v"
    and "dev' (saturating_mul (sn_sblock_oid sn) (word_of_nat bs)) bs = dev (saturating_mul (sn_sblock_oid sn) (word_of_nat bs)) bs"
    and "unchanged_since dev v bs dev' (v\<lparr>vol_omap_oid := vol_omap_oid live'\<rparr>)"
  shows "\<exists>v'. mount_snapshot dev' live' sn bs = Ok v' \<and> open_path dev' v' path bs = open_path dev v path bs \<and>
    list_dir dev' v' oid bs = list_dir dev v oid bs \<and> list_xattrs dev' v' oid bs = list_xattrs dev v oid bs \<and>
    read_data cs dev' v' inode bs = read_data cs dev v inode bs"
  using mount_snapshot_later [OF assms(1), of dev' live', OF assms(2)] open_path_later [OF assms(3)] listings_later [OF assms(3)]
    read_data_later [OF assms(3)] by blast

theorem snapshot_isolated_witness:
  "\<exists>sn v. sn_xid sn = 4 \<and> mount_snapshot (cursor (concat later_blocks)) later_live sn 4096 = Ok v \<and>
     vol_omap_oid v = 14 \<and> list_dir (cursor (concat later_blocks)) v 2 4096 = list_dir smp (smp_volume 4) 2 4096"
proof -
  obtain sn :: Snapshot where sn: "sn_xid sn = 4" "sn_sblock_oid sn = 13" using smp_spec_snapshots by blast
  have "(smp_volume 4)\<lparr>vol_omap_oid := 6\<rparr> = smp_volume 4"
    using smp_volume_fields(2) [of 4] by (cases "smp_volume 4") simp
  then have "mount_snapshot smp (smp_volume 6) sn 4096 = Ok (smp_volume 4)"
    using smp_read [of 13] sn by (simp add: mount_snapshot_def smp_nth smp_apsb_parse with_omap_oid_def)
  moreover have "cursor (concat later_blocks) (saturating_mul 13 4096) 4096 = smp (saturating_mul 13 4096) 4096"
    by (rule later_cursor) (simp add: saturating_mul_def)
  ultimately obtain v where v: "mount_snapshot (cursor (concat later_blocks)) later_live sn 4096 = Ok v"
    "list_dir (cursor (concat later_blocks)) v 2 4096 = list_dir smp (smp_volume 4) 2 4096"
    using snapshot_isolated [OF _ _ later_unchanged, of "smp_volume 6" sn "[]" 2 tag_codecs] sn by auto
  then have "vol_omap_oid v = 14" by (auto simp: mount_snapshot_def with_omap_oid_def later_live_def res_simps)
  with v sn(1) show ?thesis by blast
qed

section \<open>Snapshots\<close>

text \<open>
  C27 (functional): on a volume whose snapshot metadata tree is stored, the snapshots are its metadata
  records sorted by transaction id, and a name resolves to the id of the first name record of it.
\<close>

theorem snapshots_refine_records:
  assumes "snap_stored dev volume bs t"
  shows "list_snapshots dev volume bs = Ok (spec_snapshots t) \<and>
    resolve_snapshot_xid dev volume name bs = Ok (spec_snap_xid t name)"
  using list_snapshots_stored [OF assms] resolve_snapshot_xid_stored [OF assms] by simp

lemma smp_snap_name: "decode_snap_name_key (xattr_key (jk oid t) (ascii ''monday'')) = Some (ascii ''monday'')"
proof -
  have "get_range (xattr_key (jk oid t) (ascii ''monday'')) 10 17 = Some (ascii ''monday'' @ [0])"
    by (simp add: xattr_key_def get_range_def)
  moreover have "le_u16 (xattr_key (jk oid t) (ascii ''monday'')) 8 = 7"
    by (simp add: xattr_key_def slice_simps)
  ultimately show ?thesis
    using decode_cstr_terminated [of "ascii ''monday''" "[]"] smp_names
    by (simp add: decode_snap_name_key_def MAX_SNAP_NAME_LEN_def)
qed

theorem snapshots_refine_records_witness:
  "\<exists>sn. list_snapshots smp (smp_volume 6) 4096 = Ok [sn] \<and> sn_xid sn = 4 \<and>
     resolve_snapshot_xid smp (smp_volume 6) (ascii ''monday'') 4096 = Ok (Some 4)"
proof -
  have "spec_snap_xid (PLeaf 12 smp_snaps) (ascii ''monday'') = Some 4"
    using smp_snap_name [of "0x0fffffffffffffff" RT_SnapName]
    by (simp add: spec_snap_xid_def smp_snaps_def key_oid_jk_alone key_oid_jk xattr_key_def slice_simps)
  then show ?thesis using snapshots_refine_records [OF smp_snap_stored] smp_spec_snapshots by auto
qed

text \<open>
  C39 (safety): the snapshot walk keeps the block number of its root and the virtual oids of the other
  nodes in one visited set, so a tree whose first child has a virtual oid that equals the root's block
  number is refused as cyclic, whatever the object map says about that oid.
\<close>

theorem snapshot_root_collision:
  assumes "read_at dev (saturating_mul (vol_omap_oid volume) (word_of_nat bs)) bs = Ok obuf"
    and "ObjectMap_parse obuf = Ok omap"
    and "read_snap_node dev omap (vol_xid volume) bs True (vol_snap_meta_tree_oid volume) = Ok buf"
    and "parse_node_header buf = Some hdr" and "\<not> is_leaf hdr" and "node_entries buf FsTree = (k, v) # es"
    and "le_u64 v 0 = vol_snap_meta_tree_oid volume"
  shows "list_snapshots dev volume bs = Err (CycleGuard 64)"
  using assms(1,2) by (simp add: list_snapshots_def for_each_snap_record_def snap_root_collision [OF assms(3-7)])

text \<open>The sample volume with an index node as snapshot root, whose child has the oid 12.\<close>

definition clash_index :: "Entry list" where
  "clash_index = [(jk 4 RT_SnapMetadata, to_le_bytes (12 :: u64))]"

definition clash_blocks :: "bytes list" where
  "clash_blocks = smp_blocks[12 := node_block 4096 demo_obj 1 1 clash_index]"

lemma clash_read:
  "read_at (cursor (concat clash_blocks)) (saturating_mul 6 4096) 4096 = Ok smp_omap_phys"
  "read_at (cursor (concat clash_blocks)) (saturating_mul 12 4096) 4096 = Ok (node_block 4096 demo_obj 1 1 clash_index)"
proof -
  have "length (node_block 4096 demo_obj 1 1 clash_index) = 4096"
    by (rule length_node_block) (simp_all add: clash_index_def demo_obj_def node_used_def node_flags)
  then have len: "\<forall>b \<in> set clash_blocks. length b = 4096" "length clash_blocks = 14"
    using smp_lengths by (auto simp: clash_blocks_def dest!: set_update_subset_insert [THEN subsetD])
  show "read_at (cursor (concat clash_blocks)) (saturating_mul 6 4096) 4096 = Ok smp_omap_phys"
    using cursor_block [OF len(1), of 6 "6 * 4096"] len(2)
    by (simp add: read_at_def saturating_mul_def clash_blocks_def smp_nth)
  show "read_at (cursor (concat clash_blocks)) (saturating_mul 12 4096) 4096 =
      Ok (node_block 4096 demo_obj 1 1 clash_index)"
    using cursor_block [OF len(1), of 12 "12 * 4096"] len(2) smp_lengths(2)
    by (simp add: read_at_def saturating_mul_def clash_blocks_def)
qed

theorem snapshot_root_collision_witness:
  "list_snapshots (cursor (concat clash_blocks)) (smp_volume 6) 4096 = Err (CycleGuard 64)"
proof -
  let ?root = "node_block 4096 demo_obj 1 1 clash_index"
  have ok: "layout_ok FsTree demo_obj 1 1 clash_index (node_footer 1)"
    by (simp add: layout_ok_def clash_index_def demo_obj_def node_flags)
  obtain hdr where "parse_node_header ?root = Some hdr" "\<not> is_leaf hdr" "node_entries ?root FsTree = clash_index"
    using sealed_node [OF ok, of "replicate (4096 - node_used 1 clash_index) 0"]
    by (auto simp: node_block_def is_leaf_def BTNODE_LEAF_def)
  moreover have "read_snap_node (cursor (concat clash_blocks)) smp_omap 6 4096 True 12 = Ok ?root"
    using clash_read(2) node_block_cksum_ok [of demo_obj 4096 1 1 clash_index]
    by (simp add: read_snap_node_def demo_obj_def)
  ultimately show ?thesis
    using clash_read(1) smp_omap_parse
    by (intro snapshot_root_collision [of _ _ _ smp_omap_phys smp_omap ?root hdr "jk 4 RT_SnapMetadata"
          "to_le_bytes (12 :: u64)" "[]"])
      (simp_all add: clash_index_def slice_simps)
qed

end
